(* ===== verification/Yard_Prelude.thy ===== *)
theory Yard_Prelude
  imports
    Main
    "HOL-Library.Word"
    "HOL-Library.Multiset"
    "HOL-Library.Char_ord"
    "HOL-Library.List_Lexorder"
    "HOL-Library.Product_Lexorder"
begin

text \<open>
  Shared vocabulary of the Rail Yard development: fallible computations, the Go sorting
  primitive, Go string helpers, and tables of rows as the SQL statements of
  \<^verbatim>\<open>internal/store/sqlite\<close> see them.

  \<^item> A fallible Go function returns a value of \<open>'e + 'a\<close>: \<open>Inl\<close> is the error return,
    \<open>Inr\<close> the result; \<open>bindE\<close> is the \<^verbatim>\<open>if err != nil { return err }\<close> idiom.
  \<^item> \<open>sort_by lt\<close> is \<^verbatim>\<open>sort.Slice\<close> with the comparison \<open>lt\<close>. The locale \<open>keyed_less\<close>
    is its contract: a comparison induced by a key in a linear order.
  \<^item> A table is a list of rows in insertion order; \<open>lookup\<close>, \<open>update_where\<close>, \<open>affected\<close> and
    \<open>insert_row\<close> are SELECT by key, UPDATE, RowsAffected and INSERT on it.
\<close>

named_theorems table_simps \<open>rewriting of table operations\<close>
named_theorems err_simps \<open>rewriting of fallible computations\<close>

section \<open>Definitions\<close>

subsection \<open>Fallible computations\<close>

definition bindE :: "'e + 'a \<Rightarrow> ('a \<Rightarrow> 'e + 'b) \<Rightarrow> 'e + 'b" where
  "bindE m f = (case m of Inl e \<Rightarrow> Inl e | Inr x \<Rightarrow> f x)"

definition guardE :: "bool \<Rightarrow> 'e \<Rightarrow> 'e + unit" where
  "guardE c e = (if c then Inl e else Inr ())"

fun foldE :: "('a \<Rightarrow> 's \<Rightarrow> 'e + 's) \<Rightarrow> 'a list \<Rightarrow> 's \<Rightarrow> 'e + 's" where
  "foldE f [] s = Inr s"
| "foldE f (x # xs) s = bindE (f x s) (foldE f xs)"

definition is_ok :: "'e + 'a \<Rightarrow> bool" where
  "is_ok r = (case r of Inl _ \<Rightarrow> False | Inr _ \<Rightarrow> True)"

subsection \<open>sort.Slice\<close>

fun insert_by :: "('a \<Rightarrow> 'a \<Rightarrow> bool) \<Rightarrow> 'a \<Rightarrow> 'a list \<Rightarrow> 'a list" where
  "insert_by lt x [] = [x]"
| "insert_by lt x (y # ys) = (if lt x y then x # y # ys else y # insert_by lt x ys)"

definition sort_by :: "('a \<Rightarrow> 'a \<Rightarrow> bool) \<Rightarrow> 'a list \<Rightarrow> 'a list" where
  "sort_by lt xs = foldl (\<lambda>acc x. insert_by lt x acc) [] xs"

subsection \<open>Strings\<close>

text \<open>\<^verbatim>\<open>strings.TrimSpace\<close>: the white space of \<^verbatim>\<open>unicode.IsSpace\<close> in UTF-8.\<close>

definition space_runes :: "string list" where
  "space_runes =
     [[CHR 0x09], [CHR 0x0A], [CHR 0x0B], [CHR 0x0C], [CHR 0x0D], [CHR 0x20],
      [CHR 0xC2, CHR 0x85], [CHR 0xC2, CHR 0xA0], [CHR 0xE1, CHR 0x9A, CHR 0x80]] @
     map (\<lambda>c. [CHR 0xE2, CHR 0x80, c])
       [CHR 0x80, CHR 0x81, CHR 0x82, CHR 0x83, CHR 0x84, CHR 0x85, CHR 0x86, CHR 0x87, CHR 0x88,
        CHR 0x89, CHR 0x8A, CHR 0xA8, CHR 0xA9, CHR 0xAF] @
     [[CHR 0xE2, CHR 0x81, CHR 0x9F], [CHR 0xE3, CHR 0x80, CHR 0x80]]"

function trim_prefixes :: "string list \<Rightarrow> string \<Rightarrow> string" where
  "trim_prefixes ps s =
     (case find (\<lambda>p. p \<noteq> [] \<and> take (length p) s = p) ps of
        None \<Rightarrow> s
      | Some p \<Rightarrow> trim_prefixes ps (drop (length p) s))"
  by pat_completeness auto
termination
  by (relation "measure (\<lambda>(ps, s). length s)") (auto simp: find_Some_iff intro!: diff_less dest: sym)

definition trim_space :: "string \<Rightarrow> string" where
  "trim_space s = rev (trim_prefixes (map rev space_runes) (rev (trim_prefixes space_runes s)))"

subsection \<open>Tables\<close>

definition lookup :: "('r \<Rightarrow> 'k) \<Rightarrow> 'k \<Rightarrow> 'r list \<Rightarrow> 'r option" where
  "lookup key k rows = find (\<lambda>r. key r = k) rows"

definition update_where :: "('r \<Rightarrow> bool) \<Rightarrow> ('r \<Rightarrow> 'r) \<Rightarrow> 'r list \<Rightarrow> 'r list" where
  "update_where p f rows = map (\<lambda>r. if p r then f r else r) rows"

definition affected :: "('r \<Rightarrow> bool) \<Rightarrow> 'r list \<Rightarrow> nat" where
  "affected p rows = length (filter p rows)"

definition insert_row :: "('r \<Rightarrow> 'k) \<Rightarrow> 'r \<Rightarrow> 'r list \<Rightarrow> 'r list option" where
  "insert_row key r rows = (if key r \<in> key ` set rows then None else Some (rows @ [r]))"

section \<open>Lemmas\<close>

subsection \<open>Fallible computations\<close>

lemma bindE_simps [simp, err_simps]:
  "bindE (Inl e) f = Inl e"
  "bindE (Inr x) f = f x"
  by (simp_all add: bindE_def)

lemma bindE_Inr_iff [err_simps]: "bindE m f = Inr y \<longleftrightarrow> (\<exists>x. m = Inr x \<and> f x = Inr y)"
  by (cases m) auto

lemma bindE_Inl_iff [err_simps]:
  "bindE m f = Inl e \<longleftrightarrow> m = Inl e \<or> (\<exists>x. m = Inr x \<and> f x = Inl e)"
  by (cases m) auto

lemma guardE_Inr_iff [simp, err_simps]: "guardE c e = Inr u \<longleftrightarrow> \<not> c"
  by (simp add: guardE_def)

lemma guardE_Inl_iff [simp, err_simps]: "guardE c e = Inl e' \<longleftrightarrow> c \<and> e' = e"
  by (auto simp: guardE_def)

lemma bindE_guardE [simp]: "bindE (guardE c e) f = (if c then Inl e else f ())"
  by (simp add: guardE_def)

lemma bindE_cong [fundef_cong]:
  "m = m' \<Longrightarrow> (\<And>x. m' = Inr x \<Longrightarrow> f x = g x) \<Longrightarrow> bindE m f = bindE m' g"
  by (cases m') auto

lemma bindE_assoc: "bindE (bindE m f) g = bindE m (\<lambda>x. bindE (f x) g)"
  by (cases m) auto

lemma is_ok_simps [simp, err_simps]:
  "\<not> is_ok (Inl e)" "is_ok (Inr x)"
  by (simp_all add: is_ok_def)

lemma foldE_append: "foldE f (xs @ ys) s = bindE (foldE f xs s) (foldE f ys)"
  by (induction xs arbitrary: s) (auto simp: bindE_def split: sum.splits)

text \<open>The rule for loops that return at the first error: an invariant kept by each
  successful body holds after a successful loop.\<close>

lemma foldE_invariant:
  assumes "foldE f xs s = Inr t" and "P s"
    and "\<And>x u v. x \<in> set xs \<Longrightarrow> P u \<Longrightarrow> f x u = Inr v \<Longrightarrow> P v"
  shows "P t"
  using assms
proof (induction xs arbitrary: s)
  case Nil
  then show ?case by simp
next
  case (Cons x xs)
  from Cons.prems(1) obtain u where u: "f x s = Inr u" and rest: "foldE f xs u = Inr t"
    by (auto simp: bindE_Inr_iff)
  have "P u" using Cons.prems(3)[OF _ Cons.prems(2) u] by simp
  show ?case
    by (rule Cons.IH[OF rest \<open>P u\<close>]) (use Cons.prems(3) in auto)
qed

subsection \<open>sort.Slice\<close>

lemma set_insert_by [simp]: "set (insert_by lt x ys) = insert x (set ys)"
  by (induction ys) auto

lemma mset_insert_by [simp]: "mset (insert_by lt x ys) = add_mset x (mset ys)"
  by (induction ys) auto

lemma sort_by_snoc: "sort_by lt (xs @ [x]) = insert_by lt x (sort_by lt xs)"
  by (simp add: sort_by_def)

lemma sort_by_Nil [simp]: "sort_by lt [] = []"
  by (simp add: sort_by_def)

lemma mset_sort_by [simp]: "mset (sort_by lt xs) = mset xs"
  by (induction xs rule: rev_induct) (simp_all add: sort_by_snoc)

lemma set_sort_by [simp]: "set (sort_by lt xs) = set xs"
  by (metis mset_sort_by set_mset_mset)

lemma length_sort_by [simp]: "length (sort_by lt xs) = length xs"
  by (metis mset_sort_by size_mset)

lemma distinct_map_sort_by [simp]: "distinct (map f (sort_by lt xs)) = distinct (map f xs)"
proof -
  have "mset (map f (sort_by lt xs)) = mset (map f xs)" by simp
  then show ?thesis by (rule mset_eq_imp_distinct_iff)
qed

text \<open>A comparison that orders its arguments by a key. \<^verbatim>\<open>sort.Slice\<close> is not documented to be
  stable; the facts below show that the result is the same for every sorting algorithm as
  soon as the keys of the elements differ.\<close>

locale keyed_less =
  fixes lt :: "'a \<Rightarrow> 'a \<Rightarrow> bool" and key :: "'a \<Rightarrow> 'k::linorder"
  assumes less_iff: "lt x y \<longleftrightarrow> key x < key y"
begin

lemma sorted_insert_by: "sorted (map key ys) \<Longrightarrow> sorted (map key (insert_by lt x ys))"
  by (induction ys) (auto simp: less_iff)

lemma sorted_sort_by: "sorted (map key (sort_by lt xs))"
  by (induction xs rule: rev_induct) (simp_all add: sort_by_snoc sorted_insert_by)

lemma filter_insert_by:
  "sorted (map key ys) \<Longrightarrow>
   filter (\<lambda>z. k = key z) (insert_by lt x ys) = filter (\<lambda>z. k = key z) ys @ (if k = key x then [x] else [])"
proof (induction ys)
  case Nil
  then show ?case by simp
next
  case (Cons y ys)
  show ?case
  proof (cases "lt x y")
    case True
    have "\<forall>z \<in> set (y # ys). key x < key z"
      using Cons.prems True by (auto simp: less_iff intro: less_le_trans)
    then have "filter (\<lambda>z. key x = key z) (y # ys) = []"
      by (auto simp: filter_empty_conv)
    then show ?thesis using True by (auto simp: filter_empty_conv)
  next
    case False
    then show ?thesis using Cons by auto
  qed
qed

lemma sort_by_eq_sort_key: "sort_by lt xs = sort_key key xs"
proof -
  have stable: "filter (\<lambda>z. k = key z) (sort_by lt xs) = filter (\<lambda>z. k = key z) xs" for k
    by (induction xs rule: rev_induct) (simp_all add: sort_by_snoc filter_insert_by sorted_sort_by)
  have "sort_key key xs = sort_by lt xs"
    by (rule properties_for_sort_key) (simp_all add: stable sorted_sort_by)
  then show ?thesis by simp
qed

text \<open>Whatever sorting algorithm runs, its result is the model's.\<close>

lemma any_sort_agrees:
  assumes "mset ys = mset xs" and "sorted (map key ys)" and "inj_on key (set xs)"
  shows "ys = sort_by lt xs"
  using sort_key_inj_key_eq[OF assms(1)[symmetric] assms(3) assms(2)]
  by (simp add: sort_by_eq_sort_key)

text \<open>The order in which the elements were collected is irrelevant.\<close>

lemma sort_by_permutation:
  assumes "mset xs = mset ys" and "inj_on key (set xs)"
  shows "sort_by lt xs = sort_by lt ys"
proof -
  have "inj_on key (set ys)" using assms by (metis mset_eq_setD)
  moreover have "mset (sort_by lt xs) = mset ys" using assms(1) by simp
  ultimately show ?thesis
    using any_sort_agrees[of "sort_by lt xs" ys] sorted_sort_by by simp
qed

lemma sort_by_idem: "sort_by lt (sort_by lt xs) = sort_by lt xs"
  by (simp add: sort_by_eq_sort_key sort_key_id_if_sorted)

end

interpretation string_less: keyed_less "(<) :: string \<Rightarrow> string \<Rightarrow> bool" "\<lambda>s. s"
  by unfold_locales simp

subsection \<open>Tables\<close>

lemma lookup_Some_in: "lookup key k rows = Some r \<Longrightarrow> r \<in> set rows \<and> key r = k"
  by (auto simp: lookup_def find_Some_iff)

lemma lookup_None_iff: "lookup key k rows = None \<longleftrightarrow> k \<notin> key ` set rows"
  by (auto simp: lookup_def find_None_iff)

lemma lookup_Nil [simp]: "lookup key k [] = None"
  by (simp add: lookup_def)

lemma lookup_Cons: "lookup key k (r # rows) = (if key r = k then Some r else lookup key k rows)"
  by (simp add: lookup_def)

lemma lookup_append [table_simps]:
  "lookup key k (rows @ rows') = (case lookup key k rows of None \<Rightarrow> lookup key k rows' | Some r \<Rightarrow> Some r)"
  by (induction rows) (auto simp: lookup_Cons)

lemma lookup_snoc:
  "lookup key k (rows @ [r]) =
     (case lookup key k rows of None \<Rightarrow> if key r = k then Some r else None | Some r' \<Rightarrow> Some r')"
  by (simp add: lookup_append lookup_Cons split: option.split)

lemma lookup_distinct:
  "distinct (map key rows) \<Longrightarrow> r \<in> set rows \<Longrightarrow> lookup key (key r) rows = Some r"
  by (induction rows) (auto simp: lookup_Cons)

lemma in_set_lookup:
  "distinct (map key rows) \<Longrightarrow> r \<in> set rows \<longleftrightarrow> lookup key (key r) rows = Some r"
  using lookup_distinct lookup_Some_in by metis

lemma map_key_update_where:
  "(\<And>r. r \<in> set rows \<Longrightarrow> p r \<Longrightarrow> key (f r) = key r) \<Longrightarrow> map key (update_where p f rows) = map key rows"
  by (auto simp: update_where_def)

lemma lookup_update_where:
  "(\<And>r. p r \<Longrightarrow> key (f r) = key r) \<Longrightarrow>
   lookup key k (update_where p f rows) = map_option (\<lambda>r. if p r then f r else r) (lookup key k rows)"
  by (induction rows) (auto simp: update_where_def lookup_Cons)

lemma set_update_where: "set (update_where p f rows) = f ` {r \<in> set rows. p r} \<union> {r \<in> set rows. \<not> p r}"
  by (auto simp: update_where_def)

lemma length_update_where [simp]: "length (update_where p f rows) = length rows"
  by (simp add: update_where_def)

lemma affected_key:
  "distinct (map key rows) \<Longrightarrow>
   affected (\<lambda>r. key r = k \<and> q r) rows =
     (case lookup key k rows of None \<Rightarrow> 0 | Some r \<Rightarrow> if q r then 1 else 0)"
proof (induction rows)
  case Nil
  then show ?case by (simp add: affected_def)
next
  case (Cons a rows)
  show ?case
  proof (cases "key a = k")
    case True
    then have "filter (\<lambda>r. key r = k \<and> q r) rows = []"
      using Cons.prems by (auto simp: filter_empty_conv image_iff)
    then show ?thesis using True by (simp add: affected_def lookup_Cons)
  next
    case False
    then show ?thesis using Cons by (simp add: affected_def lookup_Cons)
  qed
qed

lemma update_where_no_match: "(\<And>r. r \<in> set rows \<Longrightarrow> \<not> p r) \<Longrightarrow> update_where p f rows = rows"
  by (induction rows) (auto simp: update_where_def)

lemma sum_list_update_where:
  fixes g :: "'r \<Rightarrow> int"
  assumes "distinct (map key rows)" and "lookup key k rows = Some r" and "q r"
  shows "sum_list (map g (update_where (\<lambda>r. key r = k \<and> q r) f rows)) = sum_list (map g rows) + g (f r) - g r"
  using assms
proof (induction rows)
  case Nil
  then show ?case by simp
next
  case (Cons a rows)
  show ?case
  proof (cases "key a = k")
    case True
    then have "update_where (\<lambda>r. key r = k \<and> q r) f rows = rows"
      using Cons.prems by (intro update_where_no_match) (auto simp: image_iff)
    then show ?thesis
      using True Cons.prems by (simp add: lookup_Cons update_where_def)
  next
    case False
    then have "sum_list (map g (update_where (\<lambda>r. key r = k \<and> q r) f rows)) = sum_list (map g rows) + g (f r) - g r"
      using Cons by (simp add: lookup_Cons)
    then show ?thesis using False by (simp add: update_where_def)
  qed
qed

lemma insert_row_Some [table_simps]:
  "insert_row key r rows = Some rows' \<longleftrightarrow> lookup key (key r) rows = None \<and> rows' = rows @ [r]"
  by (auto simp: insert_row_def lookup_None_iff)

lemma insert_row_None [table_simps]:
  "insert_row key r rows = None \<longleftrightarrow> lookup key (key r) rows \<noteq> None"
  by (simp add: insert_row_def lookup_None_iff)

lemma distinct_insert_row:
  "insert_row key r rows = Some rows' \<Longrightarrow> distinct (map key rows) \<Longrightarrow> distinct (map key rows')"
  by (auto simp: insert_row_def split: if_splits)

declare trim_prefixes.simps [simp del]

end
