(* ===== verification/Go_Sha256.thy ===== *)
theory Go_Sha256
  imports Yard_Prelude
begin

text \<open>
  The parts of the Go standard library that turn values into digests:
  \<^verbatim>\<open>crypto/sha256\<close> (FIPS 180-4), \<^verbatim>\<open>encoding/hex\<close> and \<^verbatim>\<open>encoding/binary\<close> in big-endian
  order. A Go string is a sequence of bytes, here a \<^typ>\<open>string\<close>. The hash is a concrete,
  executable function; \<^verbatim>\<open>Digest_Vectors\<close> evaluates it on a published test vector.
\<close>

unbundle bit_operations_syntax

type_synonym u8 = "8 word"
type_synonym u16 = "16 word"
type_synonym u32 = "32 word"
type_synonym u64 = "64 word"
type_synonym sha_state = "u32 \<times> u32 \<times> u32 \<times> u32 \<times> u32 \<times> u32 \<times> u32 \<times> u32"

section \<open>Definitions\<close>

subsection \<open>Bytes\<close>

definition bytes_of :: "string \<Rightarrow> u8 list" where
  "bytes_of s = map (\<lambda>c. of_nat (of_char c)) s"

definition hex_digit :: "u8 \<Rightarrow> char" where
  "hex_digit d = ''0123456789abcdef'' ! unat d"

definition hex_encode :: "u8 list \<Rightarrow> string" where
  "hex_encode bs = concat (map (\<lambda>b. [hex_digit (drop_bit 4 b), hex_digit (b AND 15)]) bs)"

definition be16 :: "u8 list \<Rightarrow> u16" where
  "be16 bs = push_bit 8 (ucast (bs ! 0)) OR ucast (bs ! 1)"

definition put_be32 :: "u32 \<Rightarrow> u8 list" where
  "put_be32 w = map (\<lambda>i. ucast (drop_bit i w)) [24, 16, 8, 0]"

definition put_be64 :: "u64 \<Rightarrow> u8 list" where
  "put_be64 w = map (\<lambda>i. ucast (drop_bit i w)) [56, 48, 40, 32, 24, 16, 8, 0]"

fun be32_words :: "u8 list \<Rightarrow> u32 list" where
  "be32_words (a # b # c # d # r) =
     (push_bit 24 (ucast a) OR push_bit 16 (ucast b) OR push_bit 8 (ucast c) OR ucast d) # be32_words r"
| "be32_words _ = []"

subsection \<open>The compression function\<close>

definition rotr32 :: "nat \<Rightarrow> u32 \<Rightarrow> u32" where
  "rotr32 n x = drop_bit n x OR push_bit (32 - n) x"

definition sha_constants :: "u32 list" where
  "sha_constants =
    [1116352408, 1899447441, 3049323471, 3921009573, 961987163, 1508970993, 2453635748, 2870763221,
     3624381080, 310598401, 607225278, 1426881987, 1925078388, 2162078206, 2614888103, 3248222580,
     3835390401, 4022224774, 264347078, 604807628, 770255983, 1249150122, 1555081692, 1996064986,
     2554220882, 2821834349, 2952996808, 3210313671, 3336571891, 3584528711, 113926993, 338241895,
     666307205, 773529912, 1294757372, 1396182291, 1695183700, 1986661051, 2177026350, 2456956037,
     2730485921, 2820302411, 3259730800, 3345764771, 3516065817, 3600352804, 4094571909, 275423344,
     430227734, 506948616, 659060556, 883997877, 958139571, 1322822218, 1537002063, 1747873779,
     1955562222, 2024104815, 2227730452, 2361852424, 2428436474, 2756734187, 3204031479, 3329325298]"

definition sha_init :: sha_state where
  "sha_init = (1779033703, 3144134277, 1013904242, 2773480762,
               1359893119, 2600822924, 528734635, 1541459225)"

fun sha_expand :: "nat \<Rightarrow> u32 list \<Rightarrow> u32 list" where
  "sha_expand 0 w = []"
| "sha_expand (Suc n) w =
    (let s0 = rotr32 7 (w ! 1) XOR rotr32 18 (w ! 1) XOR drop_bit 3 (w ! 1);
         s1 = rotr32 17 (w ! 14) XOR rotr32 19 (w ! 14) XOR drop_bit 10 (w ! 14);
         v = s1 + w ! 9 + s0 + w ! 0
     in v # sha_expand n (tl w @ [v]))"

fun sha_round :: "sha_state \<Rightarrow> u32 \<Rightarrow> u32 \<Rightarrow> sha_state" where
  "sha_round (a, b, c, d, e, f, g, h) k w =
    (let t1 = h + (rotr32 6 e XOR rotr32 11 e XOR rotr32 25 e) + ((e AND f) XOR (NOT e AND g)) + k + w;
         t2 = (rotr32 2 a XOR rotr32 13 a XOR rotr32 22 a) + ((a AND b) XOR (a AND c) XOR (b AND c))
     in (t1 + t2, a, b, c, d + t1, e, f, g))"

fun sha_rounds :: "sha_state \<Rightarrow> u32 list \<Rightarrow> u32 list \<Rightarrow> sha_state" where
  "sha_rounds s (k # ks) (w # ws) = sha_rounds (sha_round s k w) ks ws"
| "sha_rounds s _ _ = s"

fun sha_add :: "sha_state \<Rightarrow> sha_state \<Rightarrow> sha_state" where
  "sha_add (a, b, c, d, e, f, g, h) (a', b', c', d', e', f', g', h') =
    (a + a', b + b', c + c', d + d', e + e', f + f', g + g', h + h')"

definition sha_block :: "sha_state \<Rightarrow> u32 list \<Rightarrow> sha_state" where
  "sha_block s w = sha_add s (sha_rounds s sha_constants (w @ sha_expand 48 w))"

function sha_blocks :: "sha_state \<Rightarrow> u8 list \<Rightarrow> sha_state" where
  "sha_blocks s bs =
     (if length bs < 64 then s else sha_blocks (sha_block s (be32_words (take 64 bs))) (drop 64 bs))"
  by pat_completeness auto
termination
  by (relation "measure (\<lambda>(s, bs). length bs)") auto

definition sha_pad :: "u8 list \<Rightarrow> u8 list" where
  "sha_pad m = m @ [0x80] @ replicate ((119 - length m mod 64) mod 64) 0 @ put_be64 (of_nat (8 * length m))"

definition sum256 :: "u8 list \<Rightarrow> u8 list" where
  "sum256 m = (case sha_blocks sha_init (sha_pad m) of (a, b, c, d, e, f, g, h) \<Rightarrow>
     concat (map put_be32 [a, b, c, d, e, f, g, h]))"

text \<open>The idiom \<^verbatim>\<open>sum := sha256.Sum256([]byte(x)); hex.EncodeToString(sum[:])\<close>.\<close>

definition sha256_hex :: "string \<Rightarrow> string" where
  "sha256_hex s = hex_encode (sum256 (bytes_of s))"

section \<open>Lemmas\<close>

declare sha_blocks.simps [simp del]

lemma length_put_be32 [simp]: "length (put_be32 w) = 4"
  by (simp add: put_be32_def)

lemma length_put_be64 [simp]: "length (put_be64 w) = 8"
  by (simp add: put_be64_def)

lemma length_bytes_of [simp]: "length (bytes_of s) = length s"
  by (simp add: bytes_of_def)

lemma length_hex_encode [simp]: "length (hex_encode bs) = 2 * length bs"
  by (induction bs) (simp_all add: hex_encode_def)

text \<open>A digest has 32 bytes, 64 hexadecimal digits.\<close>

lemma length_sum256 [simp]: "length (sum256 m) = 32"
  by (simp add: sum256_def split: prod.split)

lemma length_sha256_hex [simp]: "length (sha256_hex s) = 64"
  by (simp add: sha256_hex_def)

text \<open>Padding fills whole 64-byte blocks, so no byte of the message is left out.\<close>

lemma length_sha_pad: "length (sha_pad m) mod 64 = 0"
proof -
  have "\<forall>r < 64. (r + (1 + ((119 - r) mod 64 + 8))) mod 64 = (0 :: nat)"
    by code_simp
  then have "(length m mod 64 + (1 + ((119 - length m mod 64) mod 64 + 8))) mod 64 = 0"
    by simp
  then have "(length m + (1 + ((119 - length m mod 64) mod 64 + 8))) mod 64 = 0"
    by (metis mod_add_left_eq)
  then show ?thesis by (simp add: sha_pad_def)
qed

text \<open>Bytes and their text are in one-to-one correspondence.\<close>

lemma bytes_of_inj: "bytes_of s = bytes_of t \<longleftrightarrow> s = t"
proof -
  have "inj (\<lambda>c::char. (of_nat (of_char c) :: u8))"
  proof (rule injI)
    fix c d :: char
    assume "(of_nat (of_char c) :: u8) = of_nat (of_char d)"
    then have "unat (of_nat (of_char c) :: u8) = unat (of_nat (of_char d) :: u8)" by simp
    then have "(of_char c :: nat) mod 256 = of_char d mod 256"
      by (simp add: unat_of_nat)
    then have "(of_char c :: nat) = of_char d"
      using nat_of_char_less_256[of c] nat_of_char_less_256[of d] by simp
    then show "c = d" by simp
  qed
  then show ?thesis unfolding bytes_of_def by (simp add: inj_map_eq_map)
qed

lemma hex_digit_inj:
  assumes "unat d < 16" and "unat e < 16" and "hex_digit d = hex_digit e"
  shows "d = e"
proof -
  have "distinct ''0123456789abcdef''" by simp
  then have "unat d = unat e"
    using assms nth_eq_iff_index_eq[of "''0123456789abcdef''" "unat d" "unat e"]
    by (simp add: hex_digit_def)
  then show ?thesis by (simp add: word_unat_eq_iff)
qed

lemma nibble_high: "unat (drop_bit 4 (b :: u8)) < 16"
proof -
  have "unat b < 256" using unsigned_less[of b, where ?'a = nat] by simp
  then show ?thesis by (simp add: drop_bit_eq_div unat_div)
qed

lemma low_nibble_take: "b AND 15 = take_bit 4 (b :: u8)"
proof -
  have "(15 :: u8) = mask 4" by (simp add: mask_numeral)
  then show ?thesis by (simp add: take_bit_eq_mask)
qed

lemma nibble_low: "unat (b AND 15 :: u8) < 16"
  by (simp add: low_nibble_take take_bit_eq_mod unat_mod)

lemma byte_nibbles:
  assumes "drop_bit 4 b = drop_bit 4 c" and "(b :: u8) AND 15 = c AND 15"
  shows "b = c"
proof -
  have d: "x = push_bit 4 (drop_bit 4 x) + take_bit 4 x" for x :: u8
    by (simp add: bits_ident)
  show ?thesis using d[of b] d[of c] assms by (simp add: low_nibble_take)
qed

lemma hex_encode_inj: "hex_encode bs = hex_encode cs \<Longrightarrow> bs = cs"
proof (induction bs arbitrary: cs)
  case Nil
  then show ?case by (cases cs) (simp_all add: hex_encode_def)
next
  case (Cons b bs)
  then obtain c cs' where cs: "cs = c # cs'" by (cases cs) (simp_all add: hex_encode_def)
  have h: "hex_digit (drop_bit 4 b) = hex_digit (drop_bit 4 c)"
    and l: "hex_digit (b AND 15) = hex_digit (c AND 15)"
    and rest: "hex_encode bs = hex_encode cs'"
    using Cons.prems by (simp_all add: cs hex_encode_def)
  have "b = c"
    by (rule byte_nibbles[OF hex_digit_inj[OF nibble_high nibble_high h]
          hex_digit_inj[OF nibble_low nibble_low l]])
  then show ?case using Cons.IH[OF rest] by (simp add: cs)
qed

text \<open>The only way two texts share a digest is a collision of the hash itself.\<close>

lemma sha256_hex_eq_iff: "sha256_hex s = sha256_hex t \<longleftrightarrow> sum256 (bytes_of s) = sum256 (bytes_of t)"
  by (auto simp: sha256_hex_def dest: hex_encode_inj)

end
