(* ===== verification/Domain.thy ===== *)
theory Domain
  imports Go_Sha256
begin

text \<open>
  \<^verbatim>\<open>internal/domain\<close>: the job state machine, payloads, retry policies, job specifications
  and their validation, the job and lease records, and the error values.

  Times are nanoseconds since the Unix epoch as unbounded integers; the zero \<^verbatim>\<open>time.Time\<close>
  (1 January of year 1) is \<open>zero_time\<close>. Go's \<^verbatim>\<open>int\<close> and \<^verbatim>\<open>int64\<close> are \<^typ>\<open>int\<close> where no
  operation of the program can leave their range. An error made by \<^verbatim>\<open>errors.New\<close> or
  \<^verbatim>\<open>fmt.Errorf\<close> is \<open>ErrNew\<close> of its format string, the formatted arguments left out;
  \<open>ErrWrap\<close> is a wrapped (\<open>%w\<close>) error.
\<close>

section \<open>Definitions\<close>

subsection \<open>Errors\<close>

datatype go_err =
    ErrNotFound
  | ErrQueueFull
  | ErrIdempotencyConflict
  | ErrCycleDetected
  | ErrStaleLease
  | ErrTerminalJob
  | ErrDeadLetterRedriven
  | ErrWorkerCapacityConflict
  | ErrConflict
  | ErrNew string
  | ErrWrap string go_err

type_synonym 'a result = "go_err + 'a"

fun errors_Is :: "go_err \<Rightarrow> go_err \<Rightarrow> bool" where
  "errors_Is (ErrWrap m e) target \<longleftrightarrow> ErrWrap m e = target \<or> errors_Is e target"
| "errors_Is e target \<longleftrightarrow> e = target"

subsection \<open>Job states\<close>

datatype JobState =
    StatePending
  | StateScheduled
  | StateRunning
  | StateRetrying
  | StateSucceeded
  | StateFailed
  | StateDeadLetter

definition Terminal :: "JobState \<Rightarrow> bool" where
  "Terminal s \<longleftrightarrow> s = StateSucceeded \<or> s = StateFailed \<or> s = StateDeadLetter"

fun transitions :: "JobState \<Rightarrow> JobState list option" where
  "transitions StatePending = Some [StateScheduled, StateFailed, StateDeadLetter]"
| "transitions StateScheduled =
     Some [StateRunning, StateRetrying, StateSucceeded, StateFailed, StateDeadLetter]"
| "transitions StateRunning = Some [StateRetrying, StateSucceeded, StateFailed, StateDeadLetter]"
| "transitions StateRetrying = Some [StatePending, StateScheduled, StateDeadLetter]"
| "transitions _ = None"

definition ValidateTransition :: "JobState \<Rightarrow> JobState \<Rightarrow> unit result" where
  "ValidateTransition from to = (case transitions from of
     None \<Rightarrow> Inl (ErrNew ''state %s is terminal or unknown'')
   | Some allowed \<Rightarrow>
       if to \<in> set allowed then Inr () else Inl (ErrNew ''transition %s to %s is not allowed''))"

subsection \<open>Payloads, retry policies, job specifications\<close>

datatype PayloadType = PayloadNoop | PayloadShell | PayloadOther string

record Payload =
  p_type :: PayloadType
  p_duration_ms :: int
  p_args :: "string list"

definition Payload_Validate :: "Payload \<Rightarrow> bool \<Rightarrow> unit result" where
  "Payload_Validate p allowShell = (case p_type p of
     PayloadNoop \<Rightarrow>
       if p_duration_ms p < 0 then Inl (ErrNew ''duration_ms must not be negative'') else Inr ()
   | PayloadShell \<Rightarrow>
       if \<not> allowShell then Inl (ErrNew ''shell jobs are disabled'')
       else (case p_args p of
               [] \<Rightarrow> Inl (ErrNew ''shell payload requires a non-empty argv'')
             | a # _ \<Rightarrow>
                 if a = '''' then Inl (ErrNew ''shell payload requires a non-empty argv'') else Inr ())
   | PayloadOther _ \<Rightarrow> Inl (ErrNew ''unsupported payload type %q''))"

record RetryPolicy =
  max_attempts :: int
  retryable :: bool

definition Normalized :: "RetryPolicy \<Rightarrow> RetryPolicy" where
  "Normalized p = (if max_attempts p = 0 then p\<lparr>max_attempts := 5, retryable := True\<rparr> else p)"

definition zero_time :: int where
  "zero_time = - 62135596800 * 1000000000"

record JobSpec =
  s_name :: string
  s_tenant :: string
  s_queue :: string
  s_priority :: int
  s_slot_cost :: int
  s_payload :: Payload
  s_retry :: RetryPolicy
  s_depends_on :: "string list"
  s_available_at :: int

definition Normalize :: "JobSpec \<Rightarrow> JobSpec" where
  "Normalize s =
     (let s1 = (if s_tenant s = '''' then s\<lparr>s_tenant := ''default''\<rparr> else s);
          s2 = (if s_queue s1 = '''' then s1\<lparr>s_queue := ''default''\<rparr> else s1);
          s3 = (if s_slot_cost s2 = 0 then s2\<lparr>s_slot_cost := 1\<rparr> else s2)
      in s3\<lparr>s_retry := Normalized (s_retry s3)\<rparr>)"

definition JobSpec_Validate :: "JobSpec \<Rightarrow> int \<Rightarrow> bool \<Rightarrow> unit result" where
  "JobSpec_Validate s0 maxSlotCost allowShell =
     (let s = Normalize s0 in
      if s_slot_cost s < 1 then Inl (ErrNew ''slot_cost must be positive'')
      else if s_slot_cost s > maxSlotCost then Inl (ErrNew ''slot_cost %d exceeds cluster maximum %d'')
      else if max_attempts (s_retry s) < 1 \<or> max_attempts (s_retry s) > 100
        then Inl (ErrNew ''max_attempts must be between 1 and 100'')
      else Payload_Validate (s_payload s) allowShell)"

subsection \<open>Jobs and leases\<close>

record Failure =
  f_class :: string
  f_message :: string
  f_exit_code :: int
  f_output_digest :: string
  f_stderr :: string

record Job =
  j_id :: string
  j_tenant :: string
  j_queue :: string
  j_priority :: int
  j_slot_cost :: int
  j_payload :: Payload
  j_retry :: RetryPolicy
  j_state :: JobState
  j_attempt_no :: int
  j_state_version :: int
  j_lease_generation :: int
  j_available_at :: int
  j_ready_seq :: int
  j_created_at :: int
  j_updated_at :: int
  j_terminal_at :: "int option"
  j_failure :: "Failure option"

record Lease =
  l_job_id :: string
  l_attempt_no :: int
  l_generation :: int
  l_token :: string
  l_worker_id :: string
  l_expires_at :: int
  l_ready_at :: int
  l_idempotency_key :: string
  l_slot_cost :: int
  l_payload :: Payload

record LeaseRef =
  r_job_id :: string
  r_attempt_no :: int
  r_generation :: int
  r_token :: string

record Completion = LeaseRef +
  c_worker_id :: string
  c_success :: bool
  c_retryable :: bool
  c_output_digest :: string
  c_failure :: "Failure option"

record CompletionReceipt =
  cr_job_id :: string
  cr_state :: JobState
  cr_state_version :: int
  cr_committed_at :: int
  cr_duplicate :: bool

record ReapedLease =
  rl_job_id :: string
  rl_old_worker_id :: string
  rl_generation :: int
  rl_expired_at :: int
  rl_next_available_at :: int

record DeadLetter =
  d_job_id :: string
  d_failure :: Failure
  d_created_at :: int
  d_redriven_job_id :: string

record CronTrigger =
  t_id :: string
  t_tenant :: string
  t_expression :: string
  t_job :: JobSpec
  t_next_fire_at :: int
  t_enabled :: bool
  t_created_at :: int
  t_updated_at :: int

definition new_failure :: "string \<Rightarrow> string \<Rightarrow> Failure" where
  "new_failure class message =
     \<lparr>f_class = class, f_message = message, f_exit_code = 0, f_output_digest = '''', f_stderr = ''''\<rparr>"

definition TokenHash :: "string \<Rightarrow> string" where
  "TokenHash token = sha256_hex token"

text \<open>\<^verbatim>\<open>crypto/rand\<close> is a supply of 16-byte blocks; running dry is the read error.\<close>

type_synonym entropy = "u8 list list"

definition NewID :: "entropy \<Rightarrow> (string \<times> entropy) result" where
  "NewID ent = (case ent of
     [] \<Rightarrow> Inl (ErrNew ''generate id: %w'')
   | value # ent' \<Rightarrow> Inr (hex_encode value, ent'))"

section \<open>Lemmas\<close>

lemma errors_Is_refl [simp]: "errors_Is e e"
  by (cases e) auto

lemma Terminal_simps [simp]:
  "\<not> Terminal StatePending" "\<not> Terminal StateScheduled" "\<not> Terminal StateRunning"
  "\<not> Terminal StateRetrying" "Terminal StateSucceeded" "Terminal StateFailed" "Terminal StateDeadLetter"
  by (simp_all add: Terminal_def)

lemma ValidateTransition_ok_iff:
  "ValidateTransition a b = Inr () \<longleftrightarrow> (\<exists>allowed. transitions a = Some allowed \<and> b \<in> set allowed)"
  by (auto simp: ValidateTransition_def split: option.splits)

lemma ValidateTransition_terminal:
  "Terminal s \<Longrightarrow> \<exists>m. ValidateTransition s t = Inl (ErrNew m)"
  by (cases s) (auto simp: ValidateTransition_def)

lemma Normalized_idem [simp]: "Normalized (Normalized p) = Normalized p"
  by (simp add: Normalized_def)

lemma Normalize_simps [simp]:
  "s_name (Normalize s) = s_name s"
  "s_tenant (Normalize s) = (if s_tenant s = '''' then ''default'' else s_tenant s)"
  "s_queue (Normalize s) = (if s_queue s = '''' then ''default'' else s_queue s)"
  "s_priority (Normalize s) = s_priority s"
  "s_slot_cost (Normalize s) = (if s_slot_cost s = 0 then 1 else s_slot_cost s)"
  "s_payload (Normalize s) = s_payload s"
  "s_retry (Normalize s) = Normalized (s_retry s)"
  "s_depends_on (Normalize s) = s_depends_on s"
  "s_available_at (Normalize s) = s_available_at s"
  by (simp_all add: Normalize_def Let_def)

lemma Normalize_idem [simp]: "Normalize (Normalize s) = Normalize s"
  by (rule JobSpec.equality) simp_all

lemma JobSpec_Validate_Normalize [simp]:
  "JobSpec_Validate (Normalize s) m a = JobSpec_Validate s m a"
  by (simp add: JobSpec_Validate_def)

lemma JobSpec_Validate_ok:
  "JobSpec_Validate s m a = Inr () \<Longrightarrow>
   1 \<le> s_slot_cost (Normalize s) \<and> s_slot_cost (Normalize s) \<le> m \<and>
   1 \<le> max_attempts (s_retry (Normalize s)) \<and> max_attempts (s_retry (Normalize s)) \<le> 100 \<and>
   Payload_Validate (s_payload s) a = Inr ()"
  by (auto simp: JobSpec_Validate_def Let_def split: if_splits)

lemma NewID_Inr_iff: "NewID ent = Inr (i, ent') \<longleftrightarrow> (\<exists>v. ent = v # ent' \<and> i = hex_encode v)"
  by (auto simp: NewID_def split: list.splits)

end
