(* ===== verification/Retry.thy ===== *)
theory Retry
  imports Domain
begin

text \<open>
  \<^verbatim>\<open>internal/retry/backoff.go\<close>: the delay before the next attempt of a failed job, an
  exponential cap scaled by a jitter of 80 to 100 percent taken from a hash of the job ID and
  the attempt number. The basis points are computed in \<^verbatim>\<open>uint16\<close> and the delay in \<^verbatim>\<open>int64\<close>,
  both at their width.
\<close>

section \<open>Definitions\<close>

definition int64 :: "int \<Rightarrow> int" where
  "int64 x = signed_take_bit 63 x"

definition go_quot :: "int \<Rightarrow> int \<Rightarrow> int" where
  "go_quot a b = sgn a * sgn b * (\<bar>a\<bar> div \<bar>b\<bar>)"

definition second_ns :: int where
  "second_ns = 1000000000"

definition caps :: "int list" where
  "caps = [2 * second_ns, 4 * second_ns, 8 * second_ns, 16 * second_ns]"

definition basis_points :: "string \<Rightarrow> int \<Rightarrow> int" where
  "basis_points jobID failedAttempt =
     (let input = bytes_of jobID @ [0] @ put_be64 (of_int failedAttempt);
          sum = sum256 input
      in uint ((8000 :: u16) + be16 (take 2 sum) mod 2001))"

definition cap_index :: "int \<Rightarrow> nat" where
  "cap_index failedAttempt =
     (let index = failedAttempt - 1
      in nat (if index \<ge> int (length caps) then int (length caps) - 1 else index))"

definition Delay :: "string \<Rightarrow> int \<Rightarrow> int result" where
  "Delay jobID failedAttempt =
     (if jobID = '''' then Inl (ErrNew ''job ID is required'')
      else if failedAttempt < 1 then Inl (ErrNew ''failed attempt must be positive'')
      else Inr (go_quot (int64 (caps ! cap_index failedAttempt * basis_points jobID failedAttempt)) 10000))"

definition ReleaseAt :: "int \<Rightarrow> string \<Rightarrow> int \<Rightarrow> int result" where
  "ReleaseAt now jobID failedAttempt = bindE (Delay jobID failedAttempt) (\<lambda>delay. Inr (now + delay))"

section \<open>Lemmas\<close>

lemma int64_id: "- (2 ^ 63) \<le> x \<Longrightarrow> x < 2 ^ 63 \<Longrightarrow> int64 x = x"
  by (simp add: int64_def signed_take_bit_int_eq_self_iff)

lemma go_quot_nonneg: "0 \<le> a \<Longrightarrow> 0 < b \<Longrightarrow> go_quot a b = a div b"
  by (auto simp: go_quot_def sgn_if)

text \<open>The sixteen-bit sum does not wrap.\<close>

lemma basis_points_bounds: "8000 \<le> basis_points j n \<and> basis_points j n \<le> 10000"
proof -
  have "8000 \<le> uint ((8000 :: u16) + w mod 2001) \<and> uint ((8000 :: u16) + w mod 2001) \<le> 10000" for w :: u16
  proof -
    have "uint (w mod 2001) = uint w mod 2001" by (simp add: uint_mod)
    then have m: "0 \<le> uint (w mod 2001)" "uint (w mod 2001) \<le> 2000" by auto
    have "uint ((8000 :: u16) + w mod 2001) = (8000 + uint (w mod 2001)) mod 65536"
      by (simp add: uint_word_ariths)
    also have "\<dots> = 8000 + uint (w mod 2001)" using m by simp
    finally show ?thesis using m by simp
  qed
  then show ?thesis by (simp add: basis_points_def Let_def)
qed

lemma cap_index_less: "1 \<le> n \<Longrightarrow> cap_index n < length caps"
  by (auto simp: cap_index_def caps_def Let_def)

lemma caps_bounds: "i < length caps \<Longrightarrow> 2 * second_ns \<le> caps ! i \<and> caps ! i \<le> 16 * second_ns"
proof -
  have "\<forall>c \<in> set caps. 2 * second_ns \<le> c \<and> c \<le> 16 * second_ns"
    by (simp add: caps_def second_ns_def)
  then show "i < length caps \<Longrightarrow> ?thesis" by (meson nth_mem)
qed

text \<open>The product fits \<^verbatim>\<open>int64\<close>, so the delay is the exact scaled cap.\<close>

lemma Delay_exact:
  assumes "jobID \<noteq> ''''" and "1 \<le> n"
  shows "Delay jobID n = Inr (caps ! cap_index n * basis_points jobID n div 10000)"
proof -
  let ?c = "caps ! cap_index n" and ?b = "basis_points jobID n"
  have c: "0 \<le> ?c" "?c \<le> 16 * second_ns"
    using caps_bounds[OF cap_index_less[OF assms(2)]] by (auto simp: second_ns_def)
  have b: "0 \<le> ?b" "?b \<le> 10000" using basis_points_bounds[of jobID n] by auto
  have "?c * ?b \<le> 16 * second_ns * 10000" using c b by (intro mult_mono) auto
  then have hi: "?c * ?b < 2 ^ 63" by (simp add: second_ns_def)
  have lo: "0 \<le> ?c * ?b" using c b by simp
  have "int64 (?c * ?b) = ?c * ?b" using lo hi by (intro int64_id) auto
  then show ?thesis using assms lo by (simp add: Delay_def go_quot_nonneg)
qed

text \<open>C21: for every job ID and every failed attempt from 1 on, the back-off delay exists and lies between
  80 and 100 percent of the cap of that attempt (2, 4, 8, then 16 seconds), computed without any
  overflow of the 16-bit and 64-bit arithmetic.\<close>

theorem Delay_within_cap:
  assumes "jobID \<noteq> ''''" and "1 \<le> n"
  shows "\<exists>d. Delay jobID n = Inr d \<and>
           caps ! cap_index n * 8 div 10 \<le> d \<and> d \<le> caps ! cap_index n \<and>
           caps ! cap_index n = 2 ^ (min 4 (nat n)) * second_ns"
proof (intro exI conjI)
  let ?c = "caps ! cap_index n" and ?b = "basis_points jobID n"
  show "Delay jobID n = Inr (?c * ?b div 10000)" by (rule Delay_exact[OF assms])
  have c: "0 \<le> ?c" using caps_bounds[OF cap_index_less[OF assms(2)]] by (auto simp: second_ns_def)
  have b: "8000 \<le> ?b" "?b \<le> 10000" using basis_points_bounds[of jobID n] by auto
  have "?c * 8000 div 10000 \<le> ?c * ?b div 10000"
    using c b by (intro zdiv_mono1 mult_left_mono) auto
  then show "?c * 8 div 10 \<le> ?c * ?b div 10000" by simp
  have "?c * ?b div 10000 \<le> ?c * 10000 div 10000"
    using c b by (intro zdiv_mono1 mult_left_mono) auto
  then show "?c * ?b div 10000 \<le> ?c" by simp
  have "n = 1 \<or> n = 2 \<or> n = 3 \<or> 4 \<le> n" using assms(2) by arith
  then show "?c = 2 ^ (min 4 (nat n)) * second_ns"
    by (elim disjE) (auto simp: cap_index_def caps_def Let_def eval_nat_numeral)
qed

theorem Delay_within_cap_witness:
  "(''job'' :: string) \<noteq> '''' \<and> (1 :: int) \<le> 3 \<and>
   (\<exists>d. Delay ''job'' 3 = Inr d \<and> 6400000000 \<le> d \<and> d \<le> 8000000000)"
  using Delay_within_cap[of "''job''" 3]
  by (auto simp: cap_index_def caps_def Let_def second_ns_def)

end
