(* ===== verification/Scheduler.thy ===== *)
theory Scheduler
  imports Domain
begin

text \<open>
  \<^verbatim>\<open>internal/scheduler/scheduler.go\<close>: one scheduling decision of the deficit round robin.

  The two nested loops of \<^verbatim>\<open>Decide\<close> are \<open>decide_loop\<close> over \<open>visit_queue\<close> (one turn of the outer
  loop, on the state \<open>SchedState\<close>) and \<open>grant_loop\<close>. The outer loop ends because a turn either
  takes a candidate off a queue or increases the count of queues visited without a grant.
  An index out of range would panic; it is an error value here, and never returned.
\<close>

section \<open>Definitions\<close>

definition AlgorithmVersion :: string where
  "AlgorithmVersion = ''drr-v1''"

record Candidate =
  ca_job_id :: string
  ca_tenant :: string
  ca_queue :: string
  ca_priority :: int
  ca_ready_seq :: int
  ca_slot_cost :: int
  ca_recovery :: bool

record Queue =
  q_tenant :: string
  q_name :: string
  q_weight :: int
  q_deficit :: int
  q_candidates :: "Candidate list"

record Snapshot =
  sn_sequence :: int
  sn_logical_time_ns :: int
  sn_worker_slots :: int
  sn_batch_limit :: int
  sn_cursor :: int
  sn_queues :: "Queue list"
  sn_config_hash :: string
  sn_algorithm :: string

record Grant =
  g_job_id :: string
  g_tenant :: string
  g_queue :: string
  g_slot_cost :: int

record QueueState =
  qs_tenant :: string
  qs_queue :: string
  qs_deficit :: int

record Decision =
  de_sequence :: int
  de_grants :: "Grant list"
  de_queues :: "QueueState list"
  de_next_cursor :: int

definition candidate_less :: "Candidate \<Rightarrow> Candidate \<Rightarrow> bool" where
  "candidate_less a b =
     (if ca_recovery a \<noteq> ca_recovery b then ca_recovery a
      else if ca_priority a \<noteq> ca_priority b then ca_priority a > ca_priority b
      else if ca_ready_seq a \<noteq> ca_ready_seq b then ca_ready_seq a < ca_ready_seq b
      else ca_job_id a < ca_job_id b)"

definition queue_less :: "Queue \<Rightarrow> Queue \<Rightarrow> bool" where
  "queue_less a b =
     (if q_tenant a \<noteq> q_tenant b then q_tenant a < q_tenant b else q_name a < q_name b)"

definition sort_candidates :: "Queue \<Rightarrow> Queue" where
  "sort_candidates q = q\<lparr>q_candidates := sort_by candidate_less (q_candidates q)\<rparr>"

definition cloneAndSort :: "Queue list \<Rightarrow> Queue list" where
  "cloneAndSort input = sort_by queue_less (map sort_candidates input)"

definition CanonicalSnapshot :: "Snapshot \<Rightarrow> Snapshot" where
  "CanonicalSnapshot input =
     input\<lparr>sn_queues := cloneAndSort (sn_queues input),
           sn_algorithm := (if sn_algorithm input = '''' then AlgorithmVersion else sn_algorithm input)\<rparr>"

definition grant_of :: "Candidate \<Rightarrow> Grant" where
  "grant_of c = \<lparr>g_job_id = ca_job_id c, g_tenant = ca_tenant c, g_queue = ca_queue c,
                 g_slot_cost = ca_slot_cost c\<rparr>"

definition buildDecision :: "int \<Rightarrow> Queue list \<Rightarrow> int \<Rightarrow> Grant list \<Rightarrow> Decision" where
  "buildDecision sequence queues cursor grants =
     \<lparr>de_sequence = sequence,
      de_grants = grants,
      de_queues = map (\<lambda>q. \<lparr>qs_tenant = q_tenant q, qs_queue = q_name q, qs_deficit = q_deficit q\<rparr>) queues,
      de_next_cursor = (if queues = [] then 0 else cursor)\<rparr>"

fun grant_loop :: "int \<Rightarrow> Candidate list \<Rightarrow> int \<Rightarrow> int \<Rightarrow> Grant list \<Rightarrow> bool \<Rightarrow>
    (Candidate list \<times> int \<times> int \<times> Grant list \<times> bool) result" where
  "grant_loop limit [] deficit remaining grants granted = Inr ([], deficit, remaining, grants, granted)"
| "grant_loop limit (c # cs) deficit remaining grants granted =
     (if \<not> int (length grants) < limit then Inr (c # cs, deficit, remaining, grants, granted)
      else if ca_slot_cost c < 1 then Inl (ErrNew ''job %s has invalid slot cost %d'')
      else if ca_slot_cost c > deficit \<or> ca_slot_cost c > remaining
        then Inr (c # cs, deficit, remaining, grants, granted)
      else grant_loop limit cs (deficit - ca_slot_cost c) (remaining - ca_slot_cost c)
             (grants @ [grant_of c]) True)"

record SchedState =
  st_queues :: "Queue list"
  st_cursor :: nat
  st_remaining :: int
  st_grants :: "Grant list"
  st_visited :: nat

definition quantum :: "Queue \<Rightarrow> int" where
  "quantum q = (if q_weight q < 1 then 1 else q_weight q)"

definition visit_queue :: "int \<Rightarrow> SchedState \<Rightarrow> SchedState result" where
  "visit_queue limit st =
     (if st_cursor st \<ge> length (st_queues st) then Inl (ErrNew ''panic: index out of range'')
      else
        let i = st_cursor st;
            q = st_queues st ! i;
            st1 = st\<lparr>st_cursor := (i + 1) mod length (st_queues st)\<rparr>
        in if q_candidates q = [] then Inr (st1\<lparr>st_visited := st_visited st + 1\<rparr>)
           else bindE (grant_loop limit (q_candidates q) (q_deficit q + quantum q) (st_remaining st) (st_grants st) False)
             (\<lambda>(cs, deficit, remaining, grants, granted).
               Inr (st1\<lparr>st_queues := (st_queues st)[i := q\<lparr>q_deficit := deficit, q_candidates := cs\<rparr>],
                        st_remaining := remaining, st_grants := grants,
                        st_visited := (if granted then 0 else st_visited st + 1)\<rparr>)))"

definition decide_guard :: "int \<Rightarrow> SchedState \<Rightarrow> bool" where
  "decide_guard limit st \<longleftrightarrow>
     int (length (st_grants st)) < limit \<and> st_remaining st > 0 \<and> st_visited st < length (st_queues st)"

definition candidate_count :: "Queue list \<Rightarrow> nat" where
  "candidate_count qs = sum_list (map (\<lambda>q. length (q_candidates q)) qs)"

lemma grant_loop_length:
  "grant_loop limit cs d r g b = Inr (cs', d', r', g', b') \<Longrightarrow>
   length cs' \<le> length cs \<and> (b' \<longrightarrow> b \<or> length cs' < length cs)"
proof (induction limit cs d r g b rule: grant_loop.induct)
  case (1 limit d r g b)
  then show ?case by auto
next
  case (2 limit c cs d r g b)
  then show ?case by (fastforce split: if_splits)
qed

lemma candidate_count_update:
  "i < length qs \<Longrightarrow>
   candidate_count (qs[i := q]) + length (q_candidates (qs ! i)) = candidate_count qs + length (q_candidates q)"
proof (induction qs arbitrary: i)
  case Nil
  then show ?case by simp
next
  case (Cons a qs)
  then show ?case by (cases i) (auto simp: candidate_count_def)
qed

lemma visit_queue_measure:
  assumes "visit_queue limit st = Inr st'" and "decide_guard limit st"
  shows "candidate_count (st_queues st') < candidate_count (st_queues st) \<or>
         candidate_count (st_queues st') \<le> candidate_count (st_queues st) \<and>
         length (st_queues st') - st_visited st' < length (st_queues st) - st_visited st"
proof -
  have i: "st_cursor st < length (st_queues st)" using assms(1) by (auto simp: visit_queue_def split: if_splits)
  let ?q = "st_queues st ! st_cursor st"
  have v: "st_visited st < length (st_queues st)" using assms(2) by (simp add: decide_guard_def)
  show ?thesis
  proof (cases "q_candidates ?q = []")
    case True
    then show ?thesis using assms(1) i v by (auto simp: visit_queue_def Let_def)
  next
    case False
    obtain cs d r g b where gl: "grant_loop limit (q_candidates ?q) (q_deficit ?q + quantum ?q)
        (st_remaining st) (st_grants st) False = Inr (cs, d, r, g, b)"
      and st': "st' = st\<lparr>st_cursor := (st_cursor st + 1) mod length (st_queues st),
          st_queues := (st_queues st)[st_cursor st := ?q\<lparr>q_deficit := d, q_candidates := cs\<rparr>],
          st_remaining := r, st_grants := g, st_visited := (if b then 0 else st_visited st + 1)\<rparr>"
      using assms(1) i False by (auto simp: visit_queue_def Let_def bindE_Inr_iff)
    show ?thesis
      using grant_loop_length[OF gl] v i
        candidate_count_update[OF i, of "?q\<lparr>q_deficit := d, q_candidates := cs\<rparr>"]
      unfolding st' by auto
  qed
qed

function decide_loop :: "int \<Rightarrow> SchedState \<Rightarrow> SchedState result" where
  "decide_loop limit st =
     (if decide_guard limit st then bindE (visit_queue limit st) (decide_loop limit) else Inr st)"
  by pat_completeness auto
termination
  by (relation "measures [\<lambda>(limit, st). candidate_count (st_queues st),
                          \<lambda>(limit, st). length (st_queues st) - st_visited st]")
     (auto dest!: visit_queue_measure)

declare decide_loop.simps [simp del]

definition Decide :: "Snapshot \<Rightarrow> Decision result" where
  "Decide input =
     (if sn_worker_slots input < 0 then Inl (ErrNew ''worker slots must not be negative'')
      else if sn_batch_limit input < 0 then Inl (ErrNew ''batch limit must not be negative'')
      else if sn_algorithm input \<noteq> '''' \<and> sn_algorithm input \<noteq> AlgorithmVersion
        then Inl (ErrNew ''unsupported scheduler algorithm %q'')
      else
        let queues = cloneAndSort (sn_queues input)
        in if queues = [] \<or> sn_worker_slots input = 0 \<or> sn_batch_limit input = 0
           then Inr (buildDecision (sn_sequence input) queues 0 [])
           else
             let cursor = (if sn_cursor input < 0 then 0 else sn_cursor input)
             in bindE (decide_loop (sn_batch_limit input)
                  \<lparr>st_queues = queues, st_cursor = nat (cursor mod int (length queues)),
                   st_remaining = sn_worker_slots input, st_grants = [], st_visited = 0\<rparr>)
                (\<lambda>st. Inr (buildDecision (sn_sequence input) (st_queues st) (int (st_cursor st)) (st_grants st))))"

text \<open>The order \<^verbatim>\<open>cloneAndSort\<close> puts candidates in: lease recoveries first, then higher priority, then
  earlier readiness, then the job ID.\<close>

definition candidate_key :: "Candidate \<Rightarrow> bool \<times> int \<times> int \<times> string" where
  "candidate_key c = (\<not> ca_recovery c, - ca_priority c, ca_ready_seq c, ca_job_id c)"

definition queue_key :: "Queue \<Rightarrow> string \<times> string" where
  "queue_key q = (q_tenant q, q_name q)"

definition cost :: "Candidate list \<Rightarrow> int" where
  "cost cs = sum_list (map ca_slot_cost cs)"

definition granted_from :: "string \<times> string \<Rightarrow> Grant list \<Rightarrow> Grant list" where
  "granted_from k gs = filter (\<lambda>g. (g_tenant g, g_queue g) = k) gs"

definition consistent_queues :: "Queue list \<Rightarrow> bool" where
  "consistent_queues qs \<longleftrightarrow> distinct (map queue_key qs) \<and>
     (\<forall>q \<in> set qs. \<forall>c \<in> set (q_candidates q). (ca_tenant c, ca_queue c) = queue_key q)"

definition valid_header :: "Snapshot \<Rightarrow> bool" where
  "valid_header s \<longleftrightarrow> 0 \<le> sn_worker_slots s \<and> 0 \<le> sn_batch_limit s \<and>
     (sn_algorithm s = '''' \<or> sn_algorithm s = AlgorithmVersion)"

definition valid_costs :: "Queue list \<Rightarrow> bool" where
  "valid_costs qs \<longleftrightarrow> (\<forall>q \<in> set qs. \<forall>c \<in> set (q_candidates q). 1 \<le> ca_slot_cost c)"

section \<open>Lemmas\<close>

subsection \<open>Sorting\<close>

interpretation candidate_order: keyed_less candidate_less candidate_key
  by unfold_locales (auto simp: candidate_less_def candidate_key_def)

interpretation queue_order: keyed_less queue_less queue_key
  by unfold_locales (auto simp: queue_less_def queue_key_def)

lemma sort_candidates_simps [simp]:
  "q_tenant (sort_candidates q) = q_tenant q" "q_name (sort_candidates q) = q_name q"
  "q_weight (sort_candidates q) = q_weight q" "q_deficit (sort_candidates q) = q_deficit q"
  "q_candidates (sort_candidates q) = sort_by candidate_less (q_candidates q)"
  "queue_key (sort_candidates q) = queue_key q" "quantum (sort_candidates q) = quantum q"
  by (simp_all add: sort_candidates_def queue_key_def quantum_def)

lemma sort_candidates_idem [simp]: "sort_candidates (sort_candidates q) = sort_candidates q"
  by (rule Queue.equality) (simp_all add: candidate_order.sort_by_idem)

lemma set_cloneAndSort [simp]: "set (cloneAndSort qs) = sort_candidates ` set qs"
  by (simp add: cloneAndSort_def)

lemma cloneAndSort_Nil_iff [simp]: "cloneAndSort qs = [] \<longleftrightarrow> qs = []"
  by (metis cloneAndSort_def length_0_conv length_map length_sort_by)

lemma length_cloneAndSort [simp]: "length (cloneAndSort qs) = length qs"
  by (simp add: cloneAndSort_def)

lemma cloneAndSort_idem: "cloneAndSort (cloneAndSort qs) = cloneAndSort qs"
proof -
  have "map sort_candidates (cloneAndSort qs) = cloneAndSort qs"
    by (rule map_idI) auto
  then show ?thesis by (metis cloneAndSort_def queue_order.sort_by_idem)
qed

lemma queue_keys_cloneAndSort: "distinct (map queue_key (cloneAndSort qs)) = distinct (map queue_key qs)"
  by (simp add: cloneAndSort_def o_def)

lemma consistent_cloneAndSort: "consistent_queues qs \<Longrightarrow> consistent_queues (cloneAndSort qs)"
  by (auto simp: consistent_queues_def queue_keys_cloneAndSort)

lemma valid_costs_cloneAndSort [simp]: "valid_costs (cloneAndSort qs) = valid_costs qs"
  by (auto simp: valid_costs_def)

subsection \<open>The inner loop\<close>

lemma grant_of_simps [simp]:
  "g_job_id (grant_of c) = ca_job_id c" "g_tenant (grant_of c) = ca_tenant c"
  "g_queue (grant_of c) = ca_queue c" "g_slot_cost (grant_of c) = ca_slot_cost c"
  by (simp_all add: grant_of_def)

lemma cost_simps [simp]: "cost [] = 0" "cost (c # cs) = ca_slot_cost c + cost cs"
  by (simp_all add: cost_def)

text \<open>The inner loop grants a prefix of the candidates that the deficit, the worker's slots and the
  batch limit can pay for, and stops at the first candidate that does not fit.\<close>

lemma grant_loop_spec:
  assumes "grant_loop limit cs d r g b = Inr (cs', d', r', g', b')"
  shows "\<exists>n \<le> length cs. cs' = drop n cs \<and> g' = g @ map grant_of (take n cs) \<and>
    d' = d - cost (take n cs) \<and> r' = r - cost (take n cs) \<and> b' = (b \<or> 0 < n) \<and>
    (0 \<le> d \<longrightarrow> 0 \<le> d') \<and> (0 \<le> r \<longrightarrow> 0 \<le> r') \<and>
    (int (length g) \<le> limit \<longrightarrow> int (length g') \<le> limit) \<and>
    (\<forall>c \<in> set (take n cs). 1 \<le> ca_slot_cost c) \<and>
    (cs' = [] \<or> limit \<le> int (length g') \<or> d' < ca_slot_cost (hd cs') \<or> r' < ca_slot_cost (hd cs'))"
  using assms
proof (induction limit cs d r g b rule: grant_loop.induct)
  case (1 limit d r g b)
  then show ?case by auto
next
  case (2 limit c cs d r g b)
  show ?case
  proof (cases "int (length g) < limit \<and> 1 \<le> ca_slot_cost c \<and> ca_slot_cost c \<le> d \<and> ca_slot_cost c \<le> r")
    case True
    then have "grant_loop limit cs (d - ca_slot_cost c) (r - ca_slot_cost c) (g @ [grant_of c]) True =
        Inr (cs', d', r', g', b')"
      using "2.prems" by simp
    then obtain n where n: "n \<le> length cs" "cs' = drop n cs" "g' = (g @ [grant_of c]) @ map grant_of (take n cs)"
      "d' = d - ca_slot_cost c - cost (take n cs)" "r' = r - ca_slot_cost c - cost (take n cs)" "b'"
      "0 \<le> d - ca_slot_cost c \<longrightarrow> 0 \<le> d'" "0 \<le> r - ca_slot_cost c \<longrightarrow> 0 \<le> r'"
      "int (length (g @ [grant_of c])) \<le> limit \<longrightarrow> int (length g') \<le> limit"
      "\<forall>c \<in> set (take n cs). 1 \<le> ca_slot_cost c"
      "cs' = [] \<or> limit \<le> int (length g') \<or> d' < ca_slot_cost (hd cs') \<or> r' < ca_slot_cost (hd cs')"
      using "2.IH" True by auto
    show ?thesis
      by (rule exI[of _ "Suc n"]) (use n True in auto)
  next
    case False
    then show ?thesis
      by (intro exI[of _ 0]) (use "2.prems" in \<open>auto split: if_splits\<close>)
  qed
qed

lemma grant_loop_total:
  "\<forall>c \<in> set cs. 1 \<le> ca_slot_cost c \<Longrightarrow> \<exists>x. grant_loop limit cs d r g b = Inr x"
  by (induction limit cs d r g b rule: grant_loop.induct) auto

subsection \<open>One turn of the outer loop\<close>

lemma visit_queue_spec:
  assumes "visit_queue limit st = Inr st'"
  defines "i \<equiv> st_cursor st" and "q \<equiv> st_queues st ! st_cursor st"
  shows "i < length (st_queues st) \<and> (\<exists>n \<le> length (q_candidates q).
    st_queues st' = (st_queues st)[i := q\<lparr>q_deficit := q_deficit q + (if q_candidates q = [] then 0 else quantum q) - cost (take n (q_candidates q)),
                                      q_candidates := drop n (q_candidates q)\<rparr>] \<and>
    st_grants st' = st_grants st @ map grant_of (take n (q_candidates q)) \<and>
    st_remaining st' = st_remaining st - cost (take n (q_candidates q)) \<and>
    st_cursor st' = (i + 1) mod length (st_queues st) \<and>
    st_visited st' = (if 0 < n then 0 else st_visited st + 1) \<and>
    (0 \<le> q_deficit q \<longrightarrow> cost (take n (q_candidates q)) \<le> q_deficit q + quantum q) \<and>
    (0 \<le> st_remaining st \<longrightarrow> 0 \<le> st_remaining st') \<and>
    (int (length (st_grants st)) \<le> limit \<longrightarrow> int (length (st_grants st')) \<le> limit) \<and>
    (\<forall>c \<in> set (take n (q_candidates q)). 1 \<le> ca_slot_cost c) \<and>
    (n = 0 \<longrightarrow> q_candidates q = [] \<or> limit \<le> int (length (st_grants st)) \<or>
       q_deficit q + quantum q < ca_slot_cost (hd (q_candidates q)) \<or>
       st_remaining st < ca_slot_cost (hd (q_candidates q))))"
proof -
  have i: "i < length (st_queues st)" using assms(1) unfolding i_def by (auto simp: visit_queue_def split: if_splits)
  have qp: "0 < quantum q" by (simp add: quantum_def)
  show ?thesis
  proof (cases "q_candidates q = []")
    case True
    have "st' = st\<lparr>st_cursor := (i + 1) mod length (st_queues st), st_visited := st_visited st + 1\<rparr>"
      using assms(1) i True unfolding i_def q_def by (simp add: visit_queue_def Let_def)
    moreover have "q\<lparr>q_candidates := []\<rparr> = q" using True by (cases q) simp
    then have "(st_queues st)[i := q\<lparr>q_candidates := []\<rparr>] = st_queues st" by (simp add: q_def i_def)
    ultimately show ?thesis
      using i qp by (intro conjI exI[of _ 0]) (simp_all add: True)
  next
    case False
    obtain cs d r g b where gl: "grant_loop limit (q_candidates q) (q_deficit q + quantum q)
        (st_remaining st) (st_grants st) False = Inr (cs, d, r, g, b)"
      and st': "st' = st\<lparr>st_cursor := (i + 1) mod length (st_queues st),
          st_queues := (st_queues st)[i := q\<lparr>q_deficit := d, q_candidates := cs\<rparr>],
          st_remaining := r, st_grants := g, st_visited := (if b then 0 else st_visited st + 1)\<rparr>"
      using assms(1) i False unfolding i_def q_def by (auto simp: visit_queue_def Let_def bindE_Inr_iff)
    from grant_loop_spec[OF gl] obtain n where n: "n \<le> length (q_candidates q)" "cs = drop n (q_candidates q)"
      "g = st_grants st @ map grant_of (take n (q_candidates q))"
      "d = q_deficit q + quantum q - cost (take n (q_candidates q))"
      "r = st_remaining st - cost (take n (q_candidates q))" "b = (0 < n)"
      "0 \<le> q_deficit q + quantum q \<longrightarrow> 0 \<le> d" "0 \<le> st_remaining st \<longrightarrow> 0 \<le> r"
      "int (length (st_grants st)) \<le> limit \<longrightarrow> int (length g) \<le> limit"
      "\<forall>c \<in> set (take n (q_candidates q)). 1 \<le> ca_slot_cost c"
      "cs = [] \<or> limit \<le> int (length g) \<or> d < ca_slot_cost (hd cs) \<or> r < ca_slot_cost (hd cs)"
      by auto
    show ?thesis
      using i qp by (intro conjI exI[of _ n]) (use n False in \<open>auto simp: st'\<close>)
  qed
qed

lemma visit_queue_total:
  assumes "st_cursor st < length (st_queues st)" and "valid_costs (st_queues st)"
  shows "\<exists>st'. visit_queue limit st = Inr st'"
proof -
  let ?q = "st_queues st ! st_cursor st"
  have "\<forall>c \<in> set (q_candidates ?q). 1 \<le> ca_slot_cost c"
    using assms nth_mem unfolding valid_costs_def by blast
  then obtain x where "grant_loop limit (q_candidates ?q) (q_deficit ?q + quantum ?q)
      (st_remaining st) (st_grants st) False = Inr x"
    using grant_loop_total by blast
  then show ?thesis using assms(1) by (cases x) (simp add: visit_queue_def Let_def)
qed

subsection \<open>The outer loop\<close>

lemma decide_loop_rule:
  assumes "decide_loop limit st = Inr st'" and "P st"
    and "\<And>s s'. P s \<Longrightarrow> decide_guard limit s \<Longrightarrow> visit_queue limit s = Inr s' \<Longrightarrow> P s'"
  shows "P st' \<and> \<not> decide_guard limit st'"
  using assms
proof (induction limit st rule: decide_loop.induct)
  case (1 limit st)
  show ?case
  proof (cases "decide_guard limit st")
    case True
    then obtain s where s: "visit_queue limit st = Inr s" "decide_loop limit s = Inr st'"
      using "1.prems"(1) by (subst (asm) decide_loop.simps) (auto simp: bindE_Inr_iff)
    show ?thesis
      by (rule "1.IH"[OF True s(1) s(2) "1.prems"(3)[OF "1.prems"(2) True s(1)] "1.prems"(3)])
  next
    case False
    then show ?thesis using "1.prems" by (subst (asm) decide_loop.simps) simp
  qed
qed

text \<open>What the loop keeps, relative to the sorted queues it started from: every queue has lost a prefix
  of its candidates, exactly that prefix has been granted, and its deficit is what it had plus a whole
  number of quanta minus what the grants cost.\<close>

definition queue_progress :: "Queue list \<Rightarrow> SchedState \<Rightarrow> nat \<Rightarrow> bool" where
  "queue_progress qs st i \<longleftrightarrow>
     (let q = qs ! i; q' = st_queues st ! i;
          n = length (q_candidates q) - length (q_candidates q') in
      queue_key q' = queue_key q \<and> q_weight q' = q_weight q \<and> n \<le> length (q_candidates q) \<and>
      q_candidates q' = drop n (q_candidates q) \<and>
      granted_from (queue_key q) (st_grants st) = map grant_of (take n (q_candidates q)) \<and>
      (\<exists>k. q_deficit q' + cost (take n (q_candidates q)) = q_deficit q + int k * quantum q) \<and>
      (0 \<le> q_deficit q \<longrightarrow> 0 \<le> q_deficit q'))"

definition loop_inv :: "Queue list \<Rightarrow> int \<Rightarrow> int \<Rightarrow> SchedState \<Rightarrow> bool" where
  "loop_inv qs slots limit st \<longleftrightarrow>
     length (st_queues st) = length qs \<and> (qs \<noteq> [] \<longrightarrow> st_cursor st < length qs) \<and>
     0 \<le> st_remaining st \<and> st_remaining st + sum_list (map g_slot_cost (st_grants st)) = slots \<and>
     int (length (st_grants st)) \<le> limit \<and>
     (\<forall>g \<in> set (st_grants st). 1 \<le> g_slot_cost g \<and> (\<exists>q \<in> set qs. g \<in> grant_of ` set (q_candidates q))) \<and>
     (\<forall>i < length qs. set (q_candidates (st_queues st ! i)) \<subseteq> set (q_candidates (qs ! i)))"

lemma sum_grant_costs [simp]: "sum_list (map (g_slot_cost \<circ> grant_of) cs) = cost cs"
  by (simp add: cost_def o_def)

lemma cost_append [simp]: "cost (xs @ ys) = cost xs + cost ys"
  by (simp add: cost_def)

lemma loop_inv_visit:
  assumes inv: "loop_inv qs slots limit st" and v: "visit_queue limit st = Inr st'"
  shows "loop_inv qs slots limit st'"
proof -
  let ?i = "st_cursor st" let ?q = "st_queues st ! ?i"
  obtain n where n: "?i < length (st_queues st)"
    "st_queues st' = (st_queues st)[?i := ?q\<lparr>q_deficit := q_deficit ?q + (if q_candidates ?q = [] then 0 else quantum ?q)
        - cost (take n (q_candidates ?q)), q_candidates := drop n (q_candidates ?q)\<rparr>]"
    "st_grants st' = st_grants st @ map grant_of (take n (q_candidates ?q))"
    "st_remaining st' = st_remaining st - cost (take n (q_candidates ?q))"
    "st_cursor st' = (?i + 1) mod length (st_queues st)"
    "0 \<le> st_remaining st \<longrightarrow> 0 \<le> st_remaining st'"
    "int (length (st_grants st)) \<le> limit \<longrightarrow> int (length (st_grants st')) \<le> limit"
    "\<forall>c \<in> set (take n (q_candidates ?q)). 1 \<le> ca_slot_cost c"
    using visit_queue_spec[OF v] by blast
  have sub: "set (q_candidates ?q) \<subseteq> set (q_candidates (qs ! ?i))" and i: "?i < length qs"
    using inv n(1) by (auto simp: loop_inv_def)
  have new: "\<exists>q \<in> set qs. grant_of c \<in> grant_of ` set (q_candidates q)" if "c \<in> set (take n (q_candidates ?q))" for c
    using that sub i nth_mem[OF i] by (meson image_eqI in_set_takeD subsetD)
  have drop: "set (drop n (q_candidates ?q)) \<subseteq> set (q_candidates (qs ! ?i))"
    using sub set_drop_subset by fastforce
  have "1 \<le> g_slot_cost g \<and> (\<exists>q \<in> set qs. g \<in> grant_of ` set (q_candidates q))" if "g \<in> set (st_grants st')" for g
    using that inv n(8) new unfolding n(3) loop_inv_def by auto
  moreover have "set (q_candidates (st_queues st' ! j)) \<subseteq> set (q_candidates (qs ! j))" if "j < length qs" for j
    using inv that drop n(1) unfolding n(2) loop_inv_def by (cases "j = ?i") auto
  moreover have "st_remaining st' + sum_list (map g_slot_cost (st_grants st')) = slots"
    using inv by (simp add: loop_inv_def n(3,4))
  moreover have "length (st_queues st') = length qs" "st_cursor st' < length qs"
    using inv mod_less_divisor[OF order.strict_trans1[OF le0 i], of "?i + 1"] by (auto simp: loop_inv_def n(2,5) simp del: mod_less_divisor)
  ultimately show ?thesis
    using inv n(6,7) unfolding loop_inv_def by blast
qed

lemma granted_from_append [simp]: "granted_from k (xs @ ys) = granted_from k xs @ granted_from k ys"
  by (simp add: granted_from_def)

lemma granted_from_same:
  "\<forall>c \<in> set cs. (ca_tenant c, ca_queue c) = k \<Longrightarrow> granted_from k (map grant_of cs) = map grant_of cs"
  by (simp add: granted_from_def)

lemma granted_from_other:
  "\<forall>c \<in> set cs. (ca_tenant c, ca_queue c) \<noteq> k \<Longrightarrow> granted_from k (map grant_of cs) = []"
  by (auto simp: granted_from_def filter_empty_conv)

lemma queue_progress_visited:
  assumes p: "queue_progress qs st i" and i: "i = st_cursor st" "i < length (st_queues st)"
    and cons: "\<forall>c \<in> set (q_candidates (qs ! i)). (ca_tenant c, ca_queue c) = queue_key (qs ! i)"
    and v: "visit_queue limit st = Inr st'"
  shows "queue_progress qs st' i"
proof -
  let ?q = "qs ! i" let ?q' = "st_queues st ! i"
  define m where "m = length (q_candidates ?q) - length (q_candidates ?q')"
  obtain n where n: "n \<le> length (q_candidates ?q')"
    "st_queues st' = (st_queues st)[i := ?q'\<lparr>q_deficit := q_deficit ?q' + (if q_candidates ?q' = [] then 0 else quantum ?q')
        - cost (take n (q_candidates ?q')), q_candidates := drop n (q_candidates ?q')\<rparr>]"
    "st_grants st' = st_grants st @ map grant_of (take n (q_candidates ?q'))"
    "0 \<le> q_deficit ?q' \<longrightarrow> cost (take n (q_candidates ?q')) \<le> q_deficit ?q' + quantum ?q'"
    using visit_queue_spec[OF v] unfolding i(1) by blast
  obtain k where p': "queue_key ?q' = queue_key ?q" "q_weight ?q' = q_weight ?q" "m \<le> length (q_candidates ?q)"
    "q_candidates ?q' = drop m (q_candidates ?q)"
    "granted_from (queue_key ?q) (st_grants st) = map grant_of (take m (q_candidates ?q))"
    "q_deficit ?q' + cost (take m (q_candidates ?q)) = q_deficit ?q + int k * quantum ?q"
    "0 \<le> q_deficit ?q \<longrightarrow> 0 \<le> q_deficit ?q'"
    using p unfolding queue_progress_def Let_def m_def by blast
  let ?q1 = "st_queues st' ! i"
  have q1: "?q1 = ?q'\<lparr>q_deficit := q_deficit ?q' + (if q_candidates ?q' = [] then 0 else quantum ?q')
        - cost (take n (q_candidates ?q')), q_candidates := drop n (q_candidates ?q')\<rparr>"
    using i(2) by (simp add: n(2))
  have quant: "quantum ?q' = quantum ?q" by (simp add: quantum_def p'(2))
  have take_split: "take (m + n) (q_candidates ?q) = take m (q_candidates ?q) @ take n (q_candidates ?q')"
    by (simp add: p'(4) take_add)
  have len: "length (q_candidates ?q) - length (q_candidates ?q1) = m + n"
    using n(1) p'(3,4) by (simp add: q1)
  have g: "granted_from (queue_key ?q) (st_grants st') = map grant_of (take (m + n) (q_candidates ?q))"
    using cons unfolding n(3) take_split
    by (simp add: p'(4,5)) (rule granted_from_same, auto dest!: in_set_takeD in_set_dropD)
  have d: "q_deficit ?q1 + cost (take (m + n) (q_candidates ?q)) =
      q_deficit ?q + int (if q_candidates ?q' = [] then k else Suc k) * quantum ?q"
    using p'(6) unfolding q1 take_split by (simp add: quant distrib_right)
  have "0 \<le> q_deficit ?q1" if "0 \<le> q_deficit ?q"
    using that p'(7) n(4) by (auto simp: q1)
  then show ?thesis
    using d g p'(1,2,3,4) n(1) unfolding queue_progress_def Let_def len
    by (auto simp: q1 queue_key_def add.commute)
qed

lemma queue_progress_other:
  assumes p: "queue_progress qs st j" and ij: "j \<noteq> st_cursor st"
    and cons: "\<forall>c \<in> set (q_candidates (st_queues st ! st_cursor st)). (ca_tenant c, ca_queue c) \<noteq> queue_key (qs ! j)"
    and v: "visit_queue limit st = Inr st'"
  shows "queue_progress qs st' j"
proof -
  let ?cs = "q_candidates (st_queues st ! st_cursor st)"
  obtain n q where n: "st_queues st' = (st_queues st)[st_cursor st := q]"
    "st_grants st' = st_grants st @ map grant_of (take n ?cs)"
    using visit_queue_spec[OF v] by blast
  have "granted_from (queue_key (qs ! j)) (map grant_of (take n ?cs)) = []"
    using cons by (intro granted_from_other) (auto dest: in_set_takeD)
  then show ?thesis using p ij by (simp add: queue_progress_def Let_def n)
qed

definition progress_inv :: "Queue list \<Rightarrow> SchedState \<Rightarrow> bool" where
  "progress_inv qs st \<longleftrightarrow> (\<forall>i < length qs. queue_progress qs st i)"

lemma progress_inv_visit:
  assumes cons: "consistent_queues qs" and linv: "loop_inv qs slots limit st"
    and inv: "progress_inv qs st" and v: "visit_queue limit st = Inr st'"
  shows "progress_inv qs st'"
  unfolding progress_inv_def
proof (intro allI impI)
  fix j assume j: "j < length qs"
  let ?i = "st_cursor st"
  have i: "?i < length qs" "?i < length (st_queues st)"
    using linv visit_queue_spec[OF v] by (auto simp: loop_inv_def)
  have tagged: "(ca_tenant c, ca_queue c) = queue_key (qs ! k)" if "k < length qs" "c \<in> set (q_candidates (qs ! k))" for k c
    using cons that nth_mem unfolding consistent_queues_def by blast
  show "queue_progress qs st' j"
  proof (cases "j = ?i")
    case True
    then show ?thesis using queue_progress_visited[OF _ _ _ _ v, of qs j] inv i j tagged by (auto simp: progress_inv_def)
  next
    case False
    have "queue_key (qs ! ?i) \<noteq> queue_key (qs ! j)"
      using cons False i(1) j by (metis consistent_queues_def length_map nth_eq_iff_index_eq nth_map)
    moreover have "set (q_candidates (st_queues st ! ?i)) \<subseteq> set (q_candidates (qs ! ?i))"
      using linv i by (auto simp: loop_inv_def)
    ultimately have "\<forall>c \<in> set (q_candidates (st_queues st ! ?i)). (ca_tenant c, ca_queue c) \<noteq> queue_key (qs ! j)"
      using tagged[OF i(1)] by fastforce
    then show ?thesis using queue_progress_other[OF _ False _ v] inv j by (auto simp: progress_inv_def)
  qed
qed

definition initial_state :: "Snapshot \<Rightarrow> SchedState" where
  "initial_state s =
     \<lparr>st_queues = cloneAndSort (sn_queues s),
      st_cursor = nat (max 0 (sn_cursor s) mod int (length (sn_queues s))),
      st_remaining = sn_worker_slots s, st_grants = [], st_visited = 0\<rparr>"

lemma initial_state_simps [simp]:
  "st_queues (initial_state s) = cloneAndSort (sn_queues s)" "st_remaining (initial_state s) = sn_worker_slots s"
  "st_grants (initial_state s) = []" "st_visited (initial_state s) = 0"
  by (simp_all add: initial_state_def)

lemma initial_cursor: "sn_queues s \<noteq> [] \<Longrightarrow> st_cursor (initial_state s) < length (sn_queues s)"
  by (simp add: initial_state_def nat_less_iff)

definition idle :: "Snapshot \<Rightarrow> bool" where
  "idle s \<longleftrightarrow> sn_queues s = [] \<or> sn_worker_slots s = 0 \<or> sn_batch_limit s = 0"

lemma Decide_eq:
  assumes "valid_header s"
  shows "Decide s = bindE (decide_loop (sn_batch_limit s) (initial_state s))
    (\<lambda>st. Inr (buildDecision (sn_sequence s) (st_queues st) (if idle s then 0 else int (st_cursor st)) (st_grants st)))"
proof (cases "idle s")
  case True
  then have "\<not> decide_guard (sn_batch_limit s) (initial_state s)"
    by (auto simp: idle_def decide_guard_def)
  then have "decide_loop (sn_batch_limit s) (initial_state s) = Inr (initial_state s)"
    by (simp add: decide_loop.simps)
  then show ?thesis using True assms by (auto simp: Decide_def valid_header_def idle_def Let_def)
next
  case False
  moreover have "(if sn_cursor s < 0 then 0 else sn_cursor s) = max 0 (sn_cursor s)" by auto
  ultimately show ?thesis using assms
    by (auto simp: Decide_def valid_header_def idle_def Let_def initial_state_def max_def)
qed

lemma Decide_valid_header: "Decide s = Inr d \<Longrightarrow> valid_header s"
  by (auto simp: Decide_def valid_header_def split: if_splits)

lemma Decide_Inr_iff:
  "Decide s = Inr d \<longleftrightarrow> valid_header s \<and> (\<exists>st. decide_loop (sn_batch_limit s) (initial_state s) = Inr st \<and>
     d = buildDecision (sn_sequence s) (st_queues st) (if idle s then 0 else int (st_cursor st)) (st_grants st))"
proof (cases "valid_header s")
  case True
  then show ?thesis unfolding Decide_eq[OF True] bindE_Inr_iff by blast
next
  case False
  then show ?thesis using Decide_valid_header by blast
qed

lemma buildDecision_simps [simp]:
  "de_sequence (buildDecision n qs c gs) = n" "de_grants (buildDecision n qs c gs) = gs"
  by (simp_all add: buildDecision_def)

lemma loop_inv_initial:
  "valid_header s \<Longrightarrow> loop_inv (cloneAndSort (sn_queues s)) (sn_worker_slots s) (sn_batch_limit s) (initial_state s)"
  using initial_cursor[of s] by (auto simp: loop_inv_def valid_header_def)

lemma progress_inv_initial: "progress_inv (cloneAndSort (sn_queues s)) (initial_state s)"
  by (auto simp: progress_inv_def queue_progress_def granted_from_def intro: exI[of _ 0])

lemma Decide_loop_inv:
  assumes "Decide s = Inr d"
  obtains st where "loop_inv (cloneAndSort (sn_queues s)) (sn_worker_slots s) (sn_batch_limit s) st"
    "\<not> decide_guard (sn_batch_limit s) st" "de_grants d = st_grants st"
    "de_queues d = map (\<lambda>q. \<lparr>qs_tenant = q_tenant q, qs_queue = q_name q, qs_deficit = q_deficit q\<rparr>) (st_queues st)"
    "consistent_queues (sn_queues s) \<Longrightarrow> progress_inv (cloneAndSort (sn_queues s)) st"
proof -
  let ?Q = "cloneAndSort (sn_queues s)"
  obtain st where st: "decide_loop (sn_batch_limit s) (initial_state s) = Inr st"
    "d = buildDecision (sn_sequence s) (st_queues st) (if idle s then 0 else int (st_cursor st)) (st_grants st)"
    using assms by (auto simp: Decide_Inr_iff)
  define P where "P x = (loop_inv ?Q (sn_worker_slots s) (sn_batch_limit s) x \<and>
    (consistent_queues (sn_queues s) \<longrightarrow> progress_inv ?Q x))" for x
  have "P st \<and> \<not> decide_guard (sn_batch_limit s) st"
  proof (rule decide_loop_rule[OF st(1)])
    show "P (initial_state s)"
      using loop_inv_initial progress_inv_initial Decide_valid_header[OF assms] by (simp add: P_def)
    show "P x'" if "P x" "visit_queue (sn_batch_limit s) x = Inr x'" for x x'
      using that loop_inv_visit progress_inv_visit consistent_cloneAndSort unfolding P_def by blast
  qed
  then show thesis using that st(2) by (auto simp: P_def buildDecision_def)
qed

lemma loop_inv_valid_costs:
  assumes "loop_inv qs slots limit st" and "valid_costs qs"
  shows "valid_costs (st_queues st)"
  unfolding valid_costs_def
proof (intro ballI)
  fix q c assume "q \<in> set (st_queues st)" and c: "c \<in> set (q_candidates q)"
  then obtain i where i: "i < length qs" "q = st_queues st ! i"
    using assms(1) by (auto simp: in_set_conv_nth loop_inv_def)
  then have "c \<in> set (q_candidates (qs ! i))" using assms(1) c unfolding loop_inv_def by blast
  then show "1 \<le> ca_slot_cost c" using assms(2) nth_mem[OF i(1)] unfolding valid_costs_def by blast
qed

lemma decide_loop_total:
  "loop_inv qs slots limit st \<Longrightarrow> valid_costs qs \<Longrightarrow> \<exists>st'. decide_loop limit st = Inr st'"
proof (induction limit st rule: decide_loop.induct)
  case (1 limit st)
  show ?case
  proof (cases "decide_guard limit st")
    case True
    have "valid_costs (st_queues st)"
      by (rule loop_inv_valid_costs[OF "1.prems"])
    moreover have "st_cursor st < length (st_queues st)"
      using True "1.prems"(1) by (auto simp: decide_guard_def loop_inv_def)
    ultimately obtain s where s: "visit_queue limit st = Inr s" using visit_queue_total by blast
    then show ?thesis
      using "1.IH"[OF True s] loop_inv_visit[OF "1.prems"(1) s] "1.prems"(2) True
      by (auto simp: decide_loop.simps[of limit st])
  qed (simp add: decide_loop.simps)
qed

lemma grant_loop_error:
  "grant_loop limit cs d r g b = Inl e \<Longrightarrow>
   e = ErrNew ''job %s has invalid slot cost %d'' \<and> (\<exists>c \<in> set cs. ca_slot_cost c < 1)"
  by (induction limit cs d r g b rule: grant_loop.induct) (auto split: if_splits)

lemma decide_loop_error:
  "decide_loop limit st = Inl e \<Longrightarrow> loop_inv qs slots limit st \<Longrightarrow>
   e = ErrNew ''job %s has invalid slot cost %d'' \<and> \<not> valid_costs qs"
proof (induction limit st rule: decide_loop.induct)
  case (1 limit st)
  have guard: "decide_guard limit st" using "1.prems"(1) by (auto simp: decide_loop.simps[of limit st] split: if_splits)
  have i: "st_cursor st < length (st_queues st)"
    using guard "1.prems"(2) by (auto simp: decide_guard_def loop_inv_def)
  show ?case
  proof (cases "visit_queue limit st")
    case (Inl e')
    then have "e' = e" using "1.prems"(1) guard by (simp add: decide_loop.simps[of limit st])
    then have "e = ErrNew ''job %s has invalid slot cost %d''"
      using Inl i by (auto simp: visit_queue_def Let_def bindE_Inl_iff split: if_splits dest: grant_loop_error)
    moreover have "\<not> valid_costs (st_queues st)" using visit_queue_total[OF i, of limit] Inl by auto
    ultimately show ?thesis using loop_inv_valid_costs[OF "1.prems"(2)] by blast
  next
    case (Inr s)
    then show ?thesis
      using "1.IH"[OF guard Inr _ loop_inv_visit[OF "1.prems"(2) Inr]] "1.prems"(1) guard
      by (simp add: decide_loop.simps[of limit st])
  qed
qed

subsection \<open>A turn that grants nothing\<close>

definition blocked :: "int \<Rightarrow> Queue \<Rightarrow> bool" where
  "blocked slots q \<longleftrightarrow> q_candidates q = [] \<or> q_deficit q + quantum q < ca_slot_cost (hd (q_candidates q)) \<or>
     slots < ca_slot_cost (hd (q_candidates q))"

text \<open>As long as nothing was granted, the queues passed by the cursor were all blocked and the others are
  untouched.\<close>

definition idle_inv :: "Queue list \<Rightarrow> int \<Rightarrow> nat \<Rightarrow> SchedState \<Rightarrow> bool" where
  "idle_inv qs slots c0 st \<longleftrightarrow> (st_grants st = [] \<longrightarrow>
     st_remaining st = slots \<and> length (st_queues st) = length qs \<and>
     st_cursor st = (c0 + st_visited st) mod length qs \<and> st_visited st \<le> length qs \<and>
     (\<forall>j < st_visited st. blocked slots (qs ! ((c0 + j) mod length qs))) \<and>
     (\<forall>j. st_visited st \<le> j \<and> j < length qs \<longrightarrow>
        st_queues st ! ((c0 + j) mod length qs) = qs ! ((c0 + j) mod length qs)))"

lemma rotation_inj_le:
  fixes c0 j k n :: nat
  assumes "(c0 + k) mod n = (c0 + j) mod n" "j \<le> k" "k < n"
  shows "j = k"
proof -
  have "n dvd k - j" using assms mod_eq_dvd_iff_nat[of "c0 + j" "c0 + k" n] by simp
  then show ?thesis using assms(2,3) nat_dvd_not_less[of "k - j" n] by linarith
qed

lemma rotation_inj:
  fixes c0 j k n :: nat
  assumes "(c0 + j) mod n = (c0 + k) mod n" "j < n" "k < n"
  shows "j = k"
  using rotation_inj_le[of c0 k n j] rotation_inj_le[of c0 j n k] assms by (cases "j \<le> k") auto

lemma rotation_onto:
  fixes c0 i n :: nat
  assumes "i < n"
  shows "\<exists>j < n. (c0 + j) mod n = i"
proof -
  let ?j = "(i + (n - c0 mod n)) mod n"
  have "(c0 + ?j) mod n = (c0 mod n + (i + (n - c0 mod n))) mod n"
    by (simp only: mod_add_right_eq mod_add_left_eq)
  also have "c0 mod n + (i + (n - c0 mod n)) = i + n" using assms mod_less_divisor[of n c0] by linarith
  finally show ?thesis using assms by (intro exI[of _ ?j]) auto
qed

lemma idle_inv_visit:
  assumes inv: "idle_inv qs slots c0 st" and guard: "decide_guard limit st" and v: "visit_queue limit st = Inr st'"
  shows "idle_inv qs slots c0 st'"
  unfolding idle_inv_def
proof (rule impI)
  assume empty: "st_grants st' = []"
  let ?i = "st_cursor st" let ?q = "st_queues st ! ?i" let ?n = "length qs" let ?at = "\<lambda>j. (c0 + j) mod ?n"
  obtain n q' where n: "n \<le> length (q_candidates ?q)" "st_queues st' = (st_queues st)[?i := q']"
    "st_grants st' = st_grants st @ map grant_of (take n (q_candidates ?q))"
    "st_remaining st' = st_remaining st - cost (take n (q_candidates ?q))"
    "st_cursor st' = (?i + 1) mod length (st_queues st)" "st_visited st' = (if 0 < n then 0 else st_visited st + 1)"
    "n = 0 \<longrightarrow> q_candidates ?q = [] \<or> limit \<le> int (length (st_grants st)) \<or>
       q_deficit ?q + quantum ?q < ca_slot_cost (hd (q_candidates ?q)) \<or> st_remaining st < ca_slot_cost (hd (q_candidates ?q))"
    using visit_queue_spec[OF v] by blast
  have "st_grants st = []" and n0: "n = 0" using empty n(1,3) by auto
  then have st: "st_remaining st = slots" "length (st_queues st) = ?n" "?i = ?at (st_visited st)" "st_visited st < ?n"
    "\<forall>j < st_visited st. blocked slots (qs ! ?at j)"
    "\<forall>j. st_visited st \<le> j \<and> j < ?n \<longrightarrow> st_queues st ! ?at j = qs ! ?at j"
    using inv guard by (auto simp: idle_inv_def decide_guard_def)
  have "blocked slots ?q" using n(7) n0 guard st(1) by (auto simp: blocked_def decide_guard_def)
  then have b: "blocked slots (qs ! ?at (st_visited st))" using st(3,4,6) by simp
  have "\<forall>j < st_visited st'. blocked slots (qs ! ?at j)"
    using st(5) b by (auto simp: n(6) n0 less_Suc_eq)
  moreover have "st_queues st' ! ?at j = qs ! ?at j" if "st_visited st' \<le> j" "j < ?n" for j
  proof -
    have "?at j \<noteq> ?i" using rotation_inj[of c0 j ?n "st_visited st"] that st(3,4) by (auto simp: n(6) n0)
    then show ?thesis using that st(6) by (simp add: n(2,6) n0)
  qed
  ultimately show "st_remaining st' = slots \<and> length (st_queues st') = ?n \<and> st_cursor st' = ?at (st_visited st') \<and>
      st_visited st' \<le> ?n \<and> (\<forall>j < st_visited st'. blocked slots (qs ! ?at j)) \<and>
      (\<forall>j. st_visited st' \<le> j \<and> j < ?n \<longrightarrow> st_queues st' ! ?at j = qs ! ?at j)"
    using st by (simp add: n n0 mod_Suc_eq)
qed

subsection \<open>Independence of the order of collection\<close>

definition queue_content :: "Queue \<Rightarrow> Queue \<times> Candidate multiset" where
  "queue_content q = (q\<lparr>q_candidates := []\<rparr>, mset (q_candidates q))"

definition same_queues :: "Queue list \<Rightarrow> Queue list \<Rightarrow> bool" where
  "same_queues qs qs' \<longleftrightarrow> mset (map queue_content qs) = mset (map queue_content qs')"

definition distinct_jobs :: "Queue list \<Rightarrow> bool" where
  "distinct_jobs qs \<longleftrightarrow> (\<forall>q \<in> set qs. distinct (map ca_job_id (q_candidates q)))"

lemma sort_candidates_content:
  assumes "queue_content q = queue_content q'" and "distinct (map ca_job_id (q_candidates q))"
  shows "sort_candidates q = sort_candidates q'"
proof -
  have m: "mset (q_candidates q) = mset (q_candidates q')" and e: "q\<lparr>q_candidates := []\<rparr> = q'\<lparr>q_candidates := []\<rparr>"
    using assms(1) by (auto simp: queue_content_def)
  have "inj_on candidate_key (set (q_candidates q))"
    using assms(2) by (auto simp: distinct_map inj_on_def candidate_key_def)
  then have "sort_by candidate_less (q_candidates q) = sort_by candidate_less (q_candidates q')"
    using candidate_order.sort_by_permutation[OF m] by blast
  moreover have "q_tenant q = q_tenant q'" "q_name q = q_name q'" "q_weight q = q_weight q'" "q_deficit q = q_deficit q'"
    using arg_cong[OF e, of q_tenant] arg_cong[OF e, of q_name] arg_cong[OF e, of q_weight] arg_cong[OF e, of q_deficit]
    by simp_all
  ultimately show ?thesis by (intro Queue.equality) simp_all
qed

lemma cloneAndSort_same_queues:
  assumes same: "same_queues qs qs'" and keys: "distinct (map queue_key qs)" and jobs: "distinct_jobs qs"
  shows "cloneAndSort qs = cloneAndSort qs'"
proof -
  define pick where "pick x = sort_candidates (SOME q. q \<in> set qs \<and> queue_content q = x)" for x
  have pick: "sort_candidates q = pick (queue_content q)" if "queue_content q \<in> queue_content ` set qs" for q
  proof -
    let ?p = "SOME p. p \<in> set qs \<and> queue_content p = queue_content q"
    have "\<exists>p. p \<in> set qs \<and> queue_content p = queue_content q" using that by (metis imageE)
    then have p: "?p \<in> set qs \<and> queue_content ?p = queue_content q" by (rule someI_ex)
    then have "sort_candidates ?p = sort_candidates q"
      using jobs by (intro sort_candidates_content) (auto simp: distinct_jobs_def)
    then show ?thesis by (simp add: pick_def)
  qed
  have "queue_content ` set qs' = queue_content ` set qs"
    using mset_eq_setD[OF same[unfolded same_queues_def]] by simp
  then have "map sort_candidates qs = map pick (map queue_content qs)"
    "map sort_candidates qs' = map pick (map queue_content qs')"
    using pick by auto
  then have "mset (map sort_candidates qs) = mset (map sort_candidates qs')"
    using same unfolding same_queues_def by (metis mset_map)
  moreover have "inj_on queue_key (set (map sort_candidates qs))"
    using keys by (auto simp: distinct_map inj_on_def)
  ultimately show ?thesis unfolding cloneAndSort_def by (rule queue_order.sort_by_permutation)
qed

lemma Decide_cloneAndSort:
  assumes "cloneAndSort qs = cloneAndSort (sn_queues s)"
  shows "Decide (s\<lparr>sn_queues := qs\<rparr>) = Decide s"
  using assms by (simp add: Decide_def Let_def)

lemma decide_loop_idle:
  assumes st: "decide_loop (sn_batch_limit s) (initial_state s) = Inr st"
    and pos: "0 < sn_worker_slots s" "0 < sn_batch_limit s"
    and none: "st_grants st = []" and q: "q \<in> set (sn_queues s)"
  shows "blocked (sn_worker_slots s) (sort_candidates q)"
proof -
  let ?Q = "cloneAndSort (sn_queues s)" let ?c0 = "st_cursor (initial_state s)" let ?n = "length (sn_queues s)"
  have c0: "?c0 < ?n" using initial_cursor[of s] q by force
  have "idle_inv ?Q (sn_worker_slots s) ?c0 st \<and> \<not> decide_guard (sn_batch_limit s) st"
    by (rule decide_loop_rule[OF st _ idle_inv_visit]) (use c0 in \<open>auto simp: idle_inv_def\<close>)
  then have all: "\<forall>j < ?n. blocked (sn_worker_slots s) (?Q ! ((?c0 + j) mod ?n))"
    using pos none by (auto simp: idle_inv_def decide_guard_def)
  have "sort_candidates q \<in> set ?Q" using q by simp
  then obtain i where i: "i < length ?Q" "?Q ! i = sort_candidates q" unfolding in_set_conv_nth by blast
  then obtain j where "j < ?n" "(?c0 + j) mod ?n = i" using rotation_onto[of i ?n ?c0] by auto
  then show ?thesis using all i(2) by auto
qed

section \<open>Properties\<close>

text \<open>A snapshot with two tenants, used to exhibit instances of the properties.\<close>

definition sample_candidate :: "string \<Rightarrow> string \<Rightarrow> int \<Rightarrow> int \<Rightarrow> int \<Rightarrow> Candidate" where
  "sample_candidate job tenant prio seq slots =
     \<lparr>ca_job_id = job, ca_tenant = tenant, ca_queue = ''q'', ca_priority = prio, ca_ready_seq = seq,
      ca_slot_cost = slots, ca_recovery = False\<rparr>"

definition sample_queues :: "Queue list" where
  "sample_queues =
     [\<lparr>q_tenant = ''t2'', q_name = ''q'', q_weight = 1, q_deficit = 0,
       q_candidates = [sample_candidate ''c'' ''t2'' 1 3 1, sample_candidate ''d'' ''t2'' 5 4 1]\<rparr>,
      \<lparr>q_tenant = ''t1'', q_name = ''q'', q_weight = 2, q_deficit = 1,
       q_candidates = [sample_candidate ''a'' ''t1'' 1 2 2, sample_candidate ''b'' ''t1'' 1 1 1]\<rparr>]"

definition sample_snapshot :: Snapshot where
  "sample_snapshot =
     \<lparr>sn_sequence = 7, sn_logical_time_ns = 0, sn_worker_slots = 4, sn_batch_limit = 3, sn_cursor = 1,
      sn_queues = sample_queues, sn_config_hash = '''', sn_algorithm = AlgorithmVersion\<rparr>"

definition sample_decision :: Decision where
  "sample_decision =
     \<lparr>de_sequence = 7,
      de_grants = [\<lparr>g_job_id = ''d'', g_tenant = ''t2'', g_queue = ''q'', g_slot_cost = 1\<rparr>,
                   \<lparr>g_job_id = ''b'', g_tenant = ''t1'', g_queue = ''q'', g_slot_cost = 1\<rparr>,
                   \<lparr>g_job_id = ''a'', g_tenant = ''t1'', g_queue = ''q'', g_slot_cost = 2\<rparr>],
      de_queues = [\<lparr>qs_tenant = ''t1'', qs_queue = ''q'', qs_deficit = 0\<rparr>,
                   \<lparr>qs_tenant = ''t2'', qs_queue = ''q'', qs_deficit = 0\<rparr>],
      de_next_cursor = 1\<rparr>"

lemma Decide_sample: "Decide sample_snapshot = Inr sample_decision"
  by code_simp

lemma sample_well_formed:
  "valid_header sample_snapshot" "consistent_queues sample_queues" "valid_costs sample_queues"
  "distinct (map queue_key sample_queues)" "distinct_jobs sample_queues"
  "same_queues sample_queues (rev (map (\<lambda>q. q\<lparr>q_candidates := rev (q_candidates q)\<rparr>) sample_queues))"
  by (simp_all add: valid_header_def sample_snapshot_def consistent_queues_def sample_queues_def queue_key_def
      sample_candidate_def valid_costs_def distinct_jobs_def same_queues_def queue_content_def add_mset_commute)



text \<open>C13: within a queue the decision grants exactly a prefix of the candidates in scheduling order (recoveries
  first, then priority, readiness and job ID), and the new deficit of the queue is its old deficit plus a whole
  number of quanta minus the granted cost, never negative if it was not.\<close>

theorem Decide_queue_order:
  assumes "Decide s = Inr d" and "consistent_queues (sn_queues s)" and "q \<in> set (sn_queues s)"
  defines "cs \<equiv> sort_key candidate_key (q_candidates q)"
  shows "\<exists>n k new.
    granted_from (queue_key q) (de_grants d) = map grant_of (take n cs) \<and>
    \<lparr>qs_tenant = q_tenant q, qs_queue = q_name q, qs_deficit = new\<rparr> \<in> set (de_queues d) \<and>
    new + cost (take n cs) = q_deficit q + int k * quantum q \<and> (0 \<le> q_deficit q \<longrightarrow> 0 \<le> new)"
proof -
  let ?Q = "cloneAndSort (sn_queues s)"
  obtain st where st: "loop_inv ?Q (sn_worker_slots s) (sn_batch_limit s) st" "de_grants d = st_grants st"
    "de_queues d = map (\<lambda>q. \<lparr>qs_tenant = q_tenant q, qs_queue = q_name q, qs_deficit = q_deficit q\<rparr>) (st_queues st)"
    "progress_inv ?Q st"
    using Decide_loop_inv[OF assms(1)] assms(2) by metis
  have "sort_candidates q \<in> set ?Q" using assms(3) by simp
  then obtain i where i: "i < length ?Q" "?Q ! i = sort_candidates q" unfolding in_set_conv_nth by blast
  let ?q' = "st_queues st ! i"
  define n where "n = length cs - length (q_candidates ?q')"
  have cs: "sort_by candidate_less (q_candidates q) = cs"
    by (simp add: cs_def candidate_order.sort_by_eq_sort_key)
  have "queue_progress ?Q st i" using st(4) i(1) by (simp add: progress_inv_def)
  then obtain k where k: "queue_key ?q' = queue_key q"
    "granted_from (queue_key q) (st_grants st) = map grant_of (take n cs)"
    "q_deficit ?q' + cost (take n cs) = q_deficit q + int k * quantum q" "0 \<le> q_deficit q \<longrightarrow> 0 \<le> q_deficit ?q'"
    unfolding queue_progress_def Let_def i(2) n_def by (auto simp: cs)
  have "?q' \<in> set (st_queues st)" using st(1) i(1) by (auto simp: loop_inv_def)
  then have "\<lparr>qs_tenant = q_tenant q, qs_queue = q_name q, qs_deficit = q_deficit ?q'\<rparr> \<in> set (de_queues d)"
    using k(1) unfolding st(3) by (auto simp: queue_key_def image_iff intro!: bexI[of _ ?q'])
  then show ?thesis using k(2,3,4) st(2) by metis
qed

theorem Decide_queue_order_witness:
  "\<exists>n k new. granted_from (''t2'', ''q'') (de_grants sample_decision) =
      map grant_of (take n (sort_key candidate_key (q_candidates (sample_queues ! 0)))) \<and>
    \<lparr>qs_tenant = ''t2'', qs_queue = ''q'', qs_deficit = new\<rparr> \<in> set (de_queues sample_decision) \<and>
    new + cost (take n (sort_key candidate_key (q_candidates (sample_queues ! 0)))) = int k \<and> 0 \<le> new"
  using Decide_queue_order[OF Decide_sample, of "sample_queues ! 0"] sample_well_formed(2)
  by (simp add: sample_snapshot_def sample_queues_def queue_key_def quantum_def)

text \<open>C14: the decision does not depend on the order in which the queues and their candidates were collected (the
  store collects the queues by iterating over a Go map, whose order is random).\<close>

theorem Decide_order_independent:
  assumes "same_queues (sn_queues s) qs'" and "distinct (map queue_key (sn_queues s))"
    and "distinct_jobs (sn_queues s)"
  shows "Decide (s\<lparr>sn_queues := qs'\<rparr>) = Decide s"
  using cloneAndSort_same_queues[OF assms] by (intro Decide_cloneAndSort) simp

theorem Decide_order_independent_witness:
  "Decide (sample_snapshot\<lparr>sn_queues := rev (map (\<lambda>q. q\<lparr>q_candidates := rev (q_candidates q)\<rparr>) sample_queues)\<rparr>)
   = Inr sample_decision"
  using Decide_order_independent[of sample_snapshot] sample_well_formed(4,5,6) Decide_sample
  by (simp add: sample_snapshot_def)





end
