(* ===== verification/Go_Json.thy ===== *)
theory Go_Json
  imports Go_Sha256
begin

text \<open>
  What the program uses of \<^verbatim>\<open>encoding/json\<close> to produce the bytes it hashes: \<^verbatim>\<open>json.Marshal\<close>
  on objects with integer, boolean, string, array and object fields. Strings are byte sequences;
  like Go's encoder, \<open>json_string\<close> escapes quotes, backslashes, control characters and the HTML
  characters, the line separators U+2028 and U+2029, and replaces every byte that does not start a
  valid UTF-8 sequence by the escape of U+FFFD.
\<close>

section \<open>Definitions\<close>

datatype json =
    JNull
  | JBool bool
  | JInt int
  | JStr string
  | JArr "json list"
  | JObj "(string \<times> json) list"

subsection \<open>Numbers\<close>

definition digit :: "nat \<Rightarrow> char" where
  "digit n = ''0123456789'' ! n"

fun decimal :: "nat \<Rightarrow> string" where
  "decimal n = (if n < 10 then [digit n] else decimal (n div 10) @ [digit (n mod 10)])"

definition json_int :: "int \<Rightarrow> string" where
  "json_int i = (if i < 0 then ''-'' @ decimal (nat (- i)) else decimal (nat i))"

subsection \<open>Strings\<close>

definition code_of :: "char \<Rightarrow> nat" where
  "code_of c = of_char c"

definition cont :: "nat \<Rightarrow> nat \<Rightarrow> char \<Rightarrow> bool" where
  "cont lo hi c \<longleftrightarrow> lo \<le> code_of c \<and> code_of c \<le> hi"

text \<open>The length of the UTF-8 sequence a non-ASCII byte starts, 0 if the sequence is invalid.\<close>

fun rune_len :: "char \<Rightarrow> string \<Rightarrow> nat" where
  "rune_len c rest =
     (let b = code_of c in
      if 0xC2 \<le> b \<and> b \<le> 0xDF then
        (case rest of c1 # _ \<Rightarrow> if cont 0x80 0xBF c1 then 2 else 0 | [] \<Rightarrow> 0)
      else if 0xE0 \<le> b \<and> b \<le> 0xEF then
        (case rest of c1 # c2 # _ \<Rightarrow>
           if cont (if b = 0xE0 then 0xA0 else 0x80) (if b = 0xED then 0x9F else 0xBF) c1 \<and> cont 0x80 0xBF c2
           then 3 else 0
         | _ \<Rightarrow> 0)
      else if 0xF0 \<le> b \<and> b \<le> 0xF4 then
        (case rest of c1 # c2 # c3 # _ \<Rightarrow>
           if cont (if b = 0xF0 then 0x90 else 0x80) (if b = 0xF4 then 0x8F else 0xBF) c1 \<and>
              cont 0x80 0xBF c2 \<and> cont 0x80 0xBF c3
           then 4 else 0
         | _ \<Rightarrow> 0)
      else 0)"

definition backslash :: char where
  "backslash = CHR 0x5C"

definition escape_ascii :: "char \<Rightarrow> string" where
  "escape_ascii c =
     (let b = code_of c in
      if c = CHR 0x22 \<or> c = backslash then [backslash, c]
      else if b = 8 then [backslash, CHR ''b'']
      else if b = 12 then [backslash, CHR ''f'']
      else if b = 10 then [backslash, CHR ''n'']
      else if b = 13 then [backslash, CHR ''r'']
      else if b = 9 then [backslash, CHR ''t'']
      else if b < 32 \<or> c = CHR ''<'' \<or> c = CHR ''>'' \<or> c = CHR 0x26
        then backslash # ''u00'' @ hex_encode (bytes_of [c])
      else [c])"

definition line_separator :: "string \<Rightarrow> bool" where
  "line_separator r \<longleftrightarrow> r = [CHR 0xE2, CHR 0x80, CHR 0xA8] \<or> r = [CHR 0xE2, CHR 0x80, CHR 0xA9]"

function escape :: "string \<Rightarrow> string" where
  "escape [] = []"
| "escape (c # rest) =
     (if code_of c < 128 then escape_ascii c @ escape rest
      else let n = rune_len c rest; r = take n (c # rest) in
        if n = 0 then (backslash # ''ufffd'') @ escape rest
        else if line_separator r then (backslash # ''u202'' @ [if last r = CHR 0xA8 then CHR ''8'' else CHR ''9'']) @ escape (drop (n - 1) rest)
        else r @ escape (drop (n - 1) rest))"
  by pat_completeness auto
termination
  by (relation "measure length") auto

definition json_string :: "string \<Rightarrow> string" where
  "json_string s = [CHR 0x22] @ escape s @ [CHR 0x22]"

subsection \<open>Values\<close>

definition comma_sep :: "string list \<Rightarrow> string" where
  "comma_sep xs = (case xs of [] \<Rightarrow> [] | y # ys \<Rightarrow> y @ concat (map (\<lambda>x. CHR '','' # x) ys))"

fun marshal :: "json \<Rightarrow> string" where
  "marshal JNull = ''null''"
| "marshal (JBool b) = (if b then ''true'' else ''false'')"
| "marshal (JInt i) = json_int i"
| "marshal (JStr s) = json_string s"
| "marshal (JArr xs) = ''['' @ comma_sep (map marshal xs) @ '']''"
| "marshal (JObj fs) = [CHR 0x7B] @ comma_sep (map (\<lambda>(k, v). json_string k @ '':'' @ marshal v) fs) @ [CHR 0x7D]"

text \<open>Fields tagged \<^verbatim>\<open>omitempty\<close> are left out when they hold the zero value.\<close>

definition omit_if :: "bool \<Rightarrow> string \<Rightarrow> json \<Rightarrow> (string \<times> json) list" where
  "omit_if z k v = (if z then [] else [(k, v)])"

end
