(* ===== verification/Decision_Log.thy ===== *)
theory Decision_Log
  imports Scheduler Go_Json
begin

text \<open>
  \<^verbatim>\<open>internal/decisionlog/log.go\<close> and \<^verbatim>\<open>internal/replay/replay.go\<close>: the hash-chained log of
  scheduling decisions and its replay.

  A record's hash is the SHA-256 of its JSON material, which contains the hash of the record before it.
  The reader is modelled from the decoded lines on: \<open>read_records\<close> takes, for every non-blank line, the
  outcome of decoding it. An empty list of candidates is always a nil slice here
  (\<^verbatim>\<open>append([]Candidate(nil), ...)\<close>) and encodes as \<^verbatim>\<open>null\<close>.
\<close>

section \<open>Definitions\<close>

definition SchemaVersion :: int where
  "SchemaVersion = 1"

record Record =
  rec_schema :: int
  rec_sequence :: int
  rec_previous_hash :: string
  rec_input :: Snapshot
  rec_decision :: Decision
  rec_hash :: string

subsection \<open>JSON material\<close>

definition candidate_json :: "Candidate \<Rightarrow> json" where
  "candidate_json c = JObj
     [(''job_id'', JStr (ca_job_id c)), (''tenant_id'', JStr (ca_tenant c)), (''queue'', JStr (ca_queue c)),
      (''priority'', JInt (ca_priority c)), (''ready_seq'', JInt (ca_ready_seq c)),
      (''slot_cost'', JInt (ca_slot_cost c)), (''recovery'', JBool (ca_recovery c))]"

definition queue_json :: "Queue \<Rightarrow> json" where
  "queue_json q = JObj
     [(''tenant_id'', JStr (q_tenant q)), (''name'', JStr (q_name q)), (''weight'', JInt (q_weight q)),
      (''deficit'', JInt (q_deficit q)),
      (''candidates'', if q_candidates q = [] then JNull else JArr (map candidate_json (q_candidates q)))]"

definition snapshot_json :: "Snapshot \<Rightarrow> json" where
  "snapshot_json s = JObj
     [(''sequence'', JInt (sn_sequence s)), (''logical_time_ns'', JInt (sn_logical_time_ns s)),
      (''worker_slots'', JInt (sn_worker_slots s)), (''batch_limit'', JInt (sn_batch_limit s)),
      (''cursor'', JInt (sn_cursor s)), (''queues'', JArr (map queue_json (sn_queues s))),
      (''config_hash'', JStr (sn_config_hash s)), (''algorithm'', JStr (sn_algorithm s))]"

definition grant_json :: "Grant \<Rightarrow> json" where
  "grant_json g = JObj
     [(''job_id'', JStr (g_job_id g)), (''tenant_id'', JStr (g_tenant g)), (''queue'', JStr (g_queue g)),
      (''slot_cost'', JInt (g_slot_cost g))]"

definition queue_state_json :: "QueueState \<Rightarrow> json" where
  "queue_state_json q = JObj
     [(''tenant_id'', JStr (qs_tenant q)), (''queue'', JStr (qs_queue q)), (''deficit'', JInt (qs_deficit q))]"

definition decision_json :: "Decision \<Rightarrow> json" where
  "decision_json d = JObj
     [(''sequence'', JInt (de_sequence d)), (''grants'', JArr (map grant_json (de_grants d))),
      (''queues'', JArr (map queue_state_json (de_queues d))), (''next_cursor'', JInt (de_next_cursor d))]"

definition hashMaterial :: "int \<Rightarrow> int \<Rightarrow> string \<Rightarrow> Snapshot \<Rightarrow> Decision \<Rightarrow> json" where
  "hashMaterial schema sequence previous input decision = JObj
     [(''schema_version'', JInt schema), (''sequence'', JInt sequence), (''previous_hash'', JStr previous),
      (''input'', snapshot_json input), (''decision'', decision_json decision)]"

subsection \<open>Records\<close>

definition NewRecord :: "string \<Rightarrow> Snapshot \<Rightarrow> Decision \<Rightarrow> Record result" where
  "NewRecord previousHash input decision =
     (if sn_sequence input \<noteq> de_sequence decision then Inl (ErrNew ''input and decision sequences differ'')
      else
        let canonical = CanonicalSnapshot input in
        Inr \<lparr>rec_schema = SchemaVersion, rec_sequence = sn_sequence input, rec_previous_hash = previousHash,
             rec_input = canonical, rec_decision = decision,
             rec_hash = sha256_hex (marshal (hashMaterial SchemaVersion (sn_sequence input) previousHash canonical decision))\<rparr>)"

definition Verify :: "Record \<Rightarrow> string \<Rightarrow> unit result" where
  "Verify record previousHash =
     (if rec_schema record \<noteq> SchemaVersion then Inl (ErrNew ''unsupported decision log schema %d'')
      else if rec_previous_hash record \<noteq> previousHash then Inl (ErrNew ''previous hash %q, want %q'')
      else bindE (NewRecord (rec_previous_hash record) (rec_input record) (rec_decision record)) (\<lambda>expected.
        if rec_hash record \<noteq> rec_hash expected then Inl (ErrNew ''record hash %q, want %q'') else Inr ()))"

definition CanonicalDecision :: "Decision \<Rightarrow> string" where
  "CanonicalDecision decision = marshal (decision_json decision) @ [CHR 0x0A]"

subsection \<open>Writing\<close>

record Writer =
  w_lines :: "Record list"
  w_lastHash :: string

definition NewWriter :: "string \<Rightarrow> Writer" where
  "NewWriter previousHash = \<lparr>w_lines = [], w_lastHash = previousHash\<rparr>"

definition Append :: "Writer \<Rightarrow> Snapshot \<Rightarrow> Decision \<Rightarrow> (Record \<times> Writer) result" where
  "Append w input decision =
     bindE (NewRecord (w_lastHash w) input decision) (\<lambda>record.
       Inr (record, w\<lparr>w_lines := w_lines w @ [record], w_lastHash := rec_hash record\<rparr>))"

subsection \<open>Reading\<close>

fun read_records :: "Record result list \<Rightarrow> Record list \<Rightarrow> string \<Rightarrow> int \<Rightarrow> Record list result" where
  "read_records [] records previousHash previousSequence = Inr records"
| "read_records (line # lines) records previousHash previousSequence =
     (case line of
        Inl e \<Rightarrow> Inl (ErrWrap ''decode record %d: %w'' e)
      | Inr record \<Rightarrow>
          if records = [] \<and> rec_sequence record \<noteq> 1 then Inl (ErrNew ''decision log starts at sequence %d'')
          else if records \<noteq> [] \<and> rec_sequence record \<noteq> previousSequence + 1
            then Inl (ErrNew ''record sequence %d follows %d'')
          else (case Verify record previousHash of
            Inl e \<Rightarrow> Inl (ErrWrap ''verify record %d: %w'' e)
          | Inr _ \<Rightarrow> read_records lines (records @ [record]) (rec_hash record) (rec_sequence record)))"

definition ReadAll :: "Record result list \<Rightarrow> Record list result" where
  "ReadAll lines = read_records lines [] [] 0"

subsection \<open>Replay\<close>

datatype replay_error =
    ReplayFailed go_err
  | DivergenceError int nat nat nat

fun first_difference :: "string \<Rightarrow> string \<Rightarrow> nat \<Rightarrow> nat \<times> nat \<times> nat" where
  "first_difference (e # es) (a # as) i =
     (if e \<noteq> a then (i, code_of e, code_of a) else first_difference es as (i + 1))"
| "first_difference [] [] i = (i, 0, 0)"
| "first_difference (e # es) [] i = (i, code_of e, 0)"
| "first_difference [] (a # as) i = (i, 0, code_of a)"

definition divergence :: "int \<Rightarrow> string \<Rightarrow> string \<Rightarrow> replay_error" where
  "divergence sequence expected actual =
     (case first_difference expected actual 0 of (offset, e, a) \<Rightarrow> DivergenceError sequence offset e a)"

fun replay_records :: "Record list \<Rightarrow> string \<Rightarrow> replay_error + string" where
  "replay_records [] output = Inr output"
| "replay_records (record # records) output =
     (case Decide (rec_input record) of
        Inl e \<Rightarrow> Inl (ReplayFailed (ErrWrap ''recompute decision %d: %w'' e))
      | Inr decision \<Rightarrow>
          let actual = CanonicalDecision decision; expected = CanonicalDecision (rec_decision record) in
          if actual \<noteq> expected then Inl (divergence (rec_sequence record) expected actual)
          else replay_records records (output @ actual))"

record ReplayResult =
  res_records :: nat
  res_digest :: string

definition Run :: "Record result list \<Rightarrow> replay_error + (ReplayResult \<times> string)" where
  "Run lines =
     (case ReadAll lines of
        Inl e \<Rightarrow> Inl (ReplayFailed e)
      | Inr records \<Rightarrow> bindE (replay_records records []) (\<lambda>output.
          Inr (\<lparr>res_records = length records, res_digest = sha256_hex output\<rparr>, output)))"

section \<open>Lemmas\<close>

lemma CanonicalSnapshot_simps [simp]:
  "sn_sequence (CanonicalSnapshot s) = sn_sequence s"
  "CanonicalSnapshot (CanonicalSnapshot s) = CanonicalSnapshot s"
  by (simp_all add: CanonicalSnapshot_def cloneAndSort_idem AlgorithmVersion_def)

lemma Decide_CanonicalSnapshot [simp]: "Decide (CanonicalSnapshot s) = Decide s"
proof -
  have "Decide (CanonicalSnapshot s) = Decide (s\<lparr>sn_queues := cloneAndSort (sn_queues s)\<rparr>)"
    by (simp add: CanonicalSnapshot_def Decide_def Let_def)
  then show ?thesis by (simp add: Decide_cloneAndSort cloneAndSort_idem)
qed

lemma NewRecord_Inr:
  assumes "NewRecord previous s d = Inr r"
  shows "rec_sequence r = sn_sequence s" "rec_input r = CanonicalSnapshot s" "rec_decision r = d"
    "Verify r previous = Inr ()"
  using assms by (auto simp: NewRecord_def Verify_def Let_def split: if_splits)

lemma Decide_sequence: "Decide s = Inr d \<Longrightarrow> de_sequence d = sn_sequence s"
  by (auto simp: Decide_Inr_iff)

text \<open>The life of a log: each snapshot is decided and the decision appended.\<close>

definition decide_and_append :: "Snapshot \<Rightarrow> Writer \<Rightarrow> Writer result" where
  "decide_and_append s w = bindE (Decide s) (\<lambda>d. bindE (Append w s d) (\<lambda>(r, w'). Inr w'))"

text \<open>What a reader accepts after \<open>n\<close> records and the hash \<open>h\<close>.\<close>

fun chained :: "string \<Rightarrow> int \<Rightarrow> Record list \<Rightarrow> bool" where
  "chained h n [] = True"
| "chained h n (r # rs) \<longleftrightarrow> rec_sequence r = n + 1 \<and> Verify r h = Inr () \<and> chained (rec_hash r) (n + 1) rs"

fun head_hash :: "string \<Rightarrow> Record list \<Rightarrow> string" where
  "head_hash h [] = h"
| "head_hash h (r # rs) = head_hash (rec_hash r) rs"

lemma head_hash_snoc [simp]: "head_hash h (rs @ [r]) = rec_hash r"
  by (induction rs arbitrary: h) auto

lemma chained_snoc:
  "chained h n (rs @ [r]) \<longleftrightarrow> chained h n rs \<and> rec_sequence r = n + int (length rs) + 1 \<and> Verify r (head_hash h rs) = Inr ()"
  by (induction rs arbitrary: h n) (auto simp: algebra_simps)

lemma read_records_chained:
  "(acc = [] \<longrightarrow> n = 0) \<Longrightarrow> read_records (map Inr rs) acc h n = Inr out \<longleftrightarrow> chained h n rs \<and> out = acc @ rs"
proof (induction rs arbitrary: acc h n)
  case Nil
  then show ?case by auto
next
  case (Cons r rs)
  have IH: "read_records (map Inr rs) (acc @ [r]) (rec_hash r) (rec_sequence r) = Inr out \<longleftrightarrow>
      chained (rec_hash r) (rec_sequence r) rs \<and> out = (acc @ [r]) @ rs"
    by (rule Cons.IH) simp
  show ?case using Cons.prems IH by (cases "acc = []") (auto split: sum.splits)
qed

lemma ReadAll_chained: "ReadAll (map Inr rs) = Inr out \<longleftrightarrow> chained [] 0 rs \<and> out = rs"
  by (simp add: ReadAll_def read_records_chained)

lemma replay_records_ok:
  "\<forall>r \<in> set rs. Decide (rec_input r) = Inr (rec_decision r) \<Longrightarrow>
   replay_records rs out = Inr (out @ concat (map (CanonicalDecision \<circ> rec_decision) rs))"
  by (induction rs arbitrary: out) (auto simp: Let_def)

definition log_inv :: "Writer \<Rightarrow> bool" where
  "log_inv w \<longleftrightarrow> chained [] 0 (w_lines w) \<and> w_lastHash w = head_hash [] (w_lines w) \<and>
     (\<forall>r \<in> set (w_lines w). Decide (rec_input r) = Inr (rec_decision r))"

lemma decide_and_append_inv:
  assumes "decide_and_append s w = Inr w'" and "log_inv w" and "sn_sequence s = int (length (w_lines w)) + 1"
  shows "log_inv w' \<and> (\<exists>r. w_lines w' = w_lines w @ [r] \<and> rec_input r = CanonicalSnapshot s)"
proof -
  obtain d r where d: "Decide s = Inr d" and r: "NewRecord (w_lastHash w) s d = Inr r"
    and w': "w' = w\<lparr>w_lines := w_lines w @ [r], w_lastHash := rec_hash r\<rparr>"
    using assms(1) by (auto simp: decide_and_append_def Append_def bindE_Inr_iff)
  show ?thesis
    using assms(2,3) d NewRecord_Inr[OF r] by (auto simp: w' log_inv_def chained_snoc)
qed

lemma log_inv_fold:
  "foldE decide_and_append ss w = Inr w' \<Longrightarrow> log_inv w \<Longrightarrow>
   (\<forall>i < length ss. sn_sequence (ss ! i) = int (length (w_lines w) + i) + 1) \<Longrightarrow>
   log_inv w' \<and> map rec_input (w_lines w') = map rec_input (w_lines w) @ map CanonicalSnapshot ss"
proof (induction ss arbitrary: w)
  case Nil
  then show ?case by simp
next
  case (Cons s ss)
  obtain w1 where w1: "decide_and_append s w = Inr w1" and rest: "foldE decide_and_append ss w1 = Inr w'"
    using Cons.prems(1) by (auto simp: bindE_Inr_iff)
  have "sn_sequence s = int (length (w_lines w)) + 1" using Cons.prems(3) by fastforce
  then obtain r where step: "log_inv w1" "w_lines w1 = w_lines w @ [r]" "rec_input r = CanonicalSnapshot s"
    using decide_and_append_inv[OF w1 Cons.prems(2)] by auto
  have "\<forall>i < length ss. sn_sequence (ss ! i) = int (length (w_lines w1) + i) + 1"
    using Cons.prems(3) by (fastforce simp: step(2))
  then show ?case using Cons.IH[OF rest step(1)] by (simp add: step(2,3))
qed

lemma chained_nth:
  "chained h n rs \<longleftrightarrow> (\<forall>i < length rs. rec_sequence (rs ! i) = n + int i + 1 \<and>
     Verify (rs ! i) ((h # map rec_hash rs) ! i) = Inr ())"
proof (induction rs arbitrary: h n)
  case (Cons r rs)
  show ?case unfolding chained.simps Cons.IH by (auto simp: All_less_Suc2 algebra_simps)
qed simp

section \<open>Properties\<close>





end
