(* ===== verification/Lifecycle.thy ===== *)
theory Lifecycle
  imports Domain
begin

text \<open>
  The specification of the job store: what its tables mean, which steps may happen to them, and the
  invariant those steps keep. The theories of the store show that every operation of
  \<^verbatim>\<open>internal/store/sqlite\<close> is a sequence of these steps.

  A \<open>yard\<close> holds, as maps, the jobs, the dependency edges (child, parent), the attempts with their lease
  generation and whether they are open, the ledger of terminal outcomes, the dead letters, the slots in use
  per tenant and per queue, the tenants' slot limits and the last ready sequence number. A step \<open>ystep forced\<close>
  may release a job whose dependencies are not met only if \<open>forced\<close>, that is on an operator's order.
\<close>

section \<open>Definitions\<close>

record jview =
  v_tenant :: string
  v_queue :: string
  v_cost :: int
  v_state :: JobState
  v_version :: int
  v_attempt :: int
  v_generation :: int
  v_ready :: int

record yard =
  y_jobs :: "string \<Rightarrow> jview option"
  y_edges :: "(string \<times> string) set"
  y_attempts :: "string \<times> int \<Rightarrow> (int \<times> bool) option"
  y_ledger :: "string \<Rightarrow> (JobState \<times> int) option"
  y_dead :: "string set"
  y_tenant :: "string \<Rightarrow> int option"
  y_queue :: "string \<times> string \<Rightarrow> int option"
  y_limit :: "string \<Rightarrow> int option"
  y_ready :: int

definition active_state :: "JobState \<Rightarrow> bool" where
  "active_state s \<longleftrightarrow> s = StateScheduled \<or> s = StateRunning"

definition weight :: "jview \<Rightarrow> int" where
  "weight v = (if active_state (v_state v) then v_cost v else 0)"

text \<open>Slots in use by the jobs that satisfy \<open>P\<close>.\<close>

definition usage :: "(string \<Rightarrow> jview option) \<Rightarrow> (jview \<Rightarrow> bool) \<Rightarrow> int" where
  "usage J P = (\<Sum>i \<in> dom J. if P (the (J i)) then weight (the (J i)) else 0)"

definition same_static :: "jview \<Rightarrow> jview \<Rightarrow> bool" where
  "same_static v v' \<longleftrightarrow> v_tenant v' = v_tenant v \<and> v_queue v' = v_queue v \<and> v_cost v' = v_cost v"

definition parents_succeeded :: "yard \<Rightarrow> string \<Rightarrow> bool" where
  "parents_succeeded Y i \<longleftrightarrow>
     (\<forall>p. (i, p) \<in> y_edges Y \<longrightarrow> (\<exists>v. y_jobs Y p = Some v \<and> v_state v = StateSucceeded))"

definition failed_state :: "JobState \<Rightarrow> bool" where
  "failed_state s \<longleftrightarrow> s = StateFailed \<or> s = StateDeadLetter"

subsection \<open>The life of one job\<close>

inductive legal :: "bool \<Rightarrow> bool \<Rightarrow> int \<Rightarrow> jview \<Rightarrow> jview \<Rightarrow> bool" for forced met ready where
  lease: "v_state v = StatePending \<Longrightarrow> 0 < v_ready v \<Longrightarrow>
    legal forced met ready v (v\<lparr>v_state := StateScheduled, v_version := v_version v + 1, v_attempt := v_attempt v + 1,
      v_generation := v_generation v + 1, v_ready := 0\<rparr>)"
| start: "v_state v = StateScheduled \<Longrightarrow>
    legal forced met ready v (v\<lparr>v_state := StateRunning, v_version := v_version v + 1\<rparr>)"
| requeue: "active_state (v_state v) \<Longrightarrow>
    legal forced met ready v (v\<lparr>v_state := StatePending, v_version := v_version v + 1, v_ready := ready\<rparr>)"
| backoff: "active_state (v_state v) \<Longrightarrow>
    legal forced met ready v (v\<lparr>v_state := StateRetrying, v_version := v_version v + 1, v_ready := 0\<rparr>)"
| promote: "v_state v = StatePending \<or> v_state v = StateRetrying \<Longrightarrow> v_ready v = 0 \<Longrightarrow> met \<Longrightarrow>
    legal forced met ready v (v\<lparr>v_state := StatePending, v_version := v_version v + 1, v_ready := ready\<rparr>)"
| release: "forced \<Longrightarrow> \<not> Terminal (v_state v) \<Longrightarrow>
    legal forced met ready v (v\<lparr>v_state := StatePending, v_version := v_version v + 1, v_ready := ready\<rparr>)"
| finish: "\<not> Terminal (v_state v) \<Longrightarrow> Terminal s \<Longrightarrow>
    legal forced met ready v (v\<lparr>v_state := s, v_version := v_version v + 1, v_ready := 0\<rparr>)"

subsection \<open>Steps of the yard\<close>

definition admitted :: "yard \<Rightarrow> jview \<Rightarrow> bool" where
  "admitted Y v \<longleftrightarrow> v_version v = 1 \<and> v_attempt v = 0 \<and> v_generation v = 0 \<and> 0 < v_cost v \<and>
     0 \<le> v_ready v \<and> v_ready v \<le> y_ready Y \<and> y_tenant Y (v_tenant v) \<noteq> None \<and> y_queue Y (v_tenant v, v_queue v) \<noteq> None"

definition put_job :: "string \<Rightarrow> jview \<Rightarrow> yard \<Rightarrow> yard" where
  "put_job i v Y = Y\<lparr>y_jobs := (y_jobs Y)(i \<mapsto> v)\<rparr>"

definition put_outcome :: "string \<Rightarrow> jview \<Rightarrow> yard \<Rightarrow> yard" where
  "put_outcome i v Y =
     (if Terminal (v_state v)
      then Y\<lparr>y_ledger := (y_ledger Y)(i \<mapsto> (v_state v, v_version v)),
             y_dead := (if v_state v = StateDeadLetter then insert i (y_dead Y) else y_dead Y)\<rparr>
      else Y)"

definition add_slots :: "string \<Rightarrow> string \<Rightarrow> int \<Rightarrow> yard \<Rightarrow> yard" where
  "add_slots t q c Y =
     Y\<lparr>y_tenant := (y_tenant Y)(t := map_option (\<lambda>x. x + c) (y_tenant Y t)),
       y_queue := (y_queue Y)((t, q) := map_option (\<lambda>x. x + c) (y_queue Y (t, q)))\<rparr>"

text \<open>What a move may do to the attempts: only those of the job change, attempts are numbered up to the
  job's attempt number by their generation, and the current attempt of an active job is open.\<close>

definition attempts_follow :: "string \<Rightarrow> jview \<Rightarrow> (string \<times> int \<Rightarrow> (int \<times> bool) option) \<Rightarrow>
    (string \<times> int \<Rightarrow> (int \<times> bool) option) \<Rightarrow> bool" where
  "attempts_follow i v A A' \<longleftrightarrow>
     (\<forall>k n. k \<noteq> i \<longrightarrow> A' (k, n) = A (k, n)) \<and>
     (\<forall>n g b. A' (i, n) = Some (g, b) \<longrightarrow>
        (\<exists>b'. A (i, n) = Some (g, b')) \<or> active_state (v_state v) \<and> n = v_attempt v \<and> g = v_generation v) \<and>
     (\<forall>n. A (i, n) \<noteq> None \<longrightarrow> A' (i, n) \<noteq> None) \<and>
     (active_state (v_state v) \<longrightarrow> A' (i, v_attempt v) = Some (v_generation v, True))"

inductive ystep :: "bool \<Rightarrow> yard \<Rightarrow> yard \<Rightarrow> bool" for forced where
  tenant: "y_tenant Y t = None \<Longrightarrow> y_limit Y t = None \<Longrightarrow> 0 \<le> m \<Longrightarrow>
    ystep forced Y (Y\<lparr>y_tenant := (y_tenant Y)(t \<mapsto> 0), y_limit := (y_limit Y)(t \<mapsto> m)\<rparr>)"
| queue: "y_queue Y (t, q) = None \<Longrightarrow> y_tenant Y t \<noteq> None \<Longrightarrow>
    ystep forced Y (Y\<lparr>y_queue := (y_queue Y)((t, q) \<mapsto> 0)\<rparr>)"
| tick: "y_ready Y \<le> n \<Longrightarrow> ystep forced Y (Y\<lparr>y_ready := n\<rparr>)"
| admit: "y_jobs Y i = None \<Longrightarrow> admitted Y v \<Longrightarrow>
    v_state v = StatePending \<or> v_state v = StateDeadLetter \<and> v_ready v = 0 \<Longrightarrow>
    ystep forced Y (put_outcome i v (put_job i v Y))"
| edge: "y_jobs Y c = Some v \<Longrightarrow> y_jobs Y p = Some w \<Longrightarrow> v_attempt v = 0 \<Longrightarrow>
    v_state v = StatePending \<or> v_state v = StateDeadLetter \<Longrightarrow>
    v_ready v = 0 \<or> v_state w = StateSucceeded \<Longrightarrow> acyclic (insert (c, p) (y_edges Y)) \<Longrightarrow>
    ystep forced Y (Y\<lparr>y_edges := insert (c, p) (y_edges Y)\<rparr>)"
| move: "y_jobs Y i = Some v \<Longrightarrow> legal forced (parents_succeeded Y i) (y_ready Y + 1) v v' \<Longrightarrow>
    r = (if v_ready v' = y_ready Y + 1 then y_ready Y + 1 else y_ready Y) \<Longrightarrow>
    weight v < weight v' \<longrightarrow> (\<forall>x m. y_tenant Y (v_tenant v) = Some x \<longrightarrow> y_limit Y (v_tenant v) = Some m \<longrightarrow>
      m = 0 \<or> x + weight v' - weight v \<le> m) \<Longrightarrow>
    attempts_follow i v' (y_attempts Y) A' \<Longrightarrow>
    ystep forced Y (put_outcome i v' (put_job i v'
      (add_slots (v_tenant v) (v_queue v) (weight v' - weight v) (Y\<lparr>y_attempts := A', y_ready := r\<rparr>))))"

subsection \<open>The invariant\<close>

definition attempts_ok :: "(string \<times> int \<Rightarrow> (int \<times> bool) option) \<Rightarrow> string \<Rightarrow> jview \<Rightarrow> bool" where
  "attempts_ok A i v \<longleftrightarrow>
     (active_state (v_state v) \<longrightarrow> A (i, v_attempt v) = Some (v_generation v, True)) \<and>
     (\<forall>n g b. A (i, n) = Some (g, b) \<longrightarrow> 1 \<le> n \<and> n \<le> v_attempt v \<and> g = n)"

definition job_inv :: "yard \<Rightarrow> string \<Rightarrow> jview \<Rightarrow> bool" where
  "job_inv Y i v \<longleftrightarrow>
     y_ledger Y i = (if Terminal (v_state v) then Some (v_state v, v_version v) else None) \<and>
     (i \<in> y_dead Y \<longleftrightarrow> v_state v = StateDeadLetter) \<and>
     0 < v_cost v \<and> 1 \<le> v_version v \<and> v_attempt v = v_generation v \<and> 0 \<le> v_attempt v \<and>
     0 \<le> v_ready v \<and> v_ready v \<le> y_ready Y \<and> (0 < v_ready v \<longrightarrow> v_state v = StatePending) \<and>
     attempts_ok (y_attempts Y) i v \<and>
     y_tenant Y (v_tenant v) \<noteq> None \<and> y_queue Y (v_tenant v, v_queue v) \<noteq> None"

definition absent_inv :: "yard \<Rightarrow> string \<Rightarrow> bool" where
  "absent_inv Y i \<longleftrightarrow> y_ledger Y i = None \<and> i \<notin> y_dead Y \<and> (\<forall>n. y_attempts Y (i, n) = None)"

definition slots_inv :: "yard \<Rightarrow> bool" where
  "slots_inv Y \<longleftrightarrow> finite (dom (y_jobs Y)) \<and>
     (\<forall>t x. y_tenant Y t = Some x \<longrightarrow> x = usage (y_jobs Y) (\<lambda>v. v_tenant v = t)) \<and>
     (\<forall>t q x. y_queue Y (t, q) = Some x \<longrightarrow> x = usage (y_jobs Y) (\<lambda>v. v_tenant v = t \<and> v_queue v = q)) \<and>
     (\<forall>t x m. y_tenant Y t = Some x \<longrightarrow> y_limit Y t = Some m \<longrightarrow> m = 0 \<or> x \<le> m) \<and>
     dom (y_limit Y) = dom (y_tenant Y)"

definition edges_inv :: "yard \<Rightarrow> bool" where
  "edges_inv Y \<longleftrightarrow> acyclic (y_edges Y) \<and> (\<forall>(c, p) \<in> y_edges Y. y_jobs Y c \<noteq> None \<and> y_jobs Y p \<noteq> None)"

definition yard_inv :: "yard \<Rightarrow> bool" where
  "yard_inv Y \<longleftrightarrow> (\<forall>i. case y_jobs Y i of None \<Rightarrow> absent_inv Y i | Some v \<Rightarrow> job_inv Y i v) \<and>
     slots_inv Y \<and> edges_inv Y \<and> 0 \<le> y_ready Y"

definition empty_yard :: yard where
  "empty_yard = \<lparr>y_jobs = \<lambda>_. None, y_edges = {}, y_attempts = \<lambda>_. None, y_ledger = \<lambda>_. None, y_dead = {},
     y_tenant = \<lambda>_. None, y_queue = \<lambda>_. None, y_limit = \<lambda>_. None, y_ready = 0\<rparr>"

text \<open>Without forced releases a job that is ready, leased or has ever been leased has only succeeded parents.\<close>

definition gated :: "yard \<Rightarrow> bool" where
  "gated Y \<longleftrightarrow> (\<forall>i v. y_jobs Y i = Some v \<longrightarrow> 0 < v_ready v \<or> 0 < v_attempt v \<longrightarrow> parents_succeeded Y i)"

section \<open>Lemmas\<close>

lemma put_job_simps [simp]:
  "y_jobs (put_job i v Y) = (y_jobs Y)(i \<mapsto> v)" "y_edges (put_job i v Y) = y_edges Y"
  "y_attempts (put_job i v Y) = y_attempts Y" "y_ledger (put_job i v Y) = y_ledger Y" "y_dead (put_job i v Y) = y_dead Y"
  "y_tenant (put_job i v Y) = y_tenant Y" "y_queue (put_job i v Y) = y_queue Y" "y_limit (put_job i v Y) = y_limit Y"
  "y_ready (put_job i v Y) = y_ready Y"
  by (simp_all add: put_job_def)

lemma put_outcome_simps [simp]:
  "y_jobs (put_outcome i v Y) = y_jobs Y" "y_edges (put_outcome i v Y) = y_edges Y"
  "y_attempts (put_outcome i v Y) = y_attempts Y"
  "y_ledger (put_outcome i v Y) =
     (y_ledger Y)(i := if Terminal (v_state v) then Some (v_state v, v_version v) else y_ledger Y i)"
  "y_dead (put_outcome i v Y) = (if v_state v = StateDeadLetter then insert i (y_dead Y) else y_dead Y)"
  "y_tenant (put_outcome i v Y) = y_tenant Y" "y_queue (put_outcome i v Y) = y_queue Y" "y_limit (put_outcome i v Y) = y_limit Y"
  "y_ready (put_outcome i v Y) = y_ready Y"
  by (simp_all add: put_outcome_def)

lemma add_slots_simps [simp]:
  "y_jobs (add_slots t q c Y) = y_jobs Y" "y_edges (add_slots t q c Y) = y_edges Y"
  "y_attempts (add_slots t q c Y) = y_attempts Y" "y_ledger (add_slots t q c Y) = y_ledger Y" "y_dead (add_slots t q c Y) = y_dead Y"
  "y_tenant (add_slots t q c Y) = (y_tenant Y)(t := map_option (\<lambda>x. x + c) (y_tenant Y t))"
  "y_queue (add_slots t q c Y) = (y_queue Y)((t, q) := map_option (\<lambda>x. x + c) (y_queue Y (t, q)))"
  "y_limit (add_slots t q c Y) = y_limit Y" "y_ready (add_slots t q c Y) = y_ready Y"
  by (simp_all add: add_slots_def)

lemma legal_static: "legal f m r v v' \<Longrightarrow> same_static v v' \<and> v_version v' = v_version v + 1 \<and> \<not> Terminal (v_state v)"
  by (erule legal.cases) (auto simp: same_static_def active_state_def)

lemma usage_update:
  assumes "finite (dom J)" and "J i = Some v"
  shows "usage (J(i \<mapsto> v')) P = usage J P - (if P v then weight v else 0) + (if P v' then weight v' else 0)"
proof -
  have i: "i \<in> dom J" and d: "dom (J(i \<mapsto> v')) = dom J" using assms(2) by auto
  have rest: "(\<Sum>k \<in> dom J - {i}. if P (the ((J(i \<mapsto> v')) k)) then weight (the ((J(i \<mapsto> v')) k)) else 0) =
      (\<Sum>k \<in> dom J - {i}. if P (the (J k)) then weight (the (J k)) else 0)"
    by (rule sum.cong) auto
  show ?thesis
    unfolding usage_def d sum.remove[OF assms(1) i] rest using assms(2) by simp
qed

lemma usage_insert:
  assumes "finite (dom J)" and "J i = None"
  shows "usage (J(i \<mapsto> v)) P = usage J P + (if P v then weight v else 0)"
proof -
  have i: "i \<notin> dom J" using assms(2) by auto
  have "(\<Sum>k \<in> dom J. if P (the ((J(i \<mapsto> v)) k)) then weight (the ((J(i \<mapsto> v)) k)) else 0) = usage J P"
    unfolding usage_def by (rule sum.cong) (use i in auto)
  then show ?thesis using i assms(1) by (simp add: usage_def)
qed

lemma dom_fun_upd_Some_absorb: "J i = Some v \<Longrightarrow> dom (J(i \<mapsto> v')) = dom J"
  by auto

subsection \<open>Every step keeps the invariant\<close>

lemma legal_counts:
  assumes "legal f m (y_ready Y + 1) v v'" and "job_inv Y i v" and "0 \<le> y_ready Y"
  shows "v_attempt v' = v_generation v' \<and> v_attempt v \<le> v_attempt v' \<and> 0 \<le> v_ready v' \<and>
    v_ready v' \<le> (if v_ready v' = y_ready Y + 1 then y_ready Y + 1 else y_ready Y) \<and>
    (0 < v_ready v' \<longrightarrow> v_state v' = StatePending) \<and> (active_state (v_state v') \<longrightarrow> 1 \<le> v_attempt v')"
proof -
  have "active_state (v_state v) \<longrightarrow> 1 \<le> v_attempt v" using assms(2) unfolding job_inv_def attempts_ok_def by blast
  moreover have "v_attempt v = v_generation v" "0 \<le> v_attempt v" "0 \<le> v_ready v" "v_ready v \<le> y_ready Y"
    "0 < v_ready v \<longrightarrow> v_state v = StatePending"
    using assms(2) unfolding job_inv_def by simp_all
  ultimately show ?thesis
    using assms(3) by (cases rule: legal.cases[OF assms(1)]) (auto simp: active_state_def)
qed

lemma legal_job_inv:
  assumes leg: "legal f m (y_ready Y + 1) v v'" and inv: "job_inv Y i v" and pos: "0 \<le> y_ready Y"
    and r: "r = (if v_ready v' = y_ready Y + 1 then y_ready Y + 1 else y_ready Y)"
    and A: "attempts_follow i v' (y_attempts Y) A'"
  shows "job_inv (put_outcome i v' (put_job i v'
      (add_slots (v_tenant v) (v_queue v) (weight v' - weight v) (Y\<lparr>y_attempts := A', y_ready := r\<rparr>)))) i v'"
proof -
  have st: "same_static v v'" "v_version v' = v_version v + 1" "\<not> Terminal (v_state v)"
    using legal_static[OF leg] by auto
  note counts = legal_counts[OF leg inv pos, folded r]
  have old: "1 \<le> n \<and> n \<le> v_attempt v \<and> g = n" if "y_attempts Y (i, n) = Some (g, b)" for n g b
    using inv that unfolding job_inv_def attempts_ok_def by blast
  have nums: "1 \<le> n \<and> n \<le> v_attempt v' \<and> g = n" if a: "A' (i, n) = Some (g, b)" for n g b
  proof -
    from A a have "(\<exists>b'. y_attempts Y (i, n) = Some (g, b')) \<or>
        active_state (v_state v') \<and> n = v_attempt v' \<and> g = v_generation v'"
      unfolding attempts_follow_def by blast
    then show ?thesis
    proof (elim disjE exE conjE)
      fix b' assume "y_attempts Y (i, n) = Some (g, b')"
      then show ?thesis using old[of n g b'] counts by linarith
    qed (use counts in auto)
  qed
  have cur: "active_state (v_state v') \<longrightarrow> A' (i, v_attempt v') = Some (v_generation v', True)"
    using A by (simp add: attempts_follow_def)
  have slots: "y_tenant Y (v_tenant v) \<noteq> None" "y_queue Y (v_tenant v, v_queue v) \<noteq> None" "0 < v_cost v" "1 \<le> v_version v"
    "0 \<le> v_attempt v" "y_ledger Y i = None" "i \<notin> y_dead Y"
    using inv st(3) unfolding job_inv_def by auto
  have "attempts_ok A' i v'" using nums cur by (simp add: attempts_ok_def)
  then show ?thesis using st counts slots by (auto simp: job_inv_def same_static_def)
qed

lemma job_inv_frame:
  assumes "job_inv Y i v" and "y_ledger Y' i = y_ledger Y i" and "i \<in> y_dead Y' \<longleftrightarrow> i \<in> y_dead Y"
    and "\<And>n. y_attempts Y' (i, n) = y_attempts Y (i, n)" and "y_ready Y \<le> y_ready Y'"
    and "\<And>t. y_tenant Y t \<noteq> None \<Longrightarrow> y_tenant Y' t \<noteq> None" and "\<And>k. y_queue Y k \<noteq> None \<Longrightarrow> y_queue Y' k \<noteq> None"
  shows "job_inv Y' i v"
proof -
  have "v_ready v \<le> y_ready Y'" using assms(1,5) unfolding job_inv_def by linarith
  moreover have "attempts_ok (y_attempts Y') i v \<longleftrightarrow> attempts_ok (y_attempts Y) i v"
    by (simp add: attempts_ok_def assms(4))
  ultimately show ?thesis using assms unfolding job_inv_def by simp
qed

lemma absent_inv_frame:
  assumes "absent_inv Y i" and "y_ledger Y' i = y_ledger Y i" and "i \<in> y_dead Y' \<longleftrightarrow> i \<in> y_dead Y"
    and "\<And>n. y_attempts Y' (i, n) = y_attempts Y (i, n)"
  shows "absent_inv Y' i"
  using assms by (simp add: absent_inv_def)

lemma slots_inv_move:
  assumes inv: "slots_inv Y" and v: "y_jobs Y i = Some v" and st: "same_static v v'"
    and cap: "weight v < weight v' \<longrightarrow> (\<forall>x m. y_tenant Y (v_tenant v) = Some x \<longrightarrow> y_limit Y (v_tenant v) = Some m \<longrightarrow>
      m = 0 \<or> x + weight v' - weight v \<le> m)"
    and Y': "y_jobs Y' = (y_jobs Y)(i \<mapsto> v')" "y_limit Y' = y_limit Y"
      "y_tenant Y' = (y_tenant Y)(v_tenant v := map_option (\<lambda>x. x + (weight v' - weight v)) (y_tenant Y (v_tenant v)))"
      "y_queue Y' = (y_queue Y)((v_tenant v, v_queue v) := map_option (\<lambda>x. x + (weight v' - weight v)) (y_queue Y (v_tenant v, v_queue v)))"
  shows "slots_inv Y'"
  unfolding slots_inv_def
proof (intro conjI allI impI)
  have fin: "finite (dom (y_jobs Y))" using inv by (simp add: slots_inv_def)
  show "finite (dom (y_jobs Y'))" using fin v by (simp add: Y')
  have T: "y_tenant Y t = Some x \<Longrightarrow> x = usage (y_jobs Y) (\<lambda>v. v_tenant v = t)" for t x
    using inv by (simp add: slots_inv_def)
  have Q: "y_queue Y (t, q) = Some x \<Longrightarrow> x = usage (y_jobs Y) (\<lambda>v. v_tenant v = t \<and> v_queue v = q)" for t q x
    using inv by (simp add: slots_inv_def)
  show "x = usage (y_jobs Y') (\<lambda>v. v_tenant v = t)" if "y_tenant Y' t = Some x" for t x
    using that T st unfolding Y' usage_update[OF fin v]
    by (cases "t = v_tenant v") (auto simp: same_static_def)
  show "x = usage (y_jobs Y') (\<lambda>v. v_tenant v = t \<and> v_queue v = q)" if "y_queue Y' (t, q) = Some x" for t q x
    using that Q st unfolding Y' usage_update[OF fin v]
    by (cases "t = v_tenant v \<and> q = v_queue v") (auto simp: same_static_def)
  show "m = 0 \<or> x \<le> m" if tm: "y_tenant Y' t = Some x" "y_limit Y' t = Some m" for t x m
  proof (cases "t = v_tenant v")
    case True
    then obtain x0 where x0: "y_tenant Y t = Some x0" "x = x0 + (weight v' - weight v)" using tm(1) by (auto simp: Y')
    then have "m = 0 \<or> x0 \<le> m" using inv tm(2) by (auto simp: slots_inv_def Y')
    then show ?thesis using cap x0 tm(2) True by (cases "weight v < weight v'") (auto simp: Y')
  next
    case False
    then show ?thesis using inv tm by (auto simp: slots_inv_def Y')
  qed
  show "dom (y_limit Y') = dom (y_tenant Y')"
    using inv by (auto simp: slots_inv_def Y' dom_def)
qed

lemma slots_inv_insert:
  assumes inv: "slots_inv Y" and i: "y_jobs Y i = None" and w: "weight v = 0"
    and Y': "y_jobs Y' = (y_jobs Y)(i \<mapsto> v)" "y_limit Y' = y_limit Y" "y_tenant Y' = y_tenant Y" "y_queue Y' = y_queue Y"
  shows "slots_inv Y'"
proof -
  have "finite (dom (y_jobs Y))" using inv by (simp add: slots_inv_def)
  from usage_insert[OF this i] show ?thesis using inv w by (simp add: slots_inv_def Y')
qed

lemma slots_inv_same:
  "slots_inv Y \<Longrightarrow> y_jobs Y' = y_jobs Y \<Longrightarrow> y_limit Y' = y_limit Y \<Longrightarrow> y_tenant Y' = y_tenant Y \<Longrightarrow> y_queue Y' = y_queue Y \<Longrightarrow>
   slots_inv Y'"
  by (simp add: slots_inv_def)

text \<open>A tenant or queue without a row has no job, so its usage is zero.\<close>

lemma usage_zero:
  assumes "\<And>i v. J i = Some v \<Longrightarrow> \<not> P v"
  shows "usage J P = 0"
  unfolding usage_def by (rule sum.neutral) (use assms in auto)

lemma yard_invD:
  assumes "yard_inv Y"
  shows "y_jobs Y i = Some v \<Longrightarrow> job_inv Y i v" "y_jobs Y i = None \<Longrightarrow> absent_inv Y i"
    "slots_inv Y" "edges_inv Y" "0 \<le> y_ready Y"
  using assms by (auto simp: yard_inv_def dest: spec[of _ i])

lemma job_rows:
  "yard_inv Y \<Longrightarrow> y_jobs Y i = Some v \<Longrightarrow> y_tenant Y (v_tenant v) \<noteq> None \<and> y_queue Y (v_tenant v, v_queue v) \<noteq> None"
  using yard_invD(1)[of Y i v] by (simp add: job_inv_def)

lemma yard_invI:
  assumes "\<And>i v. y_jobs Y i = Some v \<Longrightarrow> job_inv Y i v" and "\<And>i. y_jobs Y i = None \<Longrightarrow> absent_inv Y i"
    and "slots_inv Y" and "edges_inv Y" and "0 \<le> y_ready Y"
  shows "yard_inv Y"
  using assms by (auto simp: yard_inv_def split: option.split)

text \<open>Steps that leave the jobs, attempts, outcomes and edges alone.\<close>

lemma yard_inv_rows:
  assumes inv: "yard_inv Y" and same: "y_jobs Y' = y_jobs Y" "y_edges Y' = y_edges Y" "y_attempts Y' = y_attempts Y"
      "y_ledger Y' = y_ledger Y" "y_dead Y' = y_dead Y"
    and "\<And>t. y_tenant Y t \<noteq> None \<Longrightarrow> y_tenant Y' t \<noteq> None" and "\<And>k. y_queue Y k \<noteq> None \<Longrightarrow> y_queue Y' k \<noteq> None"
    and ready: "y_ready Y \<le> y_ready Y'" and slots: "slots_inv Y'"
  shows "yard_inv Y'"
proof (rule yard_invI)
  show "job_inv Y' i v" if "y_jobs Y' i = Some v" for i v
    using job_inv_frame[OF yard_invD(1)[OF inv], of i v Y'] that assms by simp
  show "absent_inv Y' i" if "y_jobs Y' i = None" for i
    using absent_inv_frame[OF yard_invD(2)[OF inv], of i Y'] that same by simp
  show "edges_inv Y'" using yard_invD(4)[OF inv] same by (simp add: edges_inv_def)
  show "0 \<le> y_ready Y'" using yard_invD(5)[OF inv] ready by simp
qed (rule slots)

lemma slots_inv_tenant:
  assumes inv: "yard_inv Y" and t: "y_tenant Y t = None" "0 \<le> m"
  shows "slots_inv (Y\<lparr>y_tenant := (y_tenant Y)(t \<mapsto> 0), y_limit := (y_limit Y)(t \<mapsto> m)\<rparr>)"
proof -
  have "usage (y_jobs Y) (\<lambda>v. v_tenant v = t) = 0"
    by (rule usage_zero) (use t in \<open>auto dest: job_rows[OF inv]\<close>)
  then show ?thesis using yard_invD(3)[OF inv] t(2) by (auto simp: slots_inv_def)
qed

lemma slots_inv_queue:
  assumes inv: "yard_inv Y" and q: "y_queue Y (t, q) = None"
  shows "slots_inv (Y\<lparr>y_queue := (y_queue Y)((t, q) \<mapsto> 0)\<rparr>)"
proof -
  have "usage (y_jobs Y) (\<lambda>v. v_tenant v = t \<and> v_queue v = q) = 0"
    by (rule usage_zero) (use q in \<open>auto dest: job_rows[OF inv]\<close>)
  then show ?thesis using yard_invD(3)[OF inv] by (auto simp: slots_inv_def)
qed

lemma yard_inv_admit:
  assumes inv: "yard_inv Y" and new: "y_jobs Y i = None" "admitted Y v"
    "v_state v = StatePending \<or> v_state v = StateDeadLetter \<and> v_ready v = 0"
  shows "yard_inv (put_outcome i v (put_job i v Y))"
proof (rule yard_invI)
  let ?Y = "put_outcome i v (put_job i v Y)"
  have absent: "absent_inv Y i" by (rule yard_invD(2)[OF inv new(1)])
  then have "attempts_ok (y_attempts Y) i v"
    using new(3) by (auto simp: attempts_ok_def absent_inv_def active_state_def)
  then have own: "job_inv ?Y i v"
    using absent new(2,3) by (auto simp: job_inv_def admitted_def absent_inv_def)
  show "job_inv ?Y k w" if k: "y_jobs ?Y k = Some w" for k w
  proof (cases "k = i")
    case False
    then show ?thesis using job_inv_frame[OF yard_invD(1)[OF inv], of k w ?Y] k by simp
  qed (use own k in simp)
  show "absent_inv ?Y k" if "y_jobs ?Y k = None" for k
    using absent_inv_frame[OF yard_invD(2)[OF inv], of k ?Y] that by (simp split: if_splits)
  show "slots_inv ?Y"
    by (rule slots_inv_insert[OF yard_invD(3)[OF inv] new(1)]) (use new(3) in \<open>auto simp: weight_def active_state_def\<close>)
  show "edges_inv ?Y" using yard_invD(4)[OF inv] by (auto simp: edges_inv_def)
  show "0 \<le> y_ready ?Y" using yard_invD(5)[OF inv] by simp
qed

lemma yard_inv_move:
  assumes inv: "yard_inv Y" and v: "y_jobs Y i = Some v" and leg: "legal f m (y_ready Y + 1) v v'"
    and r: "r = (if v_ready v' = y_ready Y + 1 then y_ready Y + 1 else y_ready Y)"
    and cap: "weight v < weight v' \<longrightarrow> (\<forall>x m. y_tenant Y (v_tenant v) = Some x \<longrightarrow> y_limit Y (v_tenant v) = Some m \<longrightarrow>
      m = 0 \<or> x + weight v' - weight v \<le> m)"
    and A: "attempts_follow i v' (y_attempts Y) A'"
  shows "yard_inv (put_outcome i v' (put_job i v'
      (add_slots (v_tenant v) (v_queue v) (weight v' - weight v) (Y\<lparr>y_attempts := A', y_ready := r\<rparr>))))" (is "yard_inv ?Y")
proof (rule yard_invI)
  have other: "A' (k, n) = y_attempts Y (k, n)" if "k \<noteq> i" for k n
    using A that by (simp add: attempts_follow_def)
  show "job_inv ?Y k w" if k: "y_jobs ?Y k = Some w" for k w
  proof (cases "k = i")
    case True
    then show ?thesis using legal_job_inv[OF leg yard_invD(1)[OF inv v] yard_invD(5)[OF inv] r A] k by simp
  next
    case False
    have "y_jobs Y k = Some w" using k False by simp
    from yard_invD(1)[OF inv this] show ?thesis
      by (rule job_inv_frame) (use False other in \<open>auto simp: r\<close>)
  qed
  show "absent_inv ?Y k" if k: "y_jobs ?Y k = None" for k
    using absent_inv_frame[OF yard_invD(2)[OF inv], of k ?Y] k other by (simp split: if_splits)
  show "slots_inv ?Y"
    by (rule slots_inv_move[OF yard_invD(3)[OF inv] v _ cap]) (use legal_static[OF leg] in simp_all)
  show "edges_inv ?Y" using yard_invD(4)[OF inv] by (auto simp: edges_inv_def)
  show "0 \<le> y_ready ?Y" using yard_invD(5)[OF inv] r by simp
qed

theorem ystep_inv: "ystep f Y Y' \<Longrightarrow> yard_inv Y \<Longrightarrow> yard_inv Y'"
proof (induction rule: ystep.induct)
  case (tenant Y t m)
  then show ?case by (intro yard_inv_rows[OF tenant.prems]) (auto intro: slots_inv_tenant)
next
  case (queue Y t q)
  then show ?case by (intro yard_inv_rows[OF queue.prems]) (auto intro: slots_inv_queue)
next
  case (tick Y n)
  then show ?case
    by (intro yard_inv_rows[OF tick.prems]) (auto intro: slots_inv_same[OF yard_invD(3)])
next
  case (admit Y i v)
  then show ?case by (intro yard_inv_admit)
next
  case (edge Y c v p w)
  have "edges_inv (Y\<lparr>y_edges := insert (c, p) (y_edges Y)\<rparr>)"
    using edge yard_invD(4)[OF edge.prems] by (auto simp: edges_inv_def)
  moreover have "slots_inv (Y\<lparr>y_edges := insert (c, p) (y_edges Y)\<rparr>)"
    by (rule slots_inv_same[OF yard_invD(3)[OF edge.prems]]) simp_all
  ultimately show ?case
    using edge.prems by (auto intro!: yard_invI dest: yard_invD simp: job_inv_def absent_inv_def)
next
  case (move Y i v v' r A')
  show ?case by (rule yard_inv_move[OF move.prems move(1-5)])
qed

lemma empty_yard_inv: "yard_inv empty_yard"
  by (simp add: yard_inv_def empty_yard_def absent_inv_def slots_inv_def edges_inv_def acyclic_def usage_def)

subsection \<open>What never changes\<close>

definition evolves :: "yard \<Rightarrow> yard \<Rightarrow> bool" where
  "evolves Y Y' \<longleftrightarrow> y_edges Y \<subseteq> y_edges Y' \<and> y_ready Y \<le> y_ready Y' \<and>
     (\<forall>t m. y_limit Y t = Some m \<longrightarrow> y_limit Y' t = Some m) \<and>
     (\<forall>i v. y_jobs Y i = Some v \<longrightarrow> (\<exists>v'. y_jobs Y' i = Some v' \<and> same_static v v' \<and>
        (v' = v \<or> v_version v < v_version v' \<and> \<not> Terminal (v_state v))))"

lemma same_static_refl [simp]: "same_static v v"
  by (simp add: same_static_def)

lemma same_static_trans: "same_static a b \<Longrightarrow> same_static b c \<Longrightarrow> same_static a c"
  by (simp add: same_static_def)

lemma evolves_refl [simp]: "evolves Y Y"
  by (simp add: evolves_def)

lemma evolvesD:
  "evolves Y Y' \<Longrightarrow> y_jobs Y i = Some v \<Longrightarrow>
   \<exists>v'. y_jobs Y' i = Some v' \<and> same_static v v' \<and> (v' = v \<or> v_version v < v_version v' \<and> \<not> Terminal (v_state v))"
  by (simp add: evolves_def)

lemma evolves_trans:
  assumes "evolves X Y" and "evolves Y Z"
  shows "evolves X Z"
proof -
  have "\<exists>w. y_jobs Z i = Some w \<and> same_static v w \<and> (w = v \<or> v_version v < v_version w \<and> \<not> Terminal (v_state v))"
    if v: "y_jobs X i = Some v" for i v
  proof -
    obtain u where u: "y_jobs Y i = Some u" "same_static v u" "u = v \<or> v_version v < v_version u \<and> \<not> Terminal (v_state v)"
      using evolvesD[OF assms(1) v] by blast
    obtain w where w: "y_jobs Z i = Some w" "same_static u w" "w = u \<or> v_version u < v_version w \<and> \<not> Terminal (v_state u)"
      using evolvesD[OF assms(2) u(1)] by blast
    have "w = v \<or> v_version v < v_version w \<and> \<not> Terminal (v_state v)" using u(3) w(3) by auto
    then show ?thesis using w(1) same_static_trans[OF u(2) w(2)] by blast
  qed
  then show ?thesis using assms unfolding evolves_def by auto
qed

lemma ystep_evolves: "ystep f Y Y' \<Longrightarrow> evolves Y Y'"
proof (induction rule: ystep.induct)
  case (move Y i v v' r A')
  then show ?case using legal_static[OF move(2)] by (auto simp: evolves_def)
qed (auto simp: evolves_def admitted_def)

abbreviation ysteps :: "bool \<Rightarrow> yard \<Rightarrow> yard \<Rightarrow> bool" where
  "ysteps f \<equiv> (ystep f)\<^sup>*\<^sup>*"

lemma ysteps_inv: "ysteps f Y Y' \<Longrightarrow> yard_inv Y \<Longrightarrow> yard_inv Y'"
  by (induction rule: rtranclp_induct) (auto intro: ystep_inv)

lemma ysteps_evolves: "ysteps f Y Y' \<Longrightarrow> evolves Y Y'"
  by (induction rule: rtranclp_induct) (auto intro: evolves_trans ystep_evolves)

text \<open>A job whose version did not change did not change at all, and a terminal job never changes.\<close>

lemma evolves_same_version:
  "evolves Y Y' \<Longrightarrow> y_jobs Y i = Some v \<Longrightarrow> y_jobs Y' i = Some v' \<Longrightarrow> v_version v' = v_version v \<Longrightarrow> v' = v"
  using evolvesD[of Y Y' i v] by auto

lemma evolves_static:
  "evolves Y Y' \<Longrightarrow> y_jobs Y i = Some v \<Longrightarrow> y_jobs Y' i = Some v' \<Longrightarrow> same_static v v'"
  using evolvesD[of Y Y' i v] by auto

lemma evolves_terminal:
  "evolves Y Y' \<Longrightarrow> y_jobs Y i = Some v \<Longrightarrow> Terminal (v_state v) \<Longrightarrow> y_jobs Y' i = Some v"
  using evolvesD[of Y Y' i v] by auto

lemma evolves_ledger:
  assumes "evolves Y Y'" and "yard_inv Y" and "yard_inv Y'" and "y_ledger Y i = Some out"
  shows "y_ledger Y' i = Some out"
proof (cases "y_jobs Y i")
  case None
  then show ?thesis using yard_invD(2)[OF assms(2)] assms(4) by (auto simp: absent_inv_def)
next
  case (Some v)
  then have v: "Terminal (v_state v)" "out = (v_state v, v_version v)"
    using yard_invD(1)[OF assms(2) Some] assms(4) by (auto simp: job_inv_def split: if_splits)
  have "y_jobs Y' i = Some v" by (rule evolves_terminal[OF assms(1) Some v(1)])
  then show ?thesis using yard_invD(1)[OF assms(3)] v by (simp add: job_inv_def)
qed

subsection \<open>Dependency gating\<close>

lemma parents_succeeded_evolves:
  assumes "parents_succeeded Y i" and "evolves Y Y'" and "\<And>p. (i, p) \<in> y_edges Y' \<Longrightarrow> (i, p) \<in> y_edges Y"
  shows "parents_succeeded Y' i"
  unfolding parents_succeeded_def
proof (intro allI impI)
  fix p assume "(i, p) \<in> y_edges Y'"
  then obtain v where v: "y_jobs Y p = Some v" "v_state v = StateSucceeded"
    using assms(1,3) by (auto simp: parents_succeeded_def)
  then have "y_jobs Y' p = Some v" using evolves_terminal[OF assms(2) v(1)] by simp
  then show "\<exists>v. y_jobs Y' p = Some v \<and> v_state v = StateSucceeded" using v(2) by blast
qed

lemma gatedD: "gated Y \<Longrightarrow> y_jobs Y i = Some v \<Longrightarrow> 0 < v_ready v \<or> 0 < v_attempt v \<Longrightarrow> parents_succeeded Y i"
  by (auto simp: gated_def)

lemma legal_gated:
  assumes "legal False m r v v'" and "job_inv Y i v" and "0 < v_ready v' \<or> 0 < v_attempt v'" and "\<not> m"
  shows "0 < v_ready v \<or> 0 < v_attempt v"
proof -
  have "active_state (v_state v) \<longrightarrow> 0 < v_attempt v"
    using assms(2) unfolding job_inv_def attempts_ok_def by force
  then show ?thesis using assms(3,4) by (cases rule: legal.cases[OF assms(1)]) auto
qed

lemma gated_same_edges:
  assumes "gated Y" and "evolves Y Y'" and "y_edges Y' = y_edges Y"
    and "\<And>i v. y_jobs Y' i = Some v \<Longrightarrow> 0 < v_ready v \<or> 0 < v_attempt v \<Longrightarrow> parents_succeeded Y i"
  shows "gated Y'"
  unfolding gated_def using assms parents_succeeded_evolves[OF _ assms(2)] by auto

theorem ystep_gated:
  assumes step: "ystep False Y Y'" and inv: "yard_inv Y" and gate: "gated Y"
  shows "gated Y'"
  using step
proof cases
  case (admit i v)
  have "parents_succeeded Y i"
    using yard_invD(4)[OF inv] admit by (auto simp: parents_succeeded_def edges_inv_def)
  then show ?thesis
    using admit gatedD[OF gate] by (intro gated_same_edges[OF gate ystep_evolves[OF step]]) (auto split: if_splits)
next
  case (edge c v p w)
  show ?thesis
    unfolding gated_def
  proof (intro allI impI)
    fix i u assume u: "y_jobs Y' i = Some u" "0 < v_ready u \<or> 0 < v_attempt u"
    then have p: "parents_succeeded Y i" using gatedD[OF gate] edge by simp
    show "parents_succeeded Y' i"
      using p u edge by (auto simp: parents_succeeded_def)
  qed
next
  case (move i v v' r A')
  have "parents_succeeded Y i" if "0 < v_ready v' \<or> 0 < v_attempt v'"
    using legal_gated[OF move(3) yard_invD(1)[OF inv move(2)] that] gatedD[OF gate move(2)] by blast
  then show ?thesis
    using move gatedD[OF gate] by (intro gated_same_edges[OF gate ystep_evolves[OF step]]) (auto split: if_splits)
qed (use gate in \<open>auto simp: gated_def parents_succeeded_def\<close>)

lemma ysteps_gated: "ysteps False Y Y' \<Longrightarrow> yard_inv Y \<Longrightarrow> gated Y \<Longrightarrow> gated Y'"
  by (induction rule: rtranclp_induct) (auto intro: ystep_gated ysteps_inv)

lemma empty_yard_gated: "gated empty_yard"
  by (simp add: gated_def empty_yard_def)

end
