(* ===== verification/Store_Schema.thy ===== *)
theory Store_Schema
  imports Retry Decision_Log Lifecycle
begin

text \<open>
  The SQLite store of \<^verbatim>\<open>internal/store/sqlite\<close>: its tables (\<^verbatim>\<open>migrations/001\<close> to \<^verbatim>\<open>004\<close>), the store
  record, the logical clock and the helpers of \<^verbatim>\<open>sqlite.go\<close>.

  A table is a list of row records in insertion order. A JSON column holds the value it decodes to. The
  primary keys, UNIQUE and foreign-key constraints and the CHECKs on inserted rows are part of the insert
  functions, whose error is \<open>sql_constraint\<close>; the CHECKs on updated rows repeat what the guards of the
  statements ensure. Failures of the disk or the driver are not modelled.

  A transaction body is a function from the database to an error or a result with the new database.
  \<open>transact\<close> is the pattern of all writing operations: take the write time, run the body, commit on success
  and roll back on error. The logical clock advances in both cases.
\<close>

section \<open>Definitions\<close>

subsection \<open>Tables\<close>

record job_row = Job +
  jr_recovery_pending :: bool
  jr_execution_key :: string

datatype AttemptState =
    AttemptLeased
  | AttemptRunning
  | AttemptSucceeded
  | AttemptFailed
  | AttemptExpired

record attempt_row =
  at_job :: string
  at_no :: int
  at_worker :: string
  at_generation :: int
  at_token_hash :: string
  at_state :: AttemptState
  at_leased_at :: int
  at_heartbeat_at :: int
  at_expires_at :: int
  at_started_at :: "int option"
  at_completed_at :: "int option"
  at_failure :: "Failure option"
  at_digest :: "string option"
  at_receipt_state :: "JobState option"
  at_receipt_version :: "int option"
  at_receipt_committed :: "int option"

record completion_row =
  cp_job :: string
  cp_state :: JobState
  cp_version :: int
  cp_attempt_no :: int
  cp_output_digest :: string
  cp_failure :: "Failure option"
  cp_committed_at :: int

datatype response =
    RespJob Job
  | RespJobs "Job list"
  | RespCron CronTrigger

record idempotency_row =
  id_tenant :: string
  id_key :: string
  id_kind :: string
  id_digest :: string
  id_job :: "string option"
  id_response :: response
  id_created_at :: int

record tenant_row =
  te_id :: string
  te_max_depth :: int
  te_max_slots :: int
  te_active_slots :: int

record queue_row =
  qu_tenant :: string
  qu_name :: string
  qu_weight :: int
  qu_deficit :: int
  qu_active_slots :: int
  qu_updated_at :: int

record event_row =
  ev_seq :: int
  ev_job :: string
  ev_type :: string
  ev_state :: JobState
  ev_version :: int
  ev_at :: int
  ev_payload :: json

record decision_row =
  dr_sequence :: int
  dr_previous_hash :: string
  dr_hash :: string
  dr_record :: Record
  dr_created_at :: int

record dead_row =
  dl_job :: string
  dl_failure :: Failure
  dl_created_at :: int
  dl_redriven :: "string option"

record cron_row =
  cr_id :: string
  cr_tenant :: string
  cr_expression :: string
  cr_job :: JobSpec
  cr_actor :: string
  cr_next_fire_at :: int
  cr_enabled :: bool
  cr_created_at :: int
  cr_updated_at :: int

record occurrence_row =
  oc_trigger :: string
  oc_nominal_at :: int
  oc_job :: string
  oc_created_at :: int

record redis_row =
  rd_trigger :: string
  rd_stream :: string
  rd_message :: string
  rd_job :: string
  rd_created_at :: int

record ActionReceipt =
  ar_job :: string
  ar_action :: string
  ar_state :: JobState
  ar_version :: int
  ar_actor :: string
  ar_committed_at :: int
  ar_duplicate :: bool

record AuditEvent =
  ae_id :: string
  ae_tenant :: string
  ae_action :: string
  ae_actor :: string
  ae_occurred_at :: int
  ae_target_type :: string
  ae_target_id :: string
  ae_details :: "(string \<times> string) list"

datatype op_response =
    OpSubmitJob Job
  | OpSubmitDAG string "Job list"
  | OpReceipt ActionReceipt
  | OpRedrive Job
  | OpRetry Job
  | OpEvent AuditEvent
  | OpOther json

record operation_row =
  op_tenant :: string
  op_key :: string
  op_action :: string
  op_actor :: string
  op_reason :: string
  op_digest :: string
  op_committed_at :: int
  op_target_type :: string
  op_target_id :: string
  op_target_state :: "JobState option"
  op_target_version :: "int option"
  op_resp :: op_response

record audit_row = AuditEvent +
  ae_key :: string

record dag_run_row =
  dg_id :: string
  dg_tenant :: string
  dg_key :: string
  dg_digest :: string
  dg_created_at :: int
  dg_updated_at :: int

record dag_job_row =
  dj_dag :: string
  dj_job :: string
  dj_node_key :: string
  dj_name :: string

record worker_row =
  wk_id :: string
  wk_capacity :: int
  wk_registered_at :: int
  wk_last_heartbeat_at :: int

record db =
  jobs :: "job_row list"
  job_dependencies :: "(string \<times> string) list"
  attempts :: "attempt_row list"
  job_completions :: "completion_row list"
  dead_letters :: "dead_row list"
  tenant_limits :: "tenant_row list"
  queue_state :: "queue_row list"
  counters :: "(string \<times> int) list"
  events :: "event_row list"
  idempotency_requests :: "idempotency_row list"
  decision_log :: "decision_row list"
  cron_triggers :: "cron_row list"
  cron_occurrences :: "occurrence_row list"
  redis_deliveries :: "redis_row list"
  operation_requests :: "operation_row list"
  audit_events :: "audit_row list"
  dag_runs :: "dag_run_row list"
  dag_jobs :: "dag_job_row list"
  workers :: "worker_row list"

definition attempt_key :: "attempt_row \<Rightarrow> string \<times> int" where
  "attempt_key a = (at_job a, at_no a)"

definition open_attempt :: "AttemptState \<Rightarrow> bool" where
  "open_attempt s \<longleftrightarrow> s = AttemptLeased \<or> s = AttemptRunning"

definition queue_row_key :: "queue_row \<Rightarrow> string \<times> string" where
  "queue_row_key q = (qu_tenant q, qu_name q)"

definition empty_db :: db where
  "empty_db = \<lparr>jobs = [], job_dependencies = [], attempts = [], job_completions = [], dead_letters = [],
     tenant_limits = [], queue_state = [],
     counters = [(''ready_seq'', 0), (''scheduler_seq'', 0), (''scheduler_cursor'', 0)],
     events = [], idempotency_requests = [], decision_log = [], cron_triggers = [], cron_occurrences = [],
     redis_deliveries = [], operation_requests = [], audit_events = [], dag_runs = [], dag_jobs = [],
     workers = []\<rparr>"

definition sql_constraint :: go_err where
  "sql_constraint = ErrNew ''constraint failed''"

definition sql_no_rows :: go_err where
  "sql_no_rows = ErrNew ''sql: no rows in result set''"

subsection \<open>Time\<close>

definition timeToDB :: "int \<Rightarrow> int" where
  "timeToDB value = int64 value"

definition timeFromDB :: "int \<Rightarrow> int" where
  "timeFromDB value = value"

subsection \<open>The store\<close>

record store =
  s_db :: db
  s_default_depth :: int
  s_default_slots :: int
  s_max_slot_cost :: int
  s_allow_shell :: bool
  s_attempt_start_commits :: u64
  s_completion_commits :: u64
  s_logical_origin :: int
  s_last_time :: int

record Options =
  o_default_depth :: int
  o_default_slots :: int
  o_max_slot_cost :: int
  o_allow_shell :: bool

definition DefaultOptions :: Options where
  "DefaultOptions = \<lparr>o_default_depth = 100000, o_default_slots = 0, o_max_slot_cost = 64, o_allow_shell = False\<rparr>"

text \<open>\<open>None\<close> is SQL NULL; MAX ignores it.\<close>

definition sql_max :: "int option list \<Rightarrow> int option" where
  "sql_max xs = (case map the (filter (\<lambda>x. x \<noteq> None) xs) of [] \<Rightarrow> None | y # ys \<Rightarrow> Some (fold max ys y))"

definition persisted_time :: "db \<Rightarrow> int option" where
  "persisted_time db = sql_max
     [sql_max (map (Some \<circ> j_updated_at) (jobs db)),
      sql_max (map (Some \<circ> at_heartbeat_at) (attempts db)),
      sql_max (map at_completed_at (attempts db)),
      sql_max (map (Some \<circ> cp_committed_at) (job_completions db)),
      sql_max (map (Some \<circ> ev_at) (events db)),
      sql_max (map (Some \<circ> op_committed_at) (operation_requests db)),
      sql_max (map (Some \<circ> ae_occurred_at) (audit_events db)),
      sql_max (map (Some \<circ> dg_updated_at) (dag_runs db))]"

definition initializeLogicalClock :: "store \<Rightarrow> store" where
  "initializeLogicalClock s =
     (let origin = (case persisted_time (s_db s) of None \<Rightarrow> 0 | Some t \<Rightarrow> t)
      in s\<lparr>s_logical_origin := origin, s_last_time := origin\<rparr>)"

text \<open>Opening a database file whose migrations are applied; a fresh file holds \<open>empty_db\<close>.\<close>

definition OpenWithOptions :: "db \<Rightarrow> Options \<Rightarrow> store result" where
  "OpenWithOptions file options =
     (if o_default_depth options < 1 then Inl (ErrNew ''default tenant depth must be positive'')
      else if o_default_slots options < 0 then Inl (ErrNew ''default tenant slots must not be negative'')
      else if o_max_slot_cost options < 1 then Inl (ErrNew ''maximum slot cost must be positive'')
      else Inr (initializeLogicalClock
        \<lparr>s_db = file, s_default_depth = o_default_depth options, s_default_slots = o_default_slots options,
         s_max_slot_cost = o_max_slot_cost options, s_allow_shell = o_allow_shell options,
         s_attempt_start_commits = 0, s_completion_commits = 0, s_logical_origin = 0, s_last_time = 0\<rparr>))"

text \<open>\<open>elapsed\<close> is \<^verbatim>\<open>time.Since(s.clockOrigin)\<close> in nanoseconds.\<close>

definition writeTime :: "store \<Rightarrow> int \<Rightarrow> int \<Rightarrow> int \<times> store" where
  "writeTime s requested elapsed =
     (let candidate0 = int64 requested;
          monotonic = int64 (s_logical_origin s + elapsed);
          candidate1 = (if monotonic > candidate0 then monotonic else candidate0);
          candidate = (if candidate1 < s_last_time s then s_last_time s else candidate1)
      in (candidate, s\<lparr>s_last_time := candidate\<rparr>))"

definition transact :: "(int \<Rightarrow> db \<Rightarrow> ('a \<times> db) result) \<Rightarrow> int \<Rightarrow> int \<Rightarrow> store \<Rightarrow> 'a result \<times> store" where
  "transact body requested elapsed s =
     (let (now, s1) = writeTime s requested elapsed
      in case body now (s_db s1) of
           Inl e \<Rightarrow> (Inl e, s1)
         | Inr (x, db') \<Rightarrow> (Inr x, s1\<lparr>s_db := db'\<rparr>))"

subsection \<open>Helpers of \<^verbatim>\<open>sqlite.go\<close>\<close>

definition scanJob :: "job_row \<Rightarrow> Job" where
  "scanJob r = Job.truncate r"

definition nextReadySeq :: "db \<Rightarrow> (int \<times> db) result" where
  "nextReadySeq db =
     (let p = (\<lambda>c. fst c = ''ready_seq'');
          cs = update_where p (\<lambda>c. (fst c, snd c + 1)) (counters db)
      in if affected p (counters db) \<noteq> 1 then Inl (ErrNew ''ready sequence counter is missing'')
         else case lookup fst ''ready_seq'' cs of
                None \<Rightarrow> Inl (ErrWrap ''read ready sequence: %w'' sql_no_rows)
              | Some c \<Rightarrow> Inr (snd c, db\<lparr>counters := cs\<rparr>))"

definition job_exists :: "db \<Rightarrow> string \<Rightarrow> bool" where
  "job_exists db i \<longleftrightarrow> lookup j_id i (jobs db) \<noteq> None"

definition appendEvent :: "string \<Rightarrow> string \<Rightarrow> JobState \<Rightarrow> int \<Rightarrow> int \<Rightarrow> json \<Rightarrow> db \<Rightarrow> db result" where
  "appendEvent jobID eventType state stateVersion now payload db =
     (if \<not> job_exists db jobID then Inl (ErrWrap ''append %s event: %w'' sql_constraint)
      else Inr (db\<lparr>events := events db @
        [\<lparr>ev_seq = int (length (events db)) + 1, ev_job = jobID, ev_type = eventType, ev_state = state,
          ev_version = stateVersion, ev_at = timeToDB now, ev_payload = payload\<rparr>]\<rparr>))"

end
