(* ===== verification/Store_View.thy ===== *)
theory Store_View
  imports Store_Schema
begin

text \<open>
  The abstraction from the tables of the store to the \<open>yard\<close> of theory \<open>Lifecycle\<close>, the key constraints of the
  tables, and how the table operations act on the abstraction.

  \<open>refines f db db'\<close> is the contract every transaction body meets: it keeps the keys unique, and what it does
  to the yard is a sequence of steps.
\<close>

section \<open>Definitions\<close>

definition view :: "job_row \<Rightarrow> jview" where
  "view r =
     \<lparr>v_tenant = j_tenant r, v_queue = j_queue r, v_cost = j_slot_cost r, v_state = j_state r,
      v_version = j_state_version r, v_attempt = j_attempt_no r, v_generation = j_lease_generation r,
      v_ready = j_ready_seq r\<rparr>"

definition attempt_view :: "attempt_row \<Rightarrow> int \<times> bool" where
  "attempt_view a = (at_generation a, open_attempt (at_state a))"

definition outcome_view :: "completion_row \<Rightarrow> JobState \<times> int" where
  "outcome_view k = (cp_state k, cp_version k)"

definition ready_counter :: "db \<Rightarrow> int" where
  "ready_counter db = (case lookup fst ''ready_seq'' (counters db) of None \<Rightarrow> 0 | Some c \<Rightarrow> snd c)"

definition abs :: "db \<Rightarrow> yard" where
  "abs db =
     \<lparr>y_jobs = (\<lambda>i. map_option view (lookup j_id i (jobs db))),
      y_edges = set (job_dependencies db),
      y_attempts = (\<lambda>k. map_option attempt_view (lookup attempt_key k (attempts db))),
      y_ledger = (\<lambda>i. map_option outcome_view (lookup cp_job i (job_completions db))),
      y_dead = dl_job ` set (dead_letters db),
      y_tenant = (\<lambda>t. map_option te_active_slots (lookup te_id t (tenant_limits db))),
      y_queue = (\<lambda>k. map_option qu_active_slots (lookup queue_row_key k (queue_state db))),
      y_limit = (\<lambda>t. map_option te_max_slots (lookup te_id t (tenant_limits db))),
      y_ready = ready_counter db\<rparr>"

definition keys_ok :: "db \<Rightarrow> bool" where
  "keys_ok db \<longleftrightarrow> distinct (map j_id (jobs db)) \<and> distinct (map attempt_key (attempts db)) \<and>
     distinct (map cp_job (job_completions db)) \<and> distinct (map dl_job (dead_letters db)) \<and>
     distinct (map te_id (tenant_limits db)) \<and> distinct (map queue_row_key (queue_state db)) \<and>
     distinct (map fst (counters db)) \<and> lookup fst ''ready_seq'' (counters db) \<noteq> None \<and>
     (\<forall>t \<in> set (tenant_limits db). 0 \<le> te_max_slots t)"

definition db_inv :: "db \<Rightarrow> bool" where
  "db_inv db \<longleftrightarrow> keys_ok db \<and> yard_inv (abs db)"

definition refines :: "bool \<Rightarrow> db \<Rightarrow> db \<Rightarrow> bool" where
  "refines f db db' \<longleftrightarrow> (db_inv db \<longrightarrow> keys_ok db' \<and> ysteps f (abs db) (abs db'))"

section \<open>Lemmas\<close>

subsection \<open>Maps of tables\<close>

lemma table_map_update:
  assumes "lookup key k0 rows = Some r" and "p r" and "\<And>x. p x \<Longrightarrow> key x = k0" and "\<And>x. key (f x) = key x"
  shows "(\<lambda>k. map_option g (lookup key k (update_where p f rows))) =
    (\<lambda>k. map_option g (lookup key k rows))(k0 \<mapsto> g (f r))"
proof (rule ext)
  fix k
  have l: "lookup key k (update_where p f rows) = map_option (\<lambda>r. if p r then f r else r) (lookup key k rows)"
    by (rule lookup_update_where) (simp add: assms(4))
  show "map_option g (lookup key k (update_where p f rows)) = ((\<lambda>k. map_option g (lookup key k rows))(k0 \<mapsto> g (f r))) k"
  proof (cases "k = k0")
    case True
    then show ?thesis unfolding l using assms(1,2) by simp
  next
    case False
    have "\<not> p x" if "lookup key k rows = Some x" for x
      using lookup_Some_in[OF that] assms(3)[of x] False by auto
    then show ?thesis using False by (cases "lookup key k rows") (auto simp: l)
  qed
qed

lemma table_map_invisible:
  assumes "\<And>x. p x \<Longrightarrow> g (f x) = g x" and "\<And>x. key (f x) = key x"
  shows "(\<lambda>k. map_option g (lookup key k (update_where p f rows))) = (\<lambda>k. map_option g (lookup key k rows))"
proof (rule ext)
  fix k
  have "lookup key k (update_where p f rows) = map_option (\<lambda>r. if p r then f r else r) (lookup key k rows)"
    by (rule lookup_update_where) (simp add: assms(2))
  then show "map_option g (lookup key k (update_where p f rows)) = map_option g (lookup key k rows)"
    using assms(1) by (cases "lookup key k rows") auto
qed

lemma table_map_insert:
  assumes "lookup key (key r) rows = None"
  shows "(\<lambda>k. map_option g (lookup key k (rows @ [r]))) = (\<lambda>k. map_option g (lookup key k rows))(key r \<mapsto> g r)"
  by (rule ext) (use assms in \<open>auto simp: lookup_snoc split: option.splits\<close>)

text \<open>An UPDATE that names the key of one row and affects one row changes that row.\<close>

lemma affected_one:
  assumes "distinct (map key rows)" and "affected p rows = 1" and "\<And>x. p x \<Longrightarrow> key x = k"
  obtains r where "lookup key k rows = Some r" and "p r"
proof -
  have "(\<lambda>r. key r = k \<and> p r) = p" using assms(3) by auto
  then have "affected (\<lambda>r. key r = k \<and> p r) rows = 1" using assms(2) by simp
  then have one: "(case lookup key k rows of None \<Rightarrow> 0 | Some r \<Rightarrow> if p r then 1 else 0) = (1 :: nat)"
    unfolding affected_key[OF assms(1)] .
  show thesis
  proof (cases "lookup key k rows")
    case (Some r)
    then show thesis using one that[of r] by (cases "p r") simp_all
  qed (use one in simp)
qed

lemma affected_oneI:
  assumes "distinct (map key rows)" and "lookup key k rows = Some r" and "p r" and "\<And>x. p x \<Longrightarrow> key x = k"
  shows "affected p rows = 1"
proof -
  have "affected (\<lambda>r. key r = k \<and> p r) rows = 1" using affected_key[OF assms(1), of k p] assms(2,3) by simp
  moreover have "(\<lambda>r. key r = k \<and> p r) = p" using assms(4) by auto
  ultimately show ?thesis by simp
qed

lemma distinct_update_where:
  "distinct (map key rows) \<Longrightarrow> (\<And>r. key (f r) = key r) \<Longrightarrow> distinct (map key (update_where p f rows))"
  by (simp add: map_key_update_where)

subsection \<open>The abstraction\<close>

lemma abs_sel:
  "y_jobs (abs db) = (\<lambda>i. map_option view (lookup j_id i (jobs db)))"
  "y_edges (abs db) = set (job_dependencies db)"
  "y_attempts (abs db) = (\<lambda>k. map_option attempt_view (lookup attempt_key k (attempts db)))"
  "y_ledger (abs db) = (\<lambda>i. map_option outcome_view (lookup cp_job i (job_completions db)))"
  "y_dead (abs db) = dl_job ` set (dead_letters db)"
  "y_tenant (abs db) = (\<lambda>t. map_option te_active_slots (lookup te_id t (tenant_limits db)))"
  "y_queue (abs db) = (\<lambda>k. map_option qu_active_slots (lookup queue_row_key k (queue_state db)))"
  "y_limit (abs db) = (\<lambda>t. map_option te_max_slots (lookup te_id t (tenant_limits db)))"
  "y_ready (abs db) = ready_counter db"
  by (simp_all add: abs_def)

lemma view_sel [simp]:
  "v_tenant (view r) = j_tenant r" "v_queue (view r) = j_queue r" "v_cost (view r) = j_slot_cost r"
  "v_state (view r) = j_state r" "v_version (view r) = j_state_version r" "v_attempt (view r) = j_attempt_no r"
  "v_generation (view r) = j_lease_generation r" "v_ready (view r) = j_ready_seq r"
  by (simp_all add: view_def)

text \<open>Tables that the abstraction does not look at.\<close>

lemma abs_other_tables [simp]:
  "abs (db\<lparr>events := x1\<rparr>) = abs db" "abs (db\<lparr>idempotency_requests := x2\<rparr>) = abs db"
  "abs (db\<lparr>decision_log := x3\<rparr>) = abs db" "abs (db\<lparr>cron_triggers := x4\<rparr>) = abs db"
  "abs (db\<lparr>cron_occurrences := x5\<rparr>) = abs db" "abs (db\<lparr>redis_deliveries := x6\<rparr>) = abs db"
  "abs (db\<lparr>operation_requests := x7\<rparr>) = abs db" "abs (db\<lparr>audit_events := x8\<rparr>) = abs db"
  "abs (db\<lparr>dag_runs := x9\<rparr>) = abs db" "abs (db\<lparr>dag_jobs := x10\<rparr>) = abs db" "abs (db\<lparr>workers := x11\<rparr>) = abs db"
  by (simp_all add: abs_def ready_counter_def)

lemma keys_ok_other_tables [simp]:
  "keys_ok (db\<lparr>events := x1\<rparr>) = keys_ok db" "keys_ok (db\<lparr>idempotency_requests := x2\<rparr>) = keys_ok db"
  "keys_ok (db\<lparr>decision_log := x3\<rparr>) = keys_ok db" "keys_ok (db\<lparr>cron_triggers := x4\<rparr>) = keys_ok db"
  "keys_ok (db\<lparr>cron_occurrences := x5\<rparr>) = keys_ok db" "keys_ok (db\<lparr>redis_deliveries := x6\<rparr>) = keys_ok db"
  "keys_ok (db\<lparr>operation_requests := x7\<rparr>) = keys_ok db" "keys_ok (db\<lparr>audit_events := x8\<rparr>) = keys_ok db"
  "keys_ok (db\<lparr>dag_runs := x9\<rparr>) = keys_ok db" "keys_ok (db\<lparr>dag_jobs := x10\<rparr>) = keys_ok db" "keys_ok (db\<lparr>workers := x11\<rparr>) = keys_ok db"
  "keys_ok (db\<lparr>job_dependencies := x12\<rparr>) = keys_ok db"
  by (simp_all add: keys_ok_def)

lemma refines_refl [simp]: "refines f db db"
  by (simp add: refines_def db_inv_def)

lemma refines_inv: "refines f db db' \<Longrightarrow> db_inv db \<Longrightarrow> db_inv db'"
  by (auto simp: refines_def db_inv_def intro: ysteps_inv)

lemma refines_trans: "refines f a b \<Longrightarrow> refines f b c \<Longrightarrow> refines f a c"
  using refines_inv[of f a b] by (auto simp: refines_def)

lemma refines_same: "(keys_ok db \<Longrightarrow> keys_ok db' \<and> abs db' = abs db) \<Longrightarrow> refines f db db'"
  by (simp add: refines_def db_inv_def)

lemma refines_tick:
  "(keys_ok db \<Longrightarrow> keys_ok db' \<and> abs db' = (abs db)\<lparr>y_ready := n\<rparr> \<and> y_ready (abs db) \<le> n) \<Longrightarrow> refines f db db'"
  by (auto simp: refines_def db_inv_def intro: ystep.tick)

lemma refines_evolves: "refines f db db' \<Longrightarrow> db_inv db \<Longrightarrow> evolves (abs db) (abs db')"
  by (auto simp: refines_def intro: ysteps_evolves)

lemma refinesI: "(db_inv db \<Longrightarrow> keys_ok db' \<and> ysteps f (abs db) (abs db')) \<Longrightarrow> refines f db db'"
  by (simp add: refines_def)

lemma ystep_forced: "ystep False Y Y' \<Longrightarrow> ystep f Y Y'"
proof (induction rule: ystep.induct)
  case (move Y i v v' r A')
  have "legal f (parents_succeeded Y i) (y_ready Y + 1) v v'"
    using move(2) by (cases rule: legal.cases) (auto intro: legal.intros)
  then show ?case using move by (intro ystep.move)
qed (auto intro: ystep.intros)

lemma ysteps_forced: "ysteps False Y Y' \<Longrightarrow> ysteps f Y Y'"
  by (induction rule: rtranclp_induct) (auto intro: rtranclp.rtrancl_into_rtrancl ystep_forced)

lemma refines_forced: "refines False db db' \<Longrightarrow> refines f db db'"
  by (auto simp: refines_def intro: ysteps_forced)

lemma refines_foldE:
  assumes "foldE g xs db = Inr db'" and "\<And>x u v. x \<in> set xs \<Longrightarrow> refines f db u \<Longrightarrow> g x u = Inr v \<Longrightarrow> refines f u v"
  shows "refines f db db'"
  by (rule foldE_invariant[OF assms(1)]) (auto intro: refines_trans assms(2))

subsection \<open>Helpers of \<^verbatim>\<open>sqlite.go\<close>\<close>

lemma lookup_keys:
  "keys_ok db \<Longrightarrow> r \<in> set (jobs db) \<Longrightarrow> lookup j_id (j_id r) (jobs db) = Some r"
  by (simp add: keys_ok_def lookup_distinct)

lemma appendEvent_Inr:
  "appendEvent i t s n now p db = Inr db' \<Longrightarrow> job_exists db i \<and> (\<exists>x. db' = db\<lparr>events := x\<rparr>)"
  by (auto simp: appendEvent_def split: if_splits)

lemma appendEvent_view:
  "appendEvent i t s n now p db = Inr db' \<Longrightarrow> abs db' = abs db \<and> keys_ok db' = keys_ok db \<and> jobs db' = jobs db"
  by (auto dest!: appendEvent_Inr)

lemma nextReadySeq_view:
  assumes "nextReadySeq db = Inr (n, db')" and "keys_ok db"
  shows "n = ready_counter db + 1 \<and> ready_counter db' = n \<and> keys_ok db' \<and> abs db' = (abs db)\<lparr>y_ready := n\<rparr> \<and>
    (\<exists>x. db' = db\<lparr>counters := x\<rparr>)"
proof -
  let ?p = "\<lambda>c :: string \<times> int. fst c = ''ready_seq''" let ?f = "\<lambda>c :: string \<times> int. (fst c, snd c + 1)"
  let ?cs = "update_where ?p ?f (counters db)"
  obtain c where c: "lookup fst ''ready_seq'' (counters db) = Some c"
    using assms(2) by (auto simp: keys_ok_def)
  have l: "lookup fst ''ready_seq'' ?cs = Some (fst c, snd c + 1)"
    using c lookup_Some_in[OF c] by (simp add: lookup_update_where)
  have db': "n = snd c + 1" "db' = db\<lparr>counters := ?cs\<rparr>"
    using assms(1) l by (auto simp: nextReadySeq_def Let_def split: if_splits)
  have "keys_ok db'"
    using assms(2) l by (simp add: db' keys_ok_def distinct_update_where)
  moreover have "ready_counter db' = n" using l by (simp add: db' ready_counter_def)
  moreover have "ready_counter db + 1 = n" using c by (simp add: db' ready_counter_def)
  ultimately show ?thesis by (auto simp: db' abs_def)
qed

lemma job_exists_abs: "job_exists db i \<longleftrightarrow> y_jobs (abs db) i \<noteq> None"
  by (simp add: job_exists_def abs_sel)

lemma abs_job: "lookup j_id i (jobs db) = Some r \<Longrightarrow> y_jobs (abs db) i = Some (view r)"
  by (simp add: abs_sel)

lemma abs_job_inv:
  "db_inv db \<Longrightarrow> lookup j_id i (jobs db) = Some r \<Longrightarrow> job_inv (abs db) i (view r)"
  using yard_invD(1)[of "abs db" i "view r"] by (simp add: db_inv_def abs_job)

text \<open>A row read at the start of a transaction still describes the job as long as its version is the same.\<close>

lemma stale_row:
  assumes "refines f db0 db" and "db_inv db0" and "row \<in> set (jobs db0)"
    and "lookup j_id (j_id row) (jobs db) = Some r" and "j_state_version r = j_state_version row"
  shows "view r = view row"
proof -
  have "y_jobs (abs db0) (j_id row) = Some (view row)"
    using assms(2,3) by (intro abs_job lookup_keys) (auto simp: db_inv_def)
  then show ?thesis
    using evolves_same_version[OF refines_evolves[OF assms(1,2)] _ abs_job[OF assms(4)]] assms(5) by simp
qed

text \<open>Changing one job row.\<close>

lemma update_job_view:
  assumes "keys_ok db" and "affected p (jobs db) = 1" and "\<And>x. p x \<Longrightarrow> j_id x = i" and "\<And>x. j_id (f x) = j_id x"
  obtains r where "lookup j_id i (jobs db) = Some r" and "p r"
    and "abs (db\<lparr>jobs := update_where p f (jobs db)\<rparr>) = put_job i (view (f r)) (abs db)"
    and "keys_ok (db\<lparr>jobs := update_where p f (jobs db)\<rparr>)"
proof -
  have d: "distinct (map j_id (jobs db))" using assms(1) by (simp add: keys_ok_def)
  obtain r where r: "lookup j_id i (jobs db) = Some r" "p r"
    by (rule affected_one[OF d assms(2,3)])
  have "y_jobs (abs (db\<lparr>jobs := update_where p f (jobs db)\<rparr>)) = (y_jobs (abs db))(i \<mapsto> view (f r))"
    using table_map_update[where p = p and f = f and g = view, OF r assms(3,4)] by (simp add: abs_sel)
  then have a: "abs (db\<lparr>jobs := update_where p f (jobs db)\<rparr>) = put_job i (view (f r)) (abs db)"
    by (intro yard.equality) (simp_all add: abs_sel ready_counter_def)
  have "keys_ok (db\<lparr>jobs := update_where p f (jobs db)\<rparr>)"
    using assms(1,4) by (simp add: keys_ok_def distinct_update_where)
  with r a show thesis by (rule that)
qed

end
