(* ===== verification/Dag.thy ===== *)
theory Dag
  imports Domain
begin

text \<open>
  \<^verbatim>\<open>internal/dag/dag.go\<close>: the topological order of a workflow by Kahn's algorithm.

  A Go map from keys to in-degrees is an association list; reading a missing key gives 0 and
  decrementing it stores -1, as in Go. The loop \<open>kahn\<close> is shared with \<open>validateWorkflow\<close> of the
  store, which runs the same algorithm over node indexes with a first-in first-out queue; the
  two differ in the position at which a released node enters the queue, the parameter \<open>pos\<close>.
  The locale \<open>ready_queue\<close> is what the correctness proof needs of that position.
\<close>

section \<open>Definitions\<close>

subsection \<open>Kahn's loop\<close>

definition insert_at :: "nat \<Rightarrow> 'k \<Rightarrow> 'k list \<Rightarrow> 'k list" where
  "insert_at i x xs = take i xs @ [x] @ drop i xs"

fun decrement :: "'k \<Rightarrow> ('k \<times> int) list \<Rightarrow> ('k \<times> int) list" where
  "decrement k [] = [(k, -1)]"
| "decrement k ((k', d) # r) = (if k' = k then (k', d - 1) # r else (k', d) # decrement k r)"

definition degree :: "('k \<times> int) list \<Rightarrow> 'k \<Rightarrow> int" where
  "degree m k = (case map_of m k of None \<Rightarrow> 0 | Some d \<Rightarrow> d)"

fun release_children :: "('k list \<Rightarrow> 'k \<Rightarrow> nat) \<Rightarrow> 'k list \<Rightarrow> 'k list \<Rightarrow> ('k \<times> int) list \<Rightarrow>
    'k list \<times> ('k \<times> int) list" where
  "release_children pos [] ready m = (ready, m)"
| "release_children pos (c # cs) ready m =
     (let m' = decrement c m
      in release_children pos cs (if degree m' c = 0 then insert_at (pos ready c) c ready else ready) m')"

definition positives :: "('k \<times> int) list \<Rightarrow> nat" where
  "positives m = length (filter (\<lambda>(k, d). 0 < d) m)"

lemma positives_decrement:
  "positives (decrement c m) + (if degree (decrement c m) c = 0 then 1 else 0) \<le> positives m"
  by (induction m) (auto simp: positives_def degree_def)

lemma release_children_measure:
  "release_children pos cs ready m = (ready', m') \<Longrightarrow>
   length ready' + positives m' \<le> length ready + positives m"
proof (induction cs arbitrary: ready m)
  case Nil
  then show ?case by simp
next
  case (Cons c cs)
  show ?case
    using Cons.IH[OF Cons.prems[unfolded release_children.simps Let_def]] positives_decrement[of c m]
    by (auto simp: insert_at_def split: if_splits)
qed

function kahn :: "('k list \<Rightarrow> 'k \<Rightarrow> nat) \<Rightarrow> ('k \<Rightarrow> 'k list) \<Rightarrow> 'k list \<Rightarrow> ('k \<times> int) list \<Rightarrow>
    'k list \<Rightarrow> 'k list" where
  "kahn pos kids [] m order = order"
| "kahn pos kids (k # ready) m order =
     (case release_children pos (kids k) ready m of
        (ready', m') \<Rightarrow> kahn pos kids ready' m' (order @ [k]))"
  by pat_completeness auto
termination
  by (relation "measure (\<lambda>(pos, kids, ready, m, order). length ready + positives m)")
     (auto dest!: release_children_measure[OF sym])

subsection \<open>TopologicalOrder\<close>

record Node =
  n_key :: string
  n_depends_on :: "string list"

definition SearchStrings :: "string list \<Rightarrow> string \<Rightarrow> nat" where
  "SearchStrings values value = length (takeWhile (\<lambda>v. v < value) values)"

definition insertSorted :: "string list \<Rightarrow> string \<Rightarrow> string list" where
  "insertSorted values value = insert_at (SearchStrings values value) value values"

fun declare_nodes :: "Node list \<Rightarrow> (string \<times> int) list \<Rightarrow> (string \<times> int) list result" where
  "declare_nodes [] m = Inr m"
| "declare_nodes (n # ns) m =
     (if n_key n = '''' then Inl (ErrNew ''workflow node key is required'')
      else if map_of m (n_key n) \<noteq> None then Inl (ErrNew ''duplicate workflow node %q'')
      else declare_nodes ns (m @ [(n_key n, 0)]))"

fun increment :: "'k \<Rightarrow> ('k \<times> int) list \<Rightarrow> ('k \<times> int) list" where
  "increment k [] = [(k, 1)]"
| "increment k ((k', d) # r) = (if k' = k then (k', d + 1) # r else (k', d) # increment k r)"

fun add_dependencies :: "string \<Rightarrow> string list \<Rightarrow> string list \<Rightarrow> (string \<times> int) list \<times> (string \<Rightarrow> string list) \<Rightarrow>
    ((string \<times> int) list \<times> (string \<Rightarrow> string list)) result" where
  "add_dependencies key [] seen st = Inr st"
| "add_dependencies key (d # ds) seen (m, children) =
     (if map_of m d = None then Inl (ErrNew ''node %q depends on unknown node %q'')
      else if d \<in> set seen then Inl (ErrNew ''node %q repeats dependency %q'')
      else add_dependencies key ds (d # seen) (increment key m, children(d := children d @ [key])))"

fun add_edges :: "Node list \<Rightarrow> (string \<times> int) list \<times> (string \<Rightarrow> string list) \<Rightarrow>
    ((string \<times> int) list \<times> (string \<Rightarrow> string list)) result" where
  "add_edges [] st = Inr st"
| "add_edges (n # ns) st = bindE (add_dependencies (n_key n) (n_depends_on n) [] st) (add_edges ns)"

definition TopologicalOrder :: "Node list \<Rightarrow> string list result" where
  "TopologicalOrder nodes =
     (if nodes = [] then Inl (ErrNew ''workflow requires at least one node'')
      else bindE (declare_nodes nodes []) (\<lambda>m0.
           bindE (add_edges nodes (m0, \<lambda>_. [])) (\<lambda>(m, children).
             let ready = sort (map fst (filter (\<lambda>(k, d). d = 0) m));
                 order = kahn SearchStrings (\<lambda>k. sort (children k)) ready m []
             in if length order \<noteq> length nodes then Inl ErrCycleDetected else Inr order)))"

text \<open>The specification side: the dependency relation of a workflow, and what it means for a list to
  be its topological order.\<close>

definition edges :: "'k list \<Rightarrow> ('k \<Rightarrow> 'k list) \<Rightarrow> ('k \<times> 'k) set" where
  "edges K deps = {(d, k). k \<in> set K \<and> d \<in> set (deps k)}"

definition topo_sorted :: "('k \<Rightarrow> 'k list) \<Rightarrow> 'k list \<Rightarrow> bool" where
  "topo_sorted deps order \<longleftrightarrow> (\<forall>i < length order. set (deps (order ! i)) \<subseteq> set (take i order))"

definition node_deps :: "Node list \<Rightarrow> string \<Rightarrow> string list" where
  "node_deps nodes k = (case lookup n_key k nodes of None \<Rightarrow> [] | Some n \<Rightarrow> n_depends_on n)"

definition well_formed_nodes :: "Node list \<Rightarrow> bool" where
  "well_formed_nodes nodes \<longleftrightarrow>
     nodes \<noteq> [] \<and> distinct (map n_key nodes) \<and> '''' \<notin> n_key ` set nodes \<and>
     (\<forall>n \<in> set nodes. distinct (n_depends_on n) \<and> set (n_depends_on n) \<subseteq> n_key ` set nodes)"

section \<open>Lemmas\<close>

subsection \<open>Degree maps\<close>

lemma degree_decrement: "degree (decrement c m) k = degree m k - (if k = c then 1 else 0)"
  by (induction m) (auto simp: degree_def)

lemma degree_increment: "degree (increment c m) k = degree m k + (if k = c then 1 else 0)"
  by (induction m) (auto simp: degree_def)

lemma mset_insert_at [simp]: "mset (insert_at i x xs) = add_mset x (mset xs)"
proof -
  have "mset (take i xs) + mset (drop i xs) = mset xs"
    by (metis append_take_drop_id mset_append)
  then show ?thesis by (simp add: insert_at_def)
qed

lemma set_insert_at [simp]: "set (insert_at i x xs) = insert x (set xs)"
  by (metis mset_insert_at set_mset_add_mset_insert set_mset_mset)

lemma distinct_insert_at [simp]: "distinct (insert_at i x xs) \<longleftrightarrow> x \<notin> set xs \<and> distinct xs"
proof -
  have "mset (insert_at i x xs) = mset (x # xs)" by simp
  then have "distinct (insert_at i x xs) = distinct (x # xs)" by (rule mset_eq_imp_distinct_iff)
  then show ?thesis by simp
qed

lemma release_children_degree:
  "distinct cs \<Longrightarrow> release_children pos cs ready m = (ready', m') \<Longrightarrow>
   degree m' k = degree m k - (if k \<in> set cs then 1 else 0)"
proof (induction cs arbitrary: ready m)
  case Nil
  then show ?case by simp
next
  case (Cons c cs)
  from Cons.prems have d: "distinct cs" and c: "c \<notin> set cs" by auto
  show ?case
    using Cons.IH[OF d Cons.prems(2)[unfolded release_children.simps Let_def]] c
    by (auto simp: degree_decrement)
qed

lemma release_children_set:
  "distinct cs \<Longrightarrow> release_children pos cs ready m = (ready', m') \<Longrightarrow>
   set ready' = set ready \<union> {c \<in> set cs. degree m c = 1}"
proof (induction cs arbitrary: ready m)
  case Nil
  then show ?case by simp
next
  case (Cons c cs)
  from Cons.prems have d: "distinct cs" and c: "c \<notin> set cs" by auto
  show ?case
    using Cons.IH[OF d Cons.prems(2)[unfolded release_children.simps Let_def]] c
    by (auto simp: degree_decrement split: if_splits)
qed

lemma release_children_distinct:
  "distinct cs \<Longrightarrow> release_children pos cs ready m = (ready', m') \<Longrightarrow> distinct ready \<Longrightarrow>
   (\<forall>c \<in> set cs. degree m c = 1 \<longrightarrow> c \<notin> set ready) \<Longrightarrow> distinct ready'"
proof (induction cs arbitrary: ready m)
  case Nil
  then show ?case by simp
next
  case (Cons c cs)
  from Cons.prems have d: "distinct cs" and c: "c \<notin> set cs" by auto
  show ?case
    by (rule Cons.IH[OF d Cons.prems(2)[unfolded release_children.simps Let_def]])
       (use Cons.prems c in \<open>auto simp: degree_decrement split: if_splits\<close>)
qed

subsection \<open>Correctness of Kahn's loop\<close>

definition graph_ok :: "'k list \<Rightarrow> ('k \<Rightarrow> 'k list) \<Rightarrow> ('k \<Rightarrow> 'k list) \<Rightarrow> bool" where
  "graph_ok K deps kids \<longleftrightarrow>
     (\<forall>k \<in> set K. set (deps k) \<subseteq> set K) \<and>
     (\<forall>p \<in> set K. distinct (kids p) \<and> set (kids p) = {k \<in> set K. p \<in> set (deps k)})"

definition available :: "'k list \<Rightarrow> ('k \<Rightarrow> 'k list) \<Rightarrow> 'k list \<Rightarrow> 'k set" where
  "available K deps order = {k \<in> set K. k \<notin> set order \<and> set (deps k) \<subseteq> set order}"

definition kahn_inv :: "'k list \<Rightarrow> ('k \<Rightarrow> 'k list) \<Rightarrow> 'k list \<Rightarrow> 'k list \<Rightarrow> ('k \<times> int) list \<Rightarrow> bool" where
  "kahn_inv K deps order ready m \<longleftrightarrow>
     distinct order \<and> distinct ready \<and> set order \<subseteq> set K \<and> set ready = available K deps order \<and>
     (\<forall>k \<in> set K. degree m k = int (card (set (deps k) - set order))) \<and> topo_sorted deps order"

definition greedy :: "('k \<Rightarrow> 'k \<Rightarrow> bool) \<Rightarrow> 'k list \<Rightarrow> ('k \<Rightarrow> 'k list) \<Rightarrow> 'k list \<Rightarrow> bool" where
  "greedy before K deps order \<longleftrightarrow>
     (\<forall>i < length order. \<forall>x \<in> available K deps (take i order). before (order ! i) x)"

lemma topo_sorted_member: "topo_sorted deps order \<Longrightarrow> x \<in> set order \<Longrightarrow> set (deps x) \<subseteq> set order"
  unfolding topo_sorted_def by (metis in_set_conv_nth set_take_subset subset_trans)

lemma topo_sorted_snoc:
  "topo_sorted deps order \<Longrightarrow> set (deps k) \<subseteq> set order \<Longrightarrow> topo_sorted deps (order @ [k])"
  by (auto simp: topo_sorted_def nth_append less_Suc_eq)

lemma greedy_snoc:
  "greedy before K deps order \<Longrightarrow> (\<And>x. x \<in> available K deps order \<Longrightarrow> before k x) \<Longrightarrow>
   greedy before K deps (order @ [k])"
  by (auto simp: greedy_def nth_append less_Suc_eq)

lemma card_diff_insert_order:
  "k \<notin> A \<Longrightarrow> int (card (set ds - insert k A)) = int (card (set ds - A)) - (if k \<in> set ds then 1 else 0)"
proof (cases "k \<in> set ds")
  case True
  assume "k \<notin> A"
  then have "set ds - A = insert k (set ds - insert k A)" using True by auto
  then have "card (set ds - A) = Suc (card (set ds - insert k A))"
    by (metis Diff_iff List.finite_set card_insert_disjoint finite_Diff insertI1)
  then show ?thesis using True by simp
next
  case False
  then show ?thesis by (simp add: Diff_insert0)
qed

lemma kahn_inv_step:
  assumes inv: "kahn_inv K deps order (k # ready) m" and g: "graph_ok K deps kids"
    and r: "release_children pos (kids k) ready m = (ready', m')"
  shows "kahn_inv K deps (order @ [k]) ready' m'"
proof -
  from inv have dist: "distinct order" "distinct ready" "k \<notin> set ready" and sub: "set order \<subseteq> set K"
    and rdy: "insert k (set ready) = available K deps order" and topo: "topo_sorted deps order"
    and deg: "\<And>x. x \<in> set K \<Longrightarrow> degree m x = int (card (set (deps x) - set order))"
    by (auto simp: kahn_inv_def)
  have k: "k \<in> set K" "k \<notin> set order" "set (deps k) \<subseteq> set order"
    using rdy by (auto simp: available_def)
  have kids: "distinct (kids k)" "\<And>x. x \<in> set (kids k) \<longleftrightarrow> x \<in> set K \<and> k \<in> set (deps x)"
    using g k(1) by (auto simp: graph_ok_def)
  have fresh: "x \<notin> set order \<and> x \<noteq> k" if "k \<in> set (deps x)" for x
    using topo_sorted_member[OF topo] k that by auto
  have one: "degree m x = 1 \<longleftrightarrow> set (deps x) \<subseteq> insert k (set order)" if "x \<in> set (kids k)" for x
  proof -
    have x: "x \<in> set K" "k \<in> set (deps x)" using that kids(2) by auto
    have "k \<in> set (deps x) - set order" using x k by auto
    then have "card (set (deps x) - set order) = 1 \<longleftrightarrow> set (deps x) - set order = {k}"
      by (metis card_1_singletonE is_singletonI is_singleton_altdef singletonD)
    then show ?thesis using deg[OF x(1)] x(2) k(2) by auto
  qed
  have set': "set ready' = set ready \<union> {c \<in> set (kids k). degree m c = 1}"
    by (rule release_children_set[OF kids(1) r])
  have "set ready' = available K deps (order @ [k])"
  proof
    show "set ready' \<subseteq> available K deps (order @ [k])"
      using rdy dist fresh one kids(2) unfolding set' available_def by auto
    show "available K deps (order @ [k]) \<subseteq> set ready'"
      using rdy one kids(2) unfolding set' available_def by auto
  qed
  moreover have "distinct ready'"
    by (rule release_children_distinct[OF kids(1) r dist(2)])
       (use rdy kids(2) k(2) in \<open>auto simp: available_def\<close>)
  moreover have "degree m' x = int (card (set (deps x) - set (order @ [k])))" if "x \<in> set K" for x
    using release_children_degree[OF kids(1) r, of x] deg[OF that] kids(2)[of x] that
      card_diff_insert_order[OF k(2), of "deps x"] by simp
  ultimately show ?thesis
    using dist sub k topo_sorted_snoc[OF topo k(3)] by (auto simp: kahn_inv_def)
qed

text \<open>The queue of released nodes: \<open>ordered\<close> is kept by removing the head and by inserting at the
  position \<open>pos\<close> computes, and the head of an ordered queue comes \<open>before\<close> every member.\<close>

locale ready_queue =
  fixes pos :: "'k list \<Rightarrow> 'k \<Rightarrow> nat" and ordered :: "'k list \<Rightarrow> bool"
    and before :: "'k \<Rightarrow> 'k \<Rightarrow> bool"
  assumes ordered_tail: "ordered (k # r) \<Longrightarrow> ordered r"
    and ordered_insert: "ordered r \<Longrightarrow> ordered (insert_at (pos r k) k r)"
    and ordered_head: "ordered (k # r) \<Longrightarrow> x \<in> set (k # r) \<Longrightarrow> before k x"
begin

lemma release_children_ordered:
  "release_children pos cs ready m = (ready', m') \<Longrightarrow> ordered ready \<Longrightarrow> ordered ready'"
  by (induction cs arbitrary: ready m) (auto simp: Let_def ordered_insert split: if_splits)

lemma kahn_correct:
  assumes "graph_ok K deps kids" and "kahn_inv K deps order ready m" and "ordered ready"
    and "greedy before K deps order"
  shows "\<exists>m'. kahn_inv K deps (kahn pos kids ready m order) [] m' \<and>
           greedy before K deps (kahn pos kids ready m order)"
  using assms
proof (induction "length ready + positives m" arbitrary: ready m order rule: less_induct)
  case less
  show ?case
  proof (cases ready)
    case Nil
    then show ?thesis using less.prems by auto
  next
    case (Cons k rest)
    obtain ready' m' where r: "release_children pos (kids k) rest m = (ready', m')" by force
    have "kahn_inv K deps (order @ [k]) ready' m'"
      using kahn_inv_step[OF _ less.prems(1) r] less.prems(2) Cons by simp
    moreover have "ordered ready'"
      using release_children_ordered[OF r] ordered_tail less.prems(3) Cons by simp
    moreover have "greedy before K deps (order @ [k])"
    proof (rule greedy_snoc[OF less.prems(4)])
      fix x assume "x \<in> available K deps order"
      then have "x \<in> set (k # rest)" using less.prems(2) Cons by (simp add: kahn_inv_def)
      then show "before k x" using ordered_head[of k rest] less.prems(3) Cons by simp
    qed
    moreover have "length ready' + positives m' < length ready + positives m"
      using release_children_measure[OF r] Cons by simp
    ultimately show ?thesis
      using less.hyps[of ready' m' "order @ [k]"] less.prems(1) r Cons by simp
  qed
qed

end

lemma sorted_insert_at_search: "sorted r \<Longrightarrow> sorted (insert_at (SearchStrings r k) k r)"
proof (induction r)
  case Nil
  then show ?case by (simp add: insert_at_def)
next
  case (Cons v r)
  then show ?case
    by (auto simp: insert_at_def SearchStrings_def dest: in_set_takeD in_set_dropD)
qed

interpretation sorted_queue: ready_queue SearchStrings sorted "(\<le>)"
  by unfold_locales (auto simp: sorted_insert_at_search)

text \<open>A first-in first-out queue, as \<open>validateWorkflow\<close> keeps.\<close>

interpretation fifo_queue: ready_queue "\<lambda>r _. length r" "\<lambda>_. True" "\<lambda>_ _. True"
  by unfold_locales simp_all

text \<open>The loop visits every node exactly when the dependency relation has no cycle.\<close>

lemma topo_sorted_acyclic:
  assumes "distinct order" and "set order = set K" and "topo_sorted deps order"
  shows "acyclic (edges K deps)"
proof -
  let ?idx = "\<lambda>k. SOME i. i < length order \<and> order ! i = k"
  have idx: "?idx k < length order \<and> order ! ?idx k = k" if "k \<in> set order" for k
    using someI_ex[of "\<lambda>i. i < length order \<and> order ! i = k"] that by (auto simp: in_set_conv_nth)
  have "?idx d < ?idx k" if e: "(d, k) \<in> edges K deps" for d k
  proof -
    have k: "k \<in> set order" "d \<in> set (deps k)" using e assms(2) by (auto simp: edges_def)
    then have "d \<in> set (take (?idx k) order)"
      using assms(3) idx[OF k(1)] unfolding topo_sorted_def by force
    then obtain i where i: "i < ?idx k" "i < length order" "order ! i = d"
      by (auto simp: in_set_conv_nth)
    then have "?idx d = i"
      using idx[of d] assms(1) nth_eq_iff_index_eq[of order "?idx d" i] nth_mem[OF i(2)] by simp
    then show ?thesis using i(1) by simp
  qed
  then have "edges K deps \<subseteq> measure ?idx" by auto
  then show ?thesis using acyclic_subset wf_acyclic wf_measure by metis
qed

lemma kahn_inv_complete:
  assumes inv: "kahn_inv K deps order [] m" and g: "\<forall>k \<in> set K. set (deps k) \<subseteq> set K"
    and ac: "acyclic (edges K deps)"
  shows "set order = set K"
proof (rule ccontr)
  assume "set order \<noteq> set K"
  then have ne: "set K - set order \<noteq> {}" using inv by (auto simp: kahn_inv_def)
  have "finite (edges K deps)"
    by (rule finite_subset[of _ "set K \<times> set K"]) (use g in \<open>auto simp: edges_def\<close>)
  then have "wf (edges K deps)" using ac by (rule finite_acyclic_wf)
  then obtain z where z: "z \<in> set K - set order" "\<And>y. (y, z) \<in> edges K deps \<Longrightarrow> y \<notin> set K - set order"
    using ne wf_eq_minimal[THEN iffD1] by (metis equals0I)
  then have "set (deps z) \<subseteq> set order" using g by (auto simp: edges_def)
  then have "z \<in> available K deps order" using z(1) by (auto simp: available_def)
  then show False using inv by (simp add: kahn_inv_def)
qed

lemma kahn_inv_length_iff:
  assumes inv: "kahn_inv K deps order [] m" and g: "\<forall>k \<in> set K. set (deps k) \<subseteq> set K"
    and K: "distinct K"
  shows "length order = length K \<longleftrightarrow> acyclic (edges K deps)"
proof
  assume "length order = length K"
  then have "card (set order) = card (set K)"
    using inv K by (simp add: distinct_card kahn_inv_def)
  then have "set order = set K"
    using inv card_subset_eq[of "set K" "set order"] by (simp add: kahn_inv_def)
  then show "acyclic (edges K deps)" using inv topo_sorted_acyclic unfolding kahn_inv_def by blast
next
  assume "acyclic (edges K deps)"
  then have "set order = set K" by (rule kahn_inv_complete[OF inv g])
  then show "length order = length K"
    using inv K unfolding kahn_inv_def by (metis distinct_card)
qed

subsection \<open>The front end\<close>

lemma declare_nodes_ok:
  "declare_nodes ns m = Inr m' \<longleftrightarrow>
     '''' \<notin> n_key ` set ns \<and> distinct (map n_key ns) \<and> n_key ` set ns \<inter> fst ` set m = {} \<and>
     m' = m @ map (\<lambda>n. (n_key n, 0)) ns"
proof (induction ns arbitrary: m)
  case Nil
  then show ?case by auto
next
  case (Cons n ns)
  show ?case
    by (cases "n_key n = ''''"; cases "n_key n \<in> fst ` set m")
       (use Cons.IH[of "m @ [(n_key n, 0)]"] in \<open>auto simp: map_of_eq_None_iff\<close>)
qed

lemma declare_nodes_err: "declare_nodes ns m = Inl e \<Longrightarrow> e \<noteq> ErrCycleDetected"
  by (induction ns arbitrary: m) (auto split: if_splits)

lemma map_fst_increment: "k \<in> fst ` set m \<Longrightarrow> map fst (increment k m) = map fst m"
  by (induction m) fastforce+

lemma fst_increment: "k \<in> fst ` set m \<Longrightarrow> fst ` set (increment k m) = fst ` set m"
  using map_fst_increment[of k m] by (metis list.set_map)

lemma add_dependencies_ok:
  assumes "key \<in> fst ` set m" and "add_dependencies key ds seen (m, ch) = Inr (m', ch')"
  shows "distinct ds \<and> set ds \<inter> set seen = {} \<and> set ds \<subseteq> fst ` set m \<and> map fst m' = map fst m \<and>
    (\<forall>k. degree m' k = degree m k + (if k = key then int (length ds) else 0)) \<and>
    ch' = (\<lambda>p. if p \<in> set ds then ch p @ [key] else ch p)"
  using assms
proof (induction ds arbitrary: seen m ch)
  case Nil
  then show ?case by auto
next
  case (Cons d ds)
  from Cons.prems(2) have d: "d \<in> fst ` set m" "d \<notin> set seen"
    and rest: "add_dependencies key ds (d # seen) (increment key m, ch(d := ch d @ [key])) = Inr (m', ch')"
    by (auto simp: map_of_eq_None_iff split: if_splits)
  have k: "key \<in> fst ` set (increment key m)" using Cons.prems(1) by (simp add: fst_increment)
  show ?case
    using Cons.IH[OF k rest] Cons.prems(1) d
    by (auto simp: fst_increment map_fst_increment degree_increment fun_eq_iff)
qed

lemma add_dependencies_total:
  assumes "key \<in> fst ` set m" and "distinct ds" and "set ds \<inter> set seen = {}" and "set ds \<subseteq> fst ` set m"
  shows "\<exists>st. add_dependencies key ds seen (m, ch) = Inr st"
  using assms
proof (induction ds arbitrary: seen m ch)
  case Nil
  then show ?case by simp
next
  case (Cons d ds)
  have "\<exists>st. add_dependencies key ds (d # seen) (increment key m, ch(d := ch d @ [key])) = Inr st"
    by (rule Cons.IH) (use Cons.prems in \<open>auto simp: fst_increment\<close>)
  then show ?case using Cons.prems by (auto simp: map_of_eq_None_iff)
qed

lemma add_dependencies_err:
  "add_dependencies key ds seen st = Inl e \<Longrightarrow> e \<noteq> ErrCycleDetected"
  by (induction key ds seen st rule: add_dependencies.induct) (auto split: if_splits)

lemma add_edges_err: "add_edges ns st = Inl e \<Longrightarrow> e \<noteq> ErrCycleDetected"
  by (induction ns arbitrary: st) (auto simp: bindE_Inl_iff dest: add_dependencies_err)

definition deps_of :: "Node list \<Rightarrow> string \<Rightarrow> int" where
  "deps_of ns k = sum_list (map (\<lambda>n. if n_key n = k then int (length (n_depends_on n)) else 0) ns)"

lemma add_edges_ok:
  assumes "n_key ` set ns \<subseteq> fst ` set m" and "add_edges ns (m, ch) = Inr (m', ch')"
  shows "(\<forall>n \<in> set ns. distinct (n_depends_on n) \<and> set (n_depends_on n) \<subseteq> fst ` set m) \<and>
    map fst m' = map fst m \<and> (\<forall>k. degree m' k = degree m k + deps_of ns k) \<and>
    ch' = (\<lambda>p. ch p @ map n_key (filter (\<lambda>n. p \<in> set (n_depends_on n)) ns))"
  using assms
proof (induction ns arbitrary: m ch)
  case Nil
  then show ?case by (auto simp: deps_of_def)
next
  case (Cons n ns)
  from Cons.prems(2) obtain m1 ch1 where
    one: "add_dependencies (n_key n) (n_depends_on n) [] (m, ch) = Inr (m1, ch1)"
    and rest: "add_edges ns (m1, ch1) = Inr (m', ch')"
    by (auto simp: bindE_Inr_iff)
  have n: "n_key n \<in> fst ` set m" using Cons.prems(1) by simp
  note d = add_dependencies_ok[OF n one]
  have f: "fst ` set m1 = fst ` set m" using d by (metis list.set_map)
  have sub: "n_key ` set ns \<subseteq> fst ` set m1" using Cons.prems(1) f by simp
  show ?case using Cons.IH[OF sub rest] d f by (auto simp: deps_of_def fun_eq_iff)
qed

lemma add_edges_total:
  assumes "n_key ` set ns \<subseteq> fst ` set m"
    and "\<forall>n \<in> set ns. distinct (n_depends_on n) \<and> set (n_depends_on n) \<subseteq> fst ` set m"
  shows "\<exists>st. add_edges ns (m, ch) = Inr st"
  using assms
proof (induction ns arbitrary: m ch)
  case Nil
  then show ?case by simp
next
  case (Cons n ns)
  have n: "n_key n \<in> fst ` set m" using Cons.prems(1) by simp
  obtain m1 ch1 where one: "add_dependencies (n_key n) (n_depends_on n) [] (m, ch) = Inr (m1, ch1)"
    using add_dependencies_total[OF n, of "n_depends_on n" "[]" ch] Cons.prems(2) by auto
  have f: "fst ` set m1 = fst ` set m" using add_dependencies_ok[OF n one] by (metis list.set_map)
  then show ?case using Cons.IH[of m1 ch1] Cons.prems one by simp
qed

lemma deps_of_zero: "k \<notin> n_key ` set ns \<Longrightarrow> deps_of ns k = 0"
  by (induction ns) (auto simp: deps_of_def)

lemma deps_of_distinct:
  "distinct (map n_key ns) \<Longrightarrow> deps_of ns k = int (length (node_deps ns k))"
proof (induction ns)
  case Nil
  then show ?case by (simp add: deps_of_def node_deps_def)
next
  case (Cons n ns)
  have "deps_of ns k = 0" if "n_key n = k" using deps_of_zero[of k ns] Cons.prems that by auto
  then show ?case using Cons by (auto simp: deps_of_def node_deps_def lookup_Cons)
qed

lemma node_deps_member: "distinct (map n_key ns) \<Longrightarrow> n \<in> set ns \<Longrightarrow> node_deps ns (n_key n) = n_depends_on n"
  by (simp add: node_deps_def lookup_distinct)

text \<open>What the two passes over the nodes establish before the loop starts.\<close>

lemma front_end_ok:
  assumes "declare_nodes nodes [] = Inr m0" and "add_edges nodes (m0, \<lambda>_. []) = Inr (m, children)"
    and "nodes \<noteq> []"
  shows "well_formed_nodes nodes"
    and "graph_ok (map n_key nodes) (node_deps nodes) (\<lambda>k. sort (children k))"
    and "kahn_inv (map n_key nodes) (node_deps nodes) [] (sort (map fst (filter (\<lambda>(k, d). d = 0) m))) m"
proof -
  let ?K = "map n_key nodes" and ?D = "node_deps nodes"
  have d: "'''' \<notin> n_key ` set nodes" "distinct ?K" and m0: "m0 = map (\<lambda>n. (n_key n, 0)) nodes"
    using assms(1) by (auto simp: declare_nodes_ok)
  have f0: "fst ` set m0 = n_key ` set nodes" and mf0: "map fst m0 = ?K" by (auto simp: m0 image_comp)
  have z: "degree m0 k = 0" for k unfolding m0 by (induction nodes) (auto simp: degree_def)
  note e = add_edges_ok[OF _ assms(2), unfolded f0, OF subset_refl]
  show wf: "well_formed_nodes nodes" using d assms(3) e by (auto simp: well_formed_nodes_def)
  have deps: "distinct (?D k)" "set (?D k) \<subseteq> set ?K" if k: "k \<in> set ?K" for k
  proof -
    obtain n where n: "n \<in> set nodes" "k = n_key n" using k by auto
    then have "?D k = n_depends_on n" using node_deps_member[OF d(2)] by simp
    then show "distinct (?D k)" "set (?D k) \<subseteq> set ?K" using e n(1) by auto
  qed
  have kid: "children p = map n_key (filter (\<lambda>n. p \<in> set (n_depends_on n)) nodes)" for p
    using e by simp
  have kids: "distinct (children p)" "set (children p) = {k \<in> set ?K. p \<in> set (?D k)}" for p
    unfolding kid using d(2) node_deps_member[OF d(2)] by (auto intro: distinct_map_filter)
  show "graph_ok ?K ?D (\<lambda>k. sort (children k))"
    using deps kids by (auto simp: graph_ok_def)
  have deg: "degree m k = int (length (?D k))" for k
    using e z by (simp add: deps_of_distinct[OF d(2)])
  have mf: "map fst m = ?K" using e mf0 by simp
  then have dm: "distinct (map fst m)" using d(2) by simp
  have pairs: "(k, x) \<in> set m \<longleftrightarrow> k \<in> set ?K \<and> x = degree m k" for k x
  proof -
    have "k \<in> set ?K \<longleftrightarrow> k \<in> fst ` set m" by (metis list.set_map mf)
    then show ?thesis
      using map_of_eq_Some_iff[OF dm, of k x] map_of_eq_None_iff[of m k]
      by (auto simp: degree_def split: option.splits)
  qed
  have "k \<in> set (map fst (filter (\<lambda>(k, d). d = 0) m)) \<longleftrightarrow> (k, 0) \<in> set m" for k by force
  then have "set (map fst (filter (\<lambda>(k, d). d = 0) m)) = available ?K ?D []"
    unfolding pairs deg by (auto simp: available_def)
  moreover have "degree m k = int (card (set (?D k) - set []))" if "k \<in> set ?K" for k
    using deg deps(1)[OF that] by (simp add: distinct_card)
  ultimately show "kahn_inv ?K ?D [] (sort (map fst (filter (\<lambda>(k, d). d = 0) m))) m"
    using dm by (auto simp: kahn_inv_def topo_sorted_def distinct_map_filter)
qed

lemma front_end_total:
  assumes "well_formed_nodes nodes"
  shows "\<exists>m0 m children. declare_nodes nodes [] = Inr m0 \<and> add_edges nodes (m0, \<lambda>_. []) = Inr (m, children)"
proof -
  let ?m0 = "map (\<lambda>n. (n_key n, 0 :: int)) nodes"
  have "declare_nodes nodes [] = Inr ?m0"
    using assms by (auto simp: declare_nodes_ok well_formed_nodes_def)
  moreover have "fst ` set ?m0 = n_key ` set nodes" by (simp add: image_comp)
  then have "\<exists>st. add_edges nodes (?m0, \<lambda>_. []) = Inr st"
    by (intro add_edges_total) (use assms in \<open>auto simp: well_formed_nodes_def\<close>)
  ultimately show ?thesis by auto
qed

lemma TopologicalOrder_cases:
  assumes "well_formed_nodes nodes"
  obtains order m' where
    "TopologicalOrder nodes = (if acyclic (edges (map n_key nodes) (node_deps nodes)) then Inr order else Inl ErrCycleDetected)"
    "kahn_inv (map n_key nodes) (node_deps nodes) order [] m'"
    "greedy (\<le>) (map n_key nodes) (node_deps nodes) order"
proof -
  let ?K = "map n_key nodes" and ?D = "node_deps nodes"
  obtain m0 m children where fe: "declare_nodes nodes [] = Inr m0" "add_edges nodes (m0, \<lambda>_. []) = Inr (m, children)"
    using front_end_total[OF assms] by blast
  have ne: "nodes \<noteq> []" and dK: "distinct ?K" using assms by (auto simp: well_formed_nodes_def)
  let ?ready = "sort (map fst (filter (\<lambda>(k, d). d = 0) m))"
  let ?order = "kahn SearchStrings (\<lambda>k. sort (children k)) ?ready m []"
  note fo = front_end_ok[OF fe ne]
  obtain m' where res: "kahn_inv ?K ?D ?order [] m'" "greedy (\<le>) ?K ?D ?order"
    using sorted_queue.kahn_correct[OF fo(2) fo(3) sorted_sort] by (auto simp: greedy_def)
  have "length ?order = length ?K \<longleftrightarrow> acyclic (edges ?K ?D)"
    using kahn_inv_length_iff[OF res(1) _ dK] fo(2) by (auto simp: graph_ok_def)
  then have "TopologicalOrder nodes = (if acyclic (edges ?K ?D) then Inr ?order else Inl ErrCycleDetected)"
    using fe ne by (simp add: TopologicalOrder_def Let_def)
  then show ?thesis using that res by blast
qed

lemma TopologicalOrder_not_wf:
  assumes "\<not> well_formed_nodes nodes"
  shows "\<exists>e. TopologicalOrder nodes = Inl e \<and> e \<noteq> ErrCycleDetected"
proof (cases "nodes = []")
  case True
  then show ?thesis by (simp add: TopologicalOrder_def)
next
  case ne: False
  show ?thesis
  proof (cases "declare_nodes nodes []")
    case (Inl e)
    then show ?thesis using ne declare_nodes_err[OF Inl] by (simp add: TopologicalOrder_def)
  next
    case m0: (Inr m0)
    show ?thesis
    proof (cases "add_edges nodes (m0, \<lambda>_. [])")
      case (Inl e)
      then show ?thesis using ne m0 add_edges_err[OF Inl] by (simp add: TopologicalOrder_def)
    next
      case (Inr st)
      then show ?thesis using front_end_ok(1)[OF m0 _ ne] assms by (cases st) auto
    qed
  qed
qed

text \<open>C19: a successful \<^verbatim>\<open>TopologicalOrder\<close> lists every node of the workflow exactly once, each after all
  its dependencies, and at every position it takes the alphabetically least node whose
  dependencies have all been listed, so the order depends on the workflow alone.\<close>

theorem TopologicalOrder_sound:
  assumes "TopologicalOrder nodes = Inr order"
  shows "distinct order \<and> set order = n_key ` set nodes \<and>
    (\<forall>i < length order. set (node_deps nodes (order ! i)) \<subseteq> set (take i order)) \<and>
    (\<forall>i < length order. \<forall>k \<in> n_key ` set nodes.
       k \<notin> set (take i order) \<and> set (node_deps nodes k) \<subseteq> set (take i order) \<longrightarrow> order ! i \<le> k)"
proof -
  let ?K = "map n_key nodes" and ?D = "node_deps nodes"
  have wf: "well_formed_nodes nodes" using assms TopologicalOrder_not_wf by fastforce
  obtain m' where ac: "acyclic (edges ?K ?D)" and inv: "kahn_inv ?K ?D order [] m'"
    and gr: "greedy (\<le>) ?K ?D order"
    using TopologicalOrder_cases[OF wf] assms by (metis Inl_Inr_False Inr_inject)
  have "\<forall>k \<in> set ?K. set (?D k) \<subseteq> set ?K"
    using wf node_deps_member by (auto simp: well_formed_nodes_def)
  then have "set order = n_key ` set nodes" using kahn_inv_complete[OF inv _ ac] by simp
  then show ?thesis
    using inv gr by (auto simp: kahn_inv_def topo_sorted_def greedy_def available_def)
qed

text \<open>C20: \<^verbatim>\<open>TopologicalOrder\<close> reports a cycle exactly for the well-formed workflows whose dependency
  relation has one; a workflow that is well-formed and acyclic is always ordered, and a malformed
  one (no nodes, an empty or repeated key, an unknown or repeated dependency) is always refused
  with another error.\<close>

theorem TopologicalOrder_cycle_iff:
  "(TopologicalOrder nodes = Inl ErrCycleDetected) =
     (well_formed_nodes nodes \<and> \<not> acyclic (edges (map n_key nodes) (node_deps nodes))) \<and>
   is_ok (TopologicalOrder nodes) =
     (well_formed_nodes nodes \<and> acyclic (edges (map n_key nodes) (node_deps nodes)))"
proof (cases "well_formed_nodes nodes")
  case True
  show ?thesis by (rule TopologicalOrder_cases[OF True]) (use True in auto)
next
  case False
  then show ?thesis using TopologicalOrder_not_wf[OF False] by auto
qed

theorem TopologicalOrder_sound_witness:
  "TopologicalOrder [\<lparr>n_key = ''b'', n_depends_on = [''a'']\<rparr>, \<lparr>n_key = ''a'', n_depends_on = []\<rparr>] = Inr [''a'', ''b''] \<and>
   distinct [''a'', ''b'']"
proof -
  have r: "TopologicalOrder [\<lparr>n_key = ''b'', n_depends_on = [''a'']\<rparr>, \<lparr>n_key = ''a'', n_depends_on = []\<rparr>] = Inr [''a'', ''b'']"
    by code_simp
  show ?thesis using r TopologicalOrder_sound[OF r] by simp
qed

end
