(* ===== verification/Store_Submissions.thy ===== *)
theory Store_Submissions
  imports Store_View Dag
begin

text \<open>
  \<^verbatim>\<open>internal/store/sqlite/submissions.go\<close>: admission of jobs and workflows. The validation of a
  workflow runs Kahn's loop of theory \<open>Dag\<close> over node indexes with a first-in first-out queue. The two
  inserts of \<^verbatim>\<open>leases.go\<close> into the ledger of outcomes and the dead letters are here because a
  job may be admitted dead.

  The random IDs of an operation are its argument \<open>ent\<close>.
\<close>

section \<open>Definitions\<close>

subsection \<open>Requests\<close>

record Submission =
  sub_job :: JobSpec
  sub_actor :: string
  sub_key :: string
  sub_digest :: string

record WorkflowNode =
  wn_key :: string
  wn_job :: JobSpec

record WorkflowSubmission =
  ws_tenant :: string
  ws_nodes :: "WorkflowNode list"
  ws_actor :: string
  ws_key :: string
  ws_digest :: string

subsection \<open>Idempotency\<close>

definition validateIdempotency :: "string \<Rightarrow> string \<Rightarrow> unit result" where
  "validateIdempotency key digest =
     (if trim_space key = '''' then Inl (ErrNew ''idempotency key must not be empty'')
      else if trim_space digest = '''' then Inl (ErrNew ''request digest must not be empty'')
      else Inr ())"

definition idempotency_key :: "idempotency_row \<Rightarrow> string \<times> string" where
  "idempotency_key r = (id_tenant r, id_key r)"

definition readIdempotency :: "db \<Rightarrow> string \<Rightarrow> string \<Rightarrow> string \<Rightarrow> string \<Rightarrow> response option result" where
  "readIdempotency db tenantID key kind digest =
     (case lookup idempotency_key (tenantID, key) (idempotency_requests db) of
        None \<Rightarrow> Inr None
      | Some r \<Rightarrow>
          if id_kind r \<noteq> kind \<or> id_digest r \<noteq> digest then Inl ErrIdempotencyConflict
          else Inr (Some (id_response r)))"

definition record_idempotency :: "string \<Rightarrow> idempotency_row \<Rightarrow> db \<Rightarrow> db result" where
  "record_idempotency msg r db =
     (case insert_row idempotency_key r (idempotency_requests db) of
        None \<Rightarrow> Inl (ErrWrap msg sql_constraint)
      | Some rows \<Rightarrow> Inr (db\<lparr>idempotency_requests := rows\<rparr>))"

subsection \<open>Admission and queues\<close>

definition nonterminal_count :: "db \<Rightarrow> string \<Rightarrow> int" where
  "nonterminal_count db tenantID =
     int (length (filter (\<lambda>j. j_tenant j = tenantID \<and> \<not> Terminal (j_state j)) (jobs db)))"

definition ensureAdmission :: "store \<Rightarrow> string \<Rightarrow> int \<Rightarrow> db \<Rightarrow> db result" where
  "ensureAdmission s tenantID incoming db =
     (let row = \<lparr>te_id = tenantID, te_max_depth = s_default_depth s, te_max_slots = s_default_slots s,
                 te_active_slots = 0\<rparr>;
          db1 = (case insert_row te_id row (tenant_limits db) of None \<Rightarrow> db | Some rows \<Rightarrow> db\<lparr>tenant_limits := rows\<rparr>)
      in case lookup te_id tenantID (tenant_limits db1) of
           None \<Rightarrow> Inl (ErrWrap ''read tenant admission: %w'' sql_no_rows)
         | Some t \<Rightarrow>
             if te_max_depth t > 0 \<and> nonterminal_count db1 tenantID + incoming > te_max_depth t
             then Inl ErrQueueFull else Inr db1)"

definition ensureQueue :: "string \<Rightarrow> string \<Rightarrow> int \<Rightarrow> db \<Rightarrow> db result" where
  "ensureQueue tenantID queue now db =
     (if lookup te_id tenantID (tenant_limits db) = None
      then Inl (ErrWrap ''ensure queue state: %w'' sql_constraint)
      else
        let row = \<lparr>qu_tenant = tenantID, qu_name = queue, qu_weight = 1, qu_deficit = 0, qu_active_slots = 0,
                   qu_updated_at = timeToDB now\<rparr>
        in case insert_row queue_row_key row (queue_state db) of
             None \<Rightarrow> Inr db
           | Some rows \<Rightarrow> Inr (db\<lparr>queue_state := rows\<rparr>))"

subsection \<open>Jobs\<close>

definition newJob :: "string \<Rightarrow> JobSpec \<Rightarrow> int \<Rightarrow> int \<Rightarrow> int \<Rightarrow> Job" where
  "newJob i spec availableAt readySeq now =
     \<lparr>j_id = i, j_tenant = s_tenant spec, j_queue = s_queue spec, j_priority = s_priority spec,
      j_slot_cost = s_slot_cost spec, j_payload = s_payload spec, j_retry = s_retry spec,
      j_state = StatePending, j_attempt_no = 0, j_state_version = 1, j_lease_generation = 0,
      j_available_at = availableAt, j_ready_seq = readySeq, j_created_at = now, j_updated_at = now,
      j_terminal_at = None, j_failure = None\<rparr>"

definition job_row_of :: "Job \<Rightarrow> job_row" where
  "job_row_of job = Job.extend
     (job\<lparr>j_available_at := timeToDB (j_available_at job), j_created_at := timeToDB (j_created_at job),
          j_updated_at := timeToDB (j_updated_at job), j_terminal_at := map_option timeToDB (j_terminal_at job)\<rparr>)
     (job_row.fields False (j_id job))"

definition job_checks :: "Job \<Rightarrow> bool" where
  "job_checks job \<longleftrightarrow> j_slot_cost job > 0 \<and> j_attempt_no job \<ge> 0 \<and> j_state_version job > 0 \<and>
     j_lease_generation job \<ge> 0 \<and> j_ready_seq job \<ge> 0"

definition insertJob :: "Job \<Rightarrow> db \<Rightarrow> db result" where
  "insertJob job db =
     (if \<not> job_checks job \<or> job_exists db (j_id job) \<or> j_id job \<in> jr_execution_key ` set (jobs db)
      then Inl (ErrWrap ''insert job: %w'' sql_constraint)
      else Inr (db\<lparr>jobs := jobs db @ [job_row_of job]\<rparr>))"

definition insert_dependency :: "string \<Rightarrow> string \<Rightarrow> string \<Rightarrow> db \<Rightarrow> db result" where
  "insert_dependency msg child parent db =
     (if \<not> job_exists db child \<or> \<not> job_exists db parent \<or> child = parent \<or> (child, parent) \<in> set (job_dependencies db)
      then Inl (ErrWrap msg sql_constraint)
      else Inr (db\<lparr>job_dependencies := job_dependencies db @ [(child, parent)]\<rparr>))"

definition appendActorEvent :: "string \<Rightarrow> string \<Rightarrow> JobState \<Rightarrow> int \<Rightarrow> int \<Rightarrow> json \<Rightarrow> db \<Rightarrow> db result" where
  "appendActorEvent jobID eventType state stateVersion now payload db =
     appendEvent jobID eventType state stateVersion now payload db"

definition insertCanonicalCompletion ::
  "string \<Rightarrow> JobState \<Rightarrow> int \<Rightarrow> int \<Rightarrow> string \<Rightarrow> Failure option \<Rightarrow> int \<Rightarrow> db \<Rightarrow> db result" where
  "insertCanonicalCompletion jobID state stateVersion attemptNo outputDigest failure now db =
     (let row = \<lparr>cp_job = jobID, cp_state = state, cp_version = stateVersion, cp_attempt_no = attemptNo,
                 cp_output_digest = outputDigest, cp_failure = failure, cp_committed_at = timeToDB now\<rparr>
      in if \<not> Terminal state \<or> \<not> job_exists db jobID
         then Inl (ErrWrap ''insert canonical completion: %w'' sql_constraint)
         else case insert_row cp_job row (job_completions db) of
                None \<Rightarrow> Inl (ErrWrap ''insert canonical completion: %w'' sql_constraint)
              | Some rows \<Rightarrow> Inr (db\<lparr>job_completions := rows\<rparr>))"

definition insertDeadLetter :: "string \<Rightarrow> Failure option \<Rightarrow> int \<Rightarrow> db \<Rightarrow> db result" where
  "insertDeadLetter jobID failure now db =
     (case failure of
        None \<Rightarrow> Inl (ErrWrap ''insert dead letter: %w'' sql_constraint)
      | Some f \<Rightarrow>
          let row = \<lparr>dl_job = jobID, dl_failure = f, dl_created_at = timeToDB now, dl_redriven = None\<rparr>
          in if \<not> job_exists db jobID then Inl (ErrWrap ''insert dead letter: %w'' sql_constraint)
             else case insert_row dl_job row (dead_letters db) of
                    None \<Rightarrow> Inl (ErrWrap ''insert dead letter: %w'' sql_constraint)
                  | Some rows \<Rightarrow> Inr (db\<lparr>dead_letters := rows\<rparr>))"

definition upstream_failed :: Failure where
  "upstream_failed = new_failure ''upstream_failed'' ''an upstream dependency did not succeed''"

subsection \<open>Dependencies on existing jobs\<close>

fun validateExistingDependencies ::
  "db \<Rightarrow> string \<Rightarrow> string list \<Rightarrow> string list \<Rightarrow> bool \<Rightarrow> bool \<Rightarrow> (string list \<times> bool \<times> bool) result" where
  "validateExistingDependencies db tenantID [] seen allSucceeded failed = Inr (rev seen, allSucceeded, failed)"
| "validateExistingDependencies db tenantID (d # ds) seen allSucceeded failed =
     (if d = '''' then Inl (ErrNew ''dependency ID must not be empty'')
      else if d \<in> set seen then Inl (ErrNew ''dependency %q is repeated'')
      else case lookup j_id d (jobs db) of
             None \<Rightarrow> Inl (ErrWrap ''dependency %q: %w'' ErrNotFound)
           | Some p \<Rightarrow>
               if j_tenant p \<noteq> tenantID then Inl (ErrNew ''dependency %q belongs to another tenant'')
               else validateExistingDependencies db tenantID ds (d # seen)
                 (allSucceeded \<and> j_state p = StateSucceeded)
                 (failed \<or> j_state p = StateFailed \<or> j_state p = StateDeadLetter))"

text \<open>What \<^verbatim>\<open>SubmitJob\<close> and \<^verbatim>\<open>SubmitJobOperation\<close> do between the idempotency check and the recording of
  the response: validate, admit and insert the job.\<close>

definition admitted_payload :: "string \<Rightarrow> Job \<Rightarrow> json" where
  "admitted_payload actor job = JObj [(''actor'', JStr actor), (''ready_seq'', JInt (j_ready_seq job))]"

definition dead_on_arrival :: "int \<Rightarrow> Job \<Rightarrow> Job" where
  "dead_on_arrival now job =
     job\<lparr>j_state := StateDeadLetter, j_terminal_at := Some now, j_failure := Some upstream_failed, j_ready_seq := 0\<rparr>"

definition admit_job :: "store \<Rightarrow> JobSpec \<Rightarrow> string \<Rightarrow> entropy \<Rightarrow> int \<Rightarrow> db \<Rightarrow> (Job \<times> db) result" where
  "admit_job s spec actor ent now db =
     (case JobSpec_Validate spec (s_max_slot_cost s) (s_allow_shell s) of
        Inl e \<Rightarrow> Inl (ErrWrap ''validate job: %w'' e)
      | Inr _ \<Rightarrow>
     bindE (validateExistingDependencies db (s_tenant spec) (s_depends_on spec) [] True False)
       (\<lambda>(dependencies, dependenciesSucceeded, dependencyFailed).
     bindE (ensureAdmission s (s_tenant spec) 1 db) (\<lambda>db1.
     bindE (ensureQueue (s_tenant spec) (s_queue spec) now db1) (\<lambda>db2.
     bindE (NewID ent) (\<lambda>(jobID, _).
     let availableAt = (if s_available_at spec = zero_time then now else s_available_at spec) in
     bindE (if dependenciesSucceeded \<and> availableAt \<le> now then nextReadySeq db2 else Inr (0, db2)) (\<lambda>(readySeq, db3).
     let job0 = newJob jobID spec availableAt readySeq now;
         job = (if dependencyFailed then dead_on_arrival now job0 else job0) in
     bindE (insertJob job db3) (\<lambda>db4.
     bindE (foldE (\<lambda>d. insert_dependency ''insert job dependency: %w'' (j_id job) d) dependencies db4) (\<lambda>db5.
     bindE (appendActorEvent (j_id job) ''job_admitted'' (j_state job) (j_state_version job) now
              (admitted_payload actor job) db5) (\<lambda>db6.
     bindE (if dependencyFailed
            then bindE (insertCanonicalCompletion (j_id job) (j_state job) (j_state_version job) 0 ''''
                          (j_failure job) now db6)
                   (insertDeadLetter (j_id job) (j_failure job) now)
            else Inr db6) (\<lambda>db7.
     Inr (job, db7)))))))))))"

definition SubmitJob_tx :: "store \<Rightarrow> Submission \<Rightarrow> entropy \<Rightarrow> int \<Rightarrow> db \<Rightarrow> ((Job \<times> bool) \<times> db) result" where
  "SubmitJob_tx s submission ent now db =
     (let spec = Normalize (sub_job submission) in
      bindE (validateIdempotency (sub_key submission) (sub_digest submission)) (\<lambda>_.
      bindE (readIdempotency db (s_tenant spec) (sub_key submission) ''job'' (sub_digest submission)) (\<lambda>found.
      case found of
        Some (RespJob job) \<Rightarrow> Inr ((job, True), db)
      | Some _ \<Rightarrow> Inl (ErrNew ''decode idempotent job response: %w'')
      | None \<Rightarrow>
          bindE (admit_job s spec (sub_actor submission) ent now db) (\<lambda>(job, db1).
          bindE (record_idempotency ''record job idempotency: %w''
                   \<lparr>id_tenant = s_tenant spec, id_key = sub_key submission, id_kind = ''job'',
                    id_digest = sub_digest submission, id_job = Some (j_id job), id_response = RespJob job,
                    id_created_at = timeToDB now\<rparr> db1) (\<lambda>db2.
          Inr ((job, False), db2))))))"

definition SubmitJob :: "Submission \<Rightarrow> entropy \<Rightarrow> int \<Rightarrow> int \<Rightarrow> store \<Rightarrow> (Job \<times> bool) result \<times> store" where
  "SubmitJob submission ent requested elapsed s = transact (SubmitJob_tx s submission ent) requested elapsed s"

subsection \<open>Workflows\<close>

fun index_nodes :: "WorkflowNode list \<Rightarrow> nat \<Rightarrow> (string \<times> nat) list \<Rightarrow> (string \<times> nat) list result" where
  "index_nodes [] index m = Inr m"
| "index_nodes (node # nodes) index m =
     (if trim_space (wn_key node) = '''' then Inl (ErrNew ''workflow node key must not be empty'')
      else if map_of m (wn_key node) \<noteq> None then Inl (ErrNew ''workflow node key %q is repeated'')
      else index_nodes nodes (index + 1) (m @ [(wn_key node, index)]))"

record workflow_graph =
  wg_specs :: "JobSpec list"
  wg_dependencies :: "nat list list"
  wg_children :: "nat \<Rightarrow> nat list"
  wg_indegree :: "(nat \<times> int) list"

fun resolve_parents :: "(string \<times> nat) list \<Rightarrow> nat \<Rightarrow> string list \<Rightarrow> nat list \<Rightarrow>
    (nat \<Rightarrow> nat list) \<times> (nat \<times> int) list \<Rightarrow> (nat list \<times> (nat \<Rightarrow> nat list) \<times> (nat \<times> int) list) result" where
  "resolve_parents idx child [] parents st = Inr (parents, st)"
| "resolve_parents idx child (k # ks) parents (children, indegree) =
     (case map_of idx k of
        None \<Rightarrow> Inl (ErrNew ''workflow node %q depends on unknown node %q'')
      | Some p \<Rightarrow>
          if p \<in> set parents then Inl (ErrNew ''workflow node %q repeats dependency %q'')
          else resolve_parents idx child ks (parents @ [p])
                 (children(p := children p @ [child]), increment child indegree))"

fun resolve_nodes :: "(string \<times> nat) list \<Rightarrow> string \<Rightarrow> int \<Rightarrow> bool \<Rightarrow> WorkflowNode list \<Rightarrow> workflow_graph \<Rightarrow>
    workflow_graph result" where
  "resolve_nodes idx tenantID maxSlotCost allowShell [] g = Inr g"
| "resolve_nodes idx tenantID maxSlotCost allowShell (node # nodes) g =
     (let spec = Normalize ((wn_job node)\<lparr>s_tenant := tenantID\<rparr>) in
      case JobSpec_Validate spec maxSlotCost allowShell of
        Inl e \<Rightarrow> Inl (ErrWrap ''validate workflow node %q: %w'' e)
      | Inr _ \<Rightarrow>
          bindE (resolve_parents idx (length (wg_specs g)) (s_depends_on spec) [] (wg_children g, wg_indegree g))
            (\<lambda>(parents, children, indegree).
          resolve_nodes idx tenantID maxSlotCost allowShell nodes
            \<lparr>wg_specs = wg_specs g @ [spec], wg_dependencies = wg_dependencies g @ [parents],
             wg_children = children, wg_indegree = indegree\<rparr>))"

definition validateWorkflow :: "WorkflowSubmission \<Rightarrow> string \<Rightarrow> int \<Rightarrow> bool \<Rightarrow>
    (JobSpec list \<times> nat list list) result" where
  "validateWorkflow submission tenantID maxSlotCost allowShell =
     (let nodes = ws_nodes submission in
      if nodes = [] then Inl (ErrNew ''workflow must contain at least one node'')
      else
        bindE (index_nodes nodes 0 []) (\<lambda>idx.
        bindE (resolve_nodes idx tenantID maxSlotCost allowShell nodes
                 \<lparr>wg_specs = [], wg_dependencies = [], wg_children = (\<lambda>_. []),
                  wg_indegree = map (\<lambda>i. (i, 0)) [0..<length nodes]\<rparr>) (\<lambda>g.
        let queue = map fst (filter (\<lambda>(i, d). d = 0) (wg_indegree g));
            visited = kahn (\<lambda>r _. length r) (wg_children g) queue (wg_indegree g) []
        in if length visited \<noteq> length nodes then Inl ErrCycleDetected
           else Inr (wg_specs g, wg_dependencies g))))"

fun new_ids :: "nat \<Rightarrow> entropy \<Rightarrow> string list result" where
  "new_ids 0 ent = Inr []"
| "new_ids (Suc n) ent = bindE (NewID ent) (\<lambda>(i, ent'). bindE (new_ids n ent') (\<lambda>ids. Inr (i # ids)))"

fun insert_workflow_jobs :: "string \<Rightarrow> int \<Rightarrow> (string \<times> JobSpec \<times> nat list) list \<Rightarrow> db \<Rightarrow> (Job list \<times> db) result" where
  "insert_workflow_jobs tenantID now [] db = Inr ([], db)"
| "insert_workflow_jobs tenantID now ((i, spec, parents) # rest) db =
     bindE (ensureQueue tenantID (s_queue spec) now db) (\<lambda>db1.
     let availableAt = (if s_available_at spec = zero_time then now else s_available_at spec) in
     bindE (if parents = [] \<and> availableAt \<le> now then nextReadySeq db1 else Inr (0, db1)) (\<lambda>(readySeq, db2).
     let job = newJob i spec availableAt readySeq now in
     bindE (insertJob job db2) (\<lambda>db3.
     bindE (insert_workflow_jobs tenantID now rest db3) (\<lambda>(js, db4). Inr (job # js, db4)))))"

definition workflow_edges :: "string list \<Rightarrow> nat list list \<Rightarrow> (string \<times> string) list" where
  "workflow_edges ids dependencies =
     concat (map (\<lambda>(child, parents). map (\<lambda>p. (child, ids ! p)) parents) (zip ids dependencies))"

text \<open>What \<^verbatim>\<open>SubmitWorkflow\<close> and \<^verbatim>\<open>SubmitDAGOperation\<close> share: validation, admission and the inserts.\<close>

definition admit_workflow :: "store \<Rightarrow> WorkflowSubmission \<Rightarrow> string \<Rightarrow> entropy \<Rightarrow> int \<Rightarrow> db \<Rightarrow> (Job list \<times> db) result" where
  "admit_workflow s submission tenantID ent now db =
     bindE (validateWorkflow submission tenantID (s_max_slot_cost s) (s_allow_shell s)) (\<lambda>(specs, dependencies).
     bindE (ensureAdmission s tenantID (int (length specs)) db) (\<lambda>db1.
     bindE (new_ids (length specs) ent) (\<lambda>ids.
     bindE (insert_workflow_jobs tenantID now (zip ids (zip specs dependencies)) db1) (\<lambda>(js, db2).
     bindE (foldE (\<lambda>(c, p). insert_dependency ''insert workflow dependency: %w'' c p)
              (workflow_edges ids dependencies) db2) (\<lambda>db3.
     bindE (foldE (\<lambda>j. appendActorEvent (j_id j) ''job_admitted'' (j_state j) (j_state_version j) now
                          (admitted_payload (ws_actor submission) j)) js db3) (\<lambda>db4.
     Inr (js, db4)))))))"

definition SubmitWorkflow_tx :: "store \<Rightarrow> WorkflowSubmission \<Rightarrow> entropy \<Rightarrow> int \<Rightarrow> db \<Rightarrow> ((Job list \<times> bool) \<times> db) result" where
  "SubmitWorkflow_tx s submission ent now db =
     (let tenantID = (if ws_tenant submission = '''' then ''default'' else ws_tenant submission) in
      bindE (validateIdempotency (ws_key submission) (ws_digest submission)) (\<lambda>_.
      bindE (readIdempotency db tenantID (ws_key submission) ''workflow'' (ws_digest submission)) (\<lambda>found.
      case found of
        Some (RespJobs js) \<Rightarrow> Inr ((js, True), db)
      | Some _ \<Rightarrow> Inl (ErrNew ''decode idempotent workflow response: %w'')
      | None \<Rightarrow>
          bindE (admit_workflow s submission tenantID ent now db) (\<lambda>(js, db1).
          bindE (record_idempotency ''record workflow idempotency: %w''
                   \<lparr>id_tenant = tenantID, id_key = ws_key submission, id_kind = ''workflow'',
                    id_digest = ws_digest submission, id_job = None, id_response = RespJobs js,
                    id_created_at = timeToDB now\<rparr> db1) (\<lambda>db2.
          Inr ((js, False), db2))))))"

definition SubmitWorkflow :: "WorkflowSubmission \<Rightarrow> entropy \<Rightarrow> int \<Rightarrow> int \<Rightarrow> store \<Rightarrow> (Job list \<times> bool) result \<times> store" where
  "SubmitWorkflow submission ent requested elapsed s =
     transact (SubmitWorkflow_tx s submission ent) requested elapsed s"

definition GetJob :: "store \<Rightarrow> string \<Rightarrow> Job result" where
  "GetJob s jobID = (case lookup j_id jobID (jobs (s_db s)) of None \<Rightarrow> Inl ErrNotFound | Some r \<Rightarrow> Inr (scanJob r))"

end
