(* ===== verification/Store_Scheduling.thy ===== *)
theory Store_Scheduling
  imports Store_Submissions
begin

text \<open>
  \<^verbatim>\<open>internal/store/sqlite/scheduling.go\<close>: the snapshot a scheduling decision is made on, and the
  persistence of the decision; with it the reservation and release of slots of \<^verbatim>\<open>leases.go\<close>.

  The window query ranks the ready jobs within their queue; the rank of a row is one more than the number
  of rows of its partition that order before it. The queues of the snapshot are listed in the order in
  which their first row appears; the code lists them in the random order of a Go map, which does not
  matter to the decision.
\<close>

section \<open>Definitions\<close>

subsection \<open>Slots\<close>

definition reserveSlots :: "string \<Rightarrow> string \<Rightarrow> int \<Rightarrow> int \<Rightarrow> db \<Rightarrow> (bool \<times> db) result" where
  "reserveSlots tenantID queue slotCost now db =
     (let p = (\<lambda>t. te_id t = tenantID \<and> (te_max_slots t = 0 \<or> te_active_slots t + slotCost \<le> te_max_slots t));
          db1 = db\<lparr>tenant_limits := update_where p (\<lambda>t. t\<lparr>te_active_slots := te_active_slots t + slotCost\<rparr>) (tenant_limits db)\<rparr>
      in if affected p (tenant_limits db) \<noteq> 1 then Inr (False, db1)
         else
           let q = (\<lambda>r. queue_row_key r = (tenantID, queue));
               db2 = db1\<lparr>queue_state := update_where q
                 (\<lambda>r. r\<lparr>qu_active_slots := qu_active_slots r + slotCost, qu_updated_at := timeToDB now\<rparr>) (queue_state db1)\<rparr>
           in if affected q (queue_state db1) \<noteq> 1 then Inl (ErrNew ''queue state is missing'') else Inr (True, db2))"

definition releaseSlots :: "string \<Rightarrow> string \<Rightarrow> int \<Rightarrow> int \<Rightarrow> db \<Rightarrow> db result" where
  "releaseSlots tenantID queue slotCost now db =
     (let p = (\<lambda>t. te_id t = tenantID \<and> te_active_slots t \<ge> slotCost);
          db1 = db\<lparr>tenant_limits := update_where p (\<lambda>t. t\<lparr>te_active_slots := te_active_slots t - slotCost\<rparr>) (tenant_limits db)\<rparr>
      in if affected p (tenant_limits db) \<noteq> 1 then Inl (ErrNew ''tenant slot reservation is inconsistent'')
         else
           let q = (\<lambda>r. queue_row_key r = (tenantID, queue) \<and> qu_active_slots r \<ge> slotCost);
               db2 = db1\<lparr>queue_state := update_where q
                 (\<lambda>r. r\<lparr>qu_active_slots := qu_active_slots r - slotCost, qu_updated_at := timeToDB now\<rparr>) (queue_state db1)\<rparr>
           in if affected q (queue_state db1) \<noteq> 1 then Inl (ErrNew ''queue slot reservation is inconsistent'')
              else Inr db2)"

subsection \<open>Counters\<close>

definition readCounter :: "string \<Rightarrow> db \<Rightarrow> int result" where
  "readCounter name db = (case lookup fst name (counters db) of
     None \<Rightarrow> Inl (ErrWrap ''read %s counter: %w'' sql_no_rows) | Some c \<Rightarrow> Inr (snd c))"

definition nextCounter :: "string \<Rightarrow> db \<Rightarrow> (int \<times> db) result" where
  "nextCounter name db =
     (let db1 = db\<lparr>counters := update_where (\<lambda>c. fst c = name) (\<lambda>c. (fst c, snd c + 1)) (counters db)\<rparr>
      in bindE (readCounter name db1) (\<lambda>v. Inr (v, db1)))"

definition setCounter :: "string \<Rightarrow> int \<Rightarrow> db \<Rightarrow> db result" where
  "setCounter name v db =
     (let p = (\<lambda>c. fst c = name) in
      if affected p (counters db) \<noteq> 1 then Inl (ErrNew ''%s counter is missing'')
      else Inr (db\<lparr>counters := update_where p (\<lambda>c. (fst c, v)) (counters db)\<rparr>))"

subsection \<open>Candidates\<close>

record leaseCandidate =
  lc_job :: string
  lc_tenant :: string
  lc_queue :: string
  lc_priority :: int
  lc_slot_cost :: int
  lc_payload :: Payload
  lc_attempt_no :: int
  lc_state_version :: int
  lc_generation :: int
  lc_execution_key :: string
  lc_ready_at :: int

definition lease_candidate :: "job_row \<Rightarrow> leaseCandidate" where
  "lease_candidate j =
     \<lparr>lc_job = j_id j, lc_tenant = j_tenant j, lc_queue = j_queue j, lc_priority = j_priority j,
      lc_slot_cost = j_slot_cost j, lc_payload = j_payload j, lc_attempt_no = j_attempt_no j,
      lc_state_version = j_state_version j, lc_generation = j_lease_generation j,
      lc_execution_key = jr_execution_key j, lc_ready_at = timeFromDB (j_updated_at j)\<rparr>"

definition candidate_of :: "job_row \<Rightarrow> Candidate" where
  "candidate_of j =
     \<lparr>ca_job_id = j_id j, ca_tenant = j_tenant j, ca_queue = j_queue j, ca_priority = j_priority j,
      ca_ready_seq = j_ready_seq j, ca_slot_cost = j_slot_cost j, ca_recovery = jr_recovery_pending j\<rparr>"

definition job_queue_key :: "job_row \<Rightarrow> string \<times> string" where
  "job_queue_key j = (j_tenant j, j_queue j)"

definition eligible :: "db \<Rightarrow> int \<Rightarrow> job_row \<Rightarrow> bool" where
  "eligible db now j \<longleftrightarrow>
     j_state j = StatePending \<and> j_ready_seq j > 0 \<and> j_available_at j \<le> timeToDB now \<and>
     (case lookup te_id (j_tenant j) (tenant_limits db) of
        None \<Rightarrow> False
      | Some t \<Rightarrow> te_max_slots t = 0 \<or> te_active_slots t + j_slot_cost j \<le> te_max_slots t) \<and>
     lookup queue_row_key (job_queue_key j) (queue_state db) \<noteq> None"

definition candidate_rank :: "job_row list \<Rightarrow> job_row \<Rightarrow> nat" where
  "candidate_rank js j = length (filter (\<lambda>k. job_queue_key k = job_queue_key j \<and>
     candidate_less (candidate_of k) (candidate_of j)) js) + 1"

definition row_less :: "job_row \<Rightarrow> job_row \<Rightarrow> bool" where
  "row_less a b \<longleftrightarrow> (j_tenant a, j_queue a, - j_priority a, j_ready_seq a, j_id a)
                   < (j_tenant b, j_queue b, - j_priority b, j_ready_seq b, j_id b)"

definition scheduler_rows :: "db \<Rightarrow> int \<Rightarrow> int \<Rightarrow> job_row list" where
  "scheduler_rows db now limit =
     (let js = filter (eligible db now) (jobs db)
      in sort_by row_less (filter (\<lambda>j. int (candidate_rank js j) \<le> limit) js))"

definition snapshot_queue :: "db \<Rightarrow> job_row list \<Rightarrow> string \<times> string \<Rightarrow> Queue" where
  "snapshot_queue db rows k =
     (case lookup queue_row_key k (queue_state db) of
        None \<Rightarrow> \<lparr>q_tenant = fst k, q_name = snd k, q_weight = 0, q_deficit = 0, q_candidates = []\<rparr>
      | Some q \<Rightarrow>
          \<lparr>q_tenant = fst k, q_name = snd k, q_weight = qu_weight q, q_deficit = qu_deficit q,
           q_candidates = map candidate_of (filter (\<lambda>j. job_queue_key j = k) rows)\<rparr>)"

definition snapshot_queues :: "db \<Rightarrow> job_row list \<Rightarrow> Queue list" where
  "snapshot_queues db rows = map (snapshot_queue db rows) (remdups (map job_queue_key rows))"

subsection \<open>The plan\<close>

record schedulePlan =
  sp_input :: Snapshot
  sp_decision :: Decision
  sp_candidates :: "leaseCandidate list"

definition empty_plan :: schedulePlan where
  "empty_plan =
     \<lparr>sp_input = \<lparr>sn_sequence = 0, sn_logical_time_ns = 0, sn_worker_slots = 0, sn_batch_limit = 0, sn_cursor = 0,
                  sn_queues = [], sn_config_hash = '''', sn_algorithm = ''''\<rparr>,
      sp_decision = \<lparr>de_sequence = 0, de_grants = [], de_queues = [], de_next_cursor = 0\<rparr>,
      sp_candidates = []\<rparr>"

definition buildSchedulePlan :: "int \<Rightarrow> int \<Rightarrow> int \<Rightarrow> int \<Rightarrow> db \<Rightarrow> (schedulePlan \<times> db) result" where
  "buildSchedulePlan now workerSlots0 limit recoveryReserve db =
     (let rows = scheduler_rows db now limit;
          hasRecovery = (\<exists>j \<in> set rows. jr_recovery_pending j);
          workerSlots = (if hasRecovery then workerSlots0 else workerSlots0 - min workerSlots0 recoveryReserve)
      in if rows = [] \<or> workerSlots = 0 then Inr (empty_plan, db)
         else
           bindE (nextCounter ''scheduler_seq'' db) (\<lambda>(sequence, db1).
           bindE (readCounter ''scheduler_cursor'' db1) (\<lambda>cursor.
           let input = \<lparr>sn_sequence = sequence, sn_logical_time_ns = int64 now, sn_worker_slots = workerSlots,
                        sn_batch_limit = limit, sn_cursor = cursor, sn_queues = snapshot_queues db rows,
                        sn_config_hash = sha256_hex AlgorithmVersion, sn_algorithm = AlgorithmVersion\<rparr> in
           bindE (Decide input) (\<lambda>decision.
           Inr (\<lparr>sp_input = input, sp_decision = decision, sp_candidates = map lease_candidate rows\<rparr>, db1)))))"

definition persist_queue :: "int \<Rightarrow> QueueState \<Rightarrow> db \<Rightarrow> db" where
  "persist_queue now q db =
     db\<lparr>queue_state := update_where (\<lambda>r. queue_row_key r = (qs_tenant q, qs_queue q))
       (\<lambda>r. r\<lparr>qu_deficit := qs_deficit q, qu_updated_at := timeToDB now\<rparr>) (queue_state db)\<rparr>"

definition decision_head :: "db \<Rightarrow> string" where
  "decision_head db =
     (case decision_log db of
        [] \<Rightarrow> ''''
      | _ \<Rightarrow> dr_hash (last (sort_key dr_sequence (decision_log db))))"

definition persistSchedulePlan :: "schedulePlan \<Rightarrow> int \<Rightarrow> db \<Rightarrow> db result" where
  "persistSchedulePlan plan now db =
     (let db1 = fold (persist_queue now) (de_queues (sp_decision plan)) db in
      bindE (setCounter ''scheduler_cursor'' (de_next_cursor (sp_decision plan)) db1) (\<lambda>db2.
      bindE (NewRecord (decision_head db2) (sp_input plan) (sp_decision plan)) (\<lambda>record.
      if rec_sequence record \<in> dr_sequence ` set (decision_log db2) \<or> rec_hash record \<in> dr_hash ` set (decision_log db2)
      then Inl (ErrWrap ''insert decision record: %w'' sql_constraint)
      else Inr (db2\<lparr>decision_log := decision_log db2 @
        [\<lparr>dr_sequence = rec_sequence record, dr_previous_hash = rec_previous_hash record, dr_hash = rec_hash record,
          dr_record = record, dr_created_at = timeToDB now\<rparr>]\<rparr>))))"

end
