(* ===== verification/Store_Maintenance.thy ===== *)
theory Store_Maintenance
  imports Store_Scheduling
begin

text \<open>
  \<^verbatim>\<open>internal/store/sqlite/maintenance.go\<close>: the promotion of due jobs, the reaping of expired leases, the
  release of the children of a succeeded job and the failing of the descendants of a failed one. The
  recursive query of \<^verbatim>\<open>failDescendants\<close> is the iteration \<open>descendants\<close> to a fixed point.
\<close>

section \<open>Definitions\<close>

subsection \<open>Dependencies\<close>

definition blocked_by_parent :: "db \<Rightarrow> string \<Rightarrow> bool" where
  "blocked_by_parent db i \<longleftrightarrow>
     (\<exists>e \<in> set (job_dependencies db). fst e = i \<and>
        (\<exists>p \<in> set (jobs db). j_id p = snd e \<and> j_state p \<noteq> StateSucceeded))"

definition children_of :: "(string \<times> string) list \<Rightarrow> string list \<Rightarrow> string list" where
  "children_of deps ids = map fst (filter (\<lambda>e. snd e \<in> set ids) deps)"

function descendants :: "(string \<times> string) list \<Rightarrow> string list \<Rightarrow> string list" where
  "descendants deps found =
     (let new = filter (\<lambda>c. c \<notin> set found) (remdups (children_of deps found))
      in if new = [] then found else descendants deps (found @ new))"
  by pat_completeness auto
termination
proof (relation "measure (\<lambda>(deps, found). card (fst ` set deps - set found))", goal_cases)
  case (2 deps found new)
  then obtain c where c: "c \<in> set new" by (metis list.set_intros(1) neq_Nil_conv)
  have "c \<in> fst ` set deps" "c \<notin> set found"
    using c 2 by (auto simp: children_of_def)
  then have "fst ` set deps - set (found @ new) \<subset> fst ` set deps - set found"
    using c by auto
  then show ?case by (simp add: psubset_card_mono)
qed simp

declare descendants.simps [simp del]

definition descendant_ids :: "db \<Rightarrow> string \<Rightarrow> string list" where
  "descendant_ids db parentID = descendants (job_dependencies db) (remdups (children_of (job_dependencies db) [parentID]))"

subsection \<open>PromoteDue\<close>

definition due_less :: "job_row \<Rightarrow> job_row \<Rightarrow> bool" where
  "due_less a b \<longleftrightarrow> (j_available_at a, j_id a) < (j_available_at b, j_id b)"

definition due_jobs :: "db \<Rightarrow> int \<Rightarrow> int \<Rightarrow> job_row list" where
  "due_jobs db now limit =
     take (nat limit) (sort_by due_less (filter (\<lambda>j. j_state j \<in> {StatePending, StateRetrying} \<and> j_ready_seq j = 0 \<and>
        j_available_at j \<le> timeToDB now \<and> \<not> blocked_by_parent db (j_id j)) (jobs db)))"

definition promote_job :: "int \<Rightarrow> job_row \<Rightarrow> db \<Rightarrow> db result" where
  "promote_job now job db =
     bindE (nextReadySeq db) (\<lambda>(readySeq, db1).
     let nextVersion = j_state_version job + 1;
         p = (\<lambda>j. j_id j = j_id job \<and> j_state j = j_state job \<and> j_state_version j = j_state_version job \<and> j_ready_seq j = 0);
         db2 = db1\<lparr>jobs := update_where p (\<lambda>j. j\<lparr>j_state := StatePending, j_state_version := nextVersion,
                 j_ready_seq := readySeq, j_updated_at := timeToDB now\<rparr>) (jobs db1)\<rparr>
     in if affected p (jobs db1) \<noteq> 1 then Inl (ErrNew ''due job %q changed during promotion'')
        else appendEvent (j_id job) ''job_promoted'' StatePending nextVersion now
               (JObj [(''ready_seq'', JInt readySeq)]) db2)"

definition PromoteDue :: "int \<Rightarrow> int \<Rightarrow> int \<Rightarrow> store \<Rightarrow> int result \<times> store" where
  "PromoteDue requested limit elapsed s =
     (if limit < 1 then (Inr 0, s)
      else transact (\<lambda>now db.
             let js = due_jobs db now limit
             in bindE (foldE (promote_job now) js db) (\<lambda>db'. Inr (int (length js), db')))
           requested elapsed s)"

subsection \<open>activateChildren\<close>

definition ready_children :: "db \<Rightarrow> string \<Rightarrow> int \<Rightarrow> job_row list" where
  "ready_children db parentID now =
     sort_by (\<lambda>a b. j_id a < j_id b)
       (filter (\<lambda>c. (j_id c, parentID) \<in> set (job_dependencies db) \<and> j_state c = StatePending \<and> j_ready_seq c = 0 \<and>
          j_available_at c \<le> timeToDB now \<and> \<not> blocked_by_parent db (j_id c)) (jobs db))"

definition activate_child :: "string \<Rightarrow> int \<Rightarrow> job_row \<Rightarrow> db \<Rightarrow> db result" where
  "activate_child parentID now child db =
     bindE (nextReadySeq db) (\<lambda>(readySeq, db1).
     let nextVersion = j_state_version child + 1;
         p = (\<lambda>j. j_id j = j_id child \<and> j_state j = StatePending \<and> j_ready_seq j = 0 \<and> j_state_version j = j_state_version child);
         db2 = db1\<lparr>jobs := update_where p (\<lambda>j. j\<lparr>j_ready_seq := readySeq, j_state_version := nextVersion,
                 j_updated_at := timeToDB now\<rparr>) (jobs db1)\<rparr>
     in if affected p (jobs db1) \<noteq> 1 then Inl (ErrNew ''child job %q changed during activation'')
        else appendEvent (j_id child) ''dependency_released'' StatePending nextVersion now
               (JObj [(''parent_id'', JStr parentID), (''ready_seq'', JInt readySeq)]) db2)"

definition activateChildren :: "string \<Rightarrow> int \<Rightarrow> db \<Rightarrow> db result" where
  "activateChildren parentID now db = foldE (activate_child parentID now) (ready_children db parentID now) db"

subsection \<open>failDescendants\<close>

definition live_descendants :: "db \<Rightarrow> string \<Rightarrow> job_row list" where
  "live_descendants db parentID =
     sort_by (\<lambda>a b. j_id a < j_id b)
       (filter (\<lambda>j. j_id j \<in> set (descendant_ids db parentID) \<and> \<not> Terminal (j_state j)) (jobs db))"

definition dead_letter_row :: "int \<Rightarrow> int \<Rightarrow> Failure \<Rightarrow> job_row \<Rightarrow> job_row" where
  "dead_letter_row now nextVersion failure j =
     j\<lparr>j_state := StateDeadLetter, j_state_version := nextVersion, j_ready_seq := 0, j_updated_at := timeToDB now,
       j_terminal_at := Some (timeToDB now), j_failure := Some failure\<rparr>"

definition fail_descendant :: "string \<Rightarrow> int \<Rightarrow> job_row \<Rightarrow> db \<Rightarrow> db result" where
  "fail_descendant parentID now child db =
     bindE (if active_state (j_state child)
            then releaseSlots (j_tenant child) (j_queue child) (j_slot_cost child) now db else Inr db) (\<lambda>db1.
     let nextVersion = j_state_version child + 1;
         p = (\<lambda>j. j_id j = j_id child \<and> j_state_version j = j_state_version child \<and> \<not> Terminal (j_state j));
         db2 = db1\<lparr>jobs := update_where p (dead_letter_row now nextVersion upstream_failed) (jobs db1)\<rparr>
     in if affected p (jobs db1) \<noteq> 1 then Inl (ErrNew ''descendant %q changed during propagation'')
        else
          bindE (insertCanonicalCompletion (j_id child) StateDeadLetter nextVersion (j_attempt_no child) ''''
                   (Some upstream_failed) now db2) (\<lambda>db3.
          bindE (insertDeadLetter (j_id child) (Some upstream_failed) now db3) (\<lambda>db4.
          appendEvent (j_id child) ''upstream_failed'' StateDeadLetter nextVersion now
            (JObj [(''root_job_id'', JStr parentID)]) db4)))"

definition failDescendants :: "string \<Rightarrow> int \<Rightarrow> db \<Rightarrow> db result" where
  "failDescendants parentID now db = foldE (fail_descendant parentID now) (live_descendants db parentID) db"

subsection \<open>ReapExpired\<close>

record expiredAttempt =
  ea_job :: string
  ea_worker :: string
  ea_attempt_no :: int
  ea_generation :: int
  ea_expires_at :: int
  ea_state :: JobState
  ea_version :: int
  ea_slot_cost :: int
  ea_tenant :: string
  ea_queue :: string
  ea_retry :: RetryPolicy

definition expired_of :: "attempt_row \<Rightarrow> job_row \<Rightarrow> expiredAttempt" where
  "expired_of a j =
     \<lparr>ea_job = at_job a, ea_worker = at_worker a, ea_attempt_no = at_no a, ea_generation = at_generation a,
      ea_expires_at = at_expires_at a, ea_state = j_state j, ea_version = j_state_version j,
      ea_slot_cost = j_slot_cost j, ea_tenant = j_tenant j, ea_queue = j_queue j, ea_retry = j_retry j\<rparr>"

definition expired_row :: "db \<Rightarrow> int \<Rightarrow> attempt_row \<Rightarrow> expiredAttempt option" where
  "expired_row db now a =
     (case lookup j_id (at_job a) (jobs db) of
        None \<Rightarrow> None
      | Some j \<Rightarrow>
          if j_attempt_no j = at_no a \<and> j_lease_generation j = at_generation a \<and> open_attempt (at_state a) \<and>
             at_expires_at a \<le> timeToDB now \<and> active_state (j_state j)
          then Some (expired_of a j) else None)"

definition expired_less :: "expiredAttempt \<Rightarrow> expiredAttempt \<Rightarrow> bool" where
  "expired_less a b \<longleftrightarrow> (ea_expires_at a, ea_job a) < (ea_expires_at b, ea_job b)"

definition expired_attempts :: "db \<Rightarrow> int \<Rightarrow> int \<Rightarrow> expiredAttempt list" where
  "expired_attempts db now limit =
     take (nat limit) (sort_by expired_less (List.map_filter (expired_row db now) (attempts db)))"

definition lease_expired :: Failure where
  "lease_expired = new_failure ''lease_expired'' ''worker lease expired before completion''"

definition expire_attempt_rows :: "int \<Rightarrow> expiredAttempt \<Rightarrow> attempt_row list \<Rightarrow> attempt_row list" where
  "expire_attempt_rows now a rows =
     update_where (\<lambda>r. at_job r = ea_job a \<and> at_no r = ea_attempt_no a \<and> at_generation r = ea_generation a \<and> open_attempt (at_state r))
       (\<lambda>r. r\<lparr>at_state := AttemptExpired, at_completed_at := Some (timeToDB now), at_failure := Some lease_expired\<rparr>) rows"

definition leased_row :: "expiredAttempt \<Rightarrow> job_row \<Rightarrow> bool" where
  "leased_row a j \<longleftrightarrow> j_id j = ea_job a \<and> j_attempt_no j = ea_attempt_no a \<and> j_lease_generation j = ea_generation a \<and>
     j_state_version j = ea_version a \<and> active_state (j_state j)"

definition reapAttempt :: "int \<Rightarrow> expiredAttempt \<Rightarrow> db \<Rightarrow> db result" where
  "reapAttempt now a db =
     (let db1 = db\<lparr>attempts := expire_attempt_rows now a (attempts db)\<rparr>;
          nextVersion = ea_version a + 1
      in bindE (releaseSlots (ea_tenant a) (ea_queue a) (ea_slot_cost a) now db1) (\<lambda>db2.
         if ea_attempt_no a < max_attempts (ea_retry a) then
           bindE (nextReadySeq db2) (\<lambda>(readySeq, db3).
           let db4 = db3\<lparr>jobs := update_where (leased_row a) (\<lambda>j. j\<lparr>j_state := StatePending, j_state_version := nextVersion,
                 j_available_at := timeToDB now, j_ready_seq := readySeq, jr_recovery_pending := True,
                 j_updated_at := timeToDB now, j_failure := Some lease_expired\<rparr>) (jobs db3)\<rparr>
           in if affected (leased_row a) (jobs db3) \<noteq> 1 then Inl ErrStaleLease
              else appendEvent (ea_job a) ''lease_reaped'' StatePending nextVersion now
                     (JObj [(''attempt_no'', JInt (ea_attempt_no a)), (''generation'', JInt (ea_generation a)),
                            (''ready_seq'', JInt readySeq)]) db4)
         else
           let db3 = db2\<lparr>jobs := update_where (leased_row a) (dead_letter_row now nextVersion lease_expired) (jobs db2)\<rparr>
           in if affected (leased_row a) (jobs db2) \<noteq> 1 then Inl ErrStaleLease
              else
                bindE (insertCanonicalCompletion (ea_job a) StateDeadLetter nextVersion (ea_attempt_no a) ''''
                         (Some lease_expired) now db3) (\<lambda>db4.
                bindE (insertDeadLetter (ea_job a) (Some lease_expired) now db4) (\<lambda>db5.
                bindE (appendEvent (ea_job a) ''lease_reaped'' StateDeadLetter nextVersion now
                         (JObj [(''attempt_no'', JInt (ea_attempt_no a)), (''generation'', JInt (ea_generation a))]) db5)
                  (failDescendants (ea_job a) now)))))"

definition reaped_of :: "int \<Rightarrow> expiredAttempt \<Rightarrow> ReapedLease" where
  "reaped_of now a =
     \<lparr>rl_job_id = ea_job a, rl_old_worker_id = ea_worker a, rl_generation = ea_generation a,
      rl_expired_at = timeFromDB (ea_expires_at a),
      rl_next_available_at = (if ea_attempt_no a \<ge> max_attempts (ea_retry a) then zero_time else now)\<rparr>"

definition ReapExpired_tx :: "int \<Rightarrow> int \<Rightarrow> db \<Rightarrow> (ReapedLease list \<times> db) result" where
  "ReapExpired_tx limit now db =
     (let expired = expired_attempts db now limit
      in bindE (foldE (reapAttempt now) expired db) (\<lambda>db'. Inr (map (reaped_of now) expired, db')))"

definition ReapExpired :: "int \<Rightarrow> int \<Rightarrow> int \<Rightarrow> store \<Rightarrow> ReapedLease list result \<times> store" where
  "ReapExpired requested limit elapsed s =
     (if limit < 1 then (Inr [], s) else transact (ReapExpired_tx limit) requested elapsed s)"

end
