(* ===== verification/Store_Leases.thy ===== *)
theory Store_Leases
  imports Store_Maintenance
begin

text \<open>
  \<^verbatim>\<open>internal/store/sqlite/leases.go\<close>: acquiring leases, starting attempts, heartbeats and completions.

  A batch continues after an item that fails with a stale lease; that error is only returned before the
  item has written anything, so the batch continues from the database the item started from.
\<close>

section \<open>Definitions\<close>

subsection \<open>Acquire\<close>

definition lease_event :: "int \<Rightarrow> int \<Rightarrow> string \<Rightarrow> int \<Rightarrow> json" where
  "lease_event attemptNo generation workerID expiresAt = JObj
     [(''attempt_no'', JInt attemptNo), (''generation'', JInt generation), (''worker_id'', JStr workerID),
      (''expires_at'', JInt (timeToDB expiresAt))]"

definition insert_attempt :: "attempt_row \<Rightarrow> db \<Rightarrow> db result" where
  "insert_attempt a db =
     (if \<not> job_exists db (at_job a) \<or> at_no a \<le> 0 \<or> at_generation a \<le> 0 \<or>
         (at_job a, at_generation a) \<in> (\<lambda>r. (at_job r, at_generation r)) ` set (attempts db)
      then Inl (ErrWrap ''insert attempt for job %q: %w'' sql_constraint)
      else case insert_row attempt_key a (attempts db) of
             None \<Rightarrow> Inl (ErrWrap ''insert attempt for job %q: %w'' sql_constraint)
           | Some rows \<Rightarrow> Inr (db\<lparr>attempts := rows\<rparr>))"

definition new_attempt :: "leaseCandidate \<Rightarrow> string \<Rightarrow> string \<Rightarrow> int \<Rightarrow> int \<Rightarrow> attempt_row" where
  "new_attempt c workerID token now expiresAt =
     \<lparr>at_job = lc_job c, at_no = lc_attempt_no c + 1, at_worker = workerID, at_generation = lc_generation c + 1,
      at_token_hash = TokenHash token, at_state = AttemptLeased, at_leased_at = timeToDB now,
      at_heartbeat_at = timeToDB now, at_expires_at = timeToDB expiresAt, at_started_at = None,
      at_completed_at = None, at_failure = None, at_digest = None, at_receipt_state = None,
      at_receipt_version = None, at_receipt_committed = None\<rparr>"

definition lease_grant :: "schedulePlan \<Rightarrow> string \<Rightarrow> int \<Rightarrow> int \<Rightarrow> Grant \<Rightarrow> Lease list \<times> entropy \<times> db \<Rightarrow>
    (Lease list \<times> entropy \<times> db) result" where
  "lease_grant plan workerID now leaseTTL grant = (\<lambda>(leases, ent, db).
     case lookup lc_job (g_job_id grant) (sp_candidates plan) of
       None \<Rightarrow> Inl (ErrNew ''scheduler selected unknown job %q'')
     | Some c \<Rightarrow>
         bindE (reserveSlots (lc_tenant c) (lc_queue c) (lc_slot_cost c) now db) (\<lambda>(reserved, db1).
         if \<not> reserved then Inl (ErrNew ''scheduler capacity changed for job %q'')
         else
           case NewID ent of
             Inl e \<Rightarrow> Inl (ErrWrap ''generate lease token: %w'' e)
           | Inr (token, ent') \<Rightarrow>
               let attemptNo = lc_attempt_no c + 1;
                   generation = lc_generation c + 1;
                   stateVersion = lc_state_version c + 1;
                   expiresAt = now + leaseTTL;
                   p = (\<lambda>j. j_id j = lc_job c \<and> j_state j = StatePending \<and> j_ready_seq j > 0 \<and> j_state_version j = lc_state_version c);
                   db2 = db1\<lparr>jobs := update_where p (\<lambda>j. j\<lparr>j_state := StateScheduled, j_attempt_no := attemptNo,
                           j_lease_generation := generation, j_state_version := stateVersion, j_ready_seq := 0,
                           jr_recovery_pending := False, j_updated_at := timeToDB now\<rparr>) (jobs db1)\<rparr>
               in if affected p (jobs db1) \<noteq> 1 then Inl (ErrNew ''lease candidate %q changed during acquisition'')
                  else
                    bindE (insert_attempt (new_attempt c workerID token now expiresAt) db2) (\<lambda>db3.
                    bindE (appendEvent (lc_job c) ''lease_acquired'' StateScheduled stateVersion now
                             (lease_event attemptNo generation workerID expiresAt) db3) (\<lambda>db4.
                    Inr (leases @
                      [\<lparr>l_job_id = lc_job c, l_attempt_no = attemptNo, l_generation = generation, l_token = token,
                        l_worker_id = workerID, l_expires_at = expiresAt, l_ready_at = lc_ready_at c,
                        l_idempotency_key = lc_execution_key c, l_slot_cost = lc_slot_cost c, l_payload = lc_payload c\<rparr>],
                      ent', db4)))))"

definition acquire_tx :: "string \<Rightarrow> int \<Rightarrow> int \<Rightarrow> int \<Rightarrow> int \<Rightarrow> entropy \<Rightarrow> int \<Rightarrow> db \<Rightarrow> (Lease list \<times> db) result" where
  "acquire_tx workerID availableSlots limit leaseTTL recoveryReserve ent now db =
     bindE (buildSchedulePlan now availableSlots limit recoveryReserve db) (\<lambda>(plan, db1).
     if sp_candidates plan = [] then Inr ([], db)
     else
       bindE (foldE (lease_grant plan workerID now leaseTTL) (de_grants (sp_decision plan)) ([], ent, db1))
         (\<lambda>(leases, _, db2).
       bindE (persistSchedulePlan plan now db2) (\<lambda>db3. Inr (leases, db3))))"

definition acquire :: "string \<Rightarrow> int \<Rightarrow> int \<Rightarrow> int \<Rightarrow> int \<Rightarrow> int \<Rightarrow> entropy \<Rightarrow> int \<Rightarrow> store \<Rightarrow>
    Lease list result \<times> store" where
  "acquire workerID availableSlots limit requested leaseTTL recoveryReserve ent elapsed s =
     (if workerID = '''' then (Inl (ErrNew ''worker ID must not be empty''), s)
      else if availableSlots < 1 \<or> limit < 1 then (Inr [], s)
      else if leaseTTL \<le> 0 then (Inl (ErrNew ''lease TTL must be positive''), s)
      else if recoveryReserve < 0 then (Inl (ErrNew ''recovery reserve must not be negative''), s)
      else transact (acquire_tx workerID availableSlots limit leaseTTL recoveryReserve ent) requested elapsed s)"

definition Acquire :: "string \<Rightarrow> int \<Rightarrow> int \<Rightarrow> int \<Rightarrow> int \<Rightarrow> entropy \<Rightarrow> int \<Rightarrow> store \<Rightarrow> Lease list result \<times> store" where
  "Acquire workerID availableSlots limit requested leaseTTL ent elapsed s =
     acquire workerID availableSlots limit requested leaseTTL 0 ent elapsed s"

definition AcquireWithRecoveryReserve :: "string \<Rightarrow> int \<Rightarrow> int \<Rightarrow> int \<Rightarrow> int \<Rightarrow> int \<Rightarrow> entropy \<Rightarrow> int \<Rightarrow> store \<Rightarrow>
    Lease list result \<times> store" where
  "AcquireWithRecoveryReserve workerID availableSlots limit requested leaseTTL recoveryReserve ent elapsed s =
     acquire workerID availableSlots limit requested leaseTTL recoveryReserve ent elapsed s"

subsection \<open>MarkRunning\<close>

definition fenced_attempt :: "db \<Rightarrow> string \<Rightarrow> 'a LeaseRef_scheme \<Rightarrow> (attempt_row \<times> job_row) option" where
  "fenced_attempt db workerID ref =
     (case lookup attempt_key (r_job_id ref, r_attempt_no ref) (attempts db) of
        None \<Rightarrow> None
      | Some a \<Rightarrow>
          (case lookup j_id (r_job_id ref) (jobs db) of
             None \<Rightarrow> None
           | Some j \<Rightarrow>
               if at_worker a = workerID \<and> at_generation a = r_generation ref \<and> at_token_hash a = TokenHash (r_token ref) \<and>
                  j_attempt_no j = at_no a \<and> j_lease_generation j = at_generation a
               then Some (a, j) else None))"

definition start_event :: "'a LeaseRef_scheme \<Rightarrow> json" where
  "start_event ref = JObj [(''attempt_no'', JInt (r_attempt_no ref)), (''generation'', JInt (r_generation ref))]"

definition markRunningTx :: "string \<Rightarrow> LeaseRef \<Rightarrow> int \<Rightarrow> db \<Rightarrow> db result" where
  "markRunningTx workerID ref now db =
     (case fenced_attempt db workerID ref of
        None \<Rightarrow> Inl ErrStaleLease
      | Some (a, j) \<Rightarrow>
          if at_expires_at a \<le> timeToDB now then Inl ErrStaleLease
          else if at_state a = AttemptRunning \<and> j_state j = StateRunning then Inr db
          else if at_state a \<noteq> AttemptLeased \<or> j_state j \<noteq> StateScheduled then Inl ErrStaleLease
          else
            let db1 = db\<lparr>attempts := update_where (\<lambda>r. attempt_key r = (r_job_id ref, r_attempt_no ref))
                  (\<lambda>r. r\<lparr>at_state := AttemptRunning, at_started_at := Some (timeToDB now)\<rparr>) (attempts db)\<rparr>;
                db2 = db1\<lparr>jobs := update_where (\<lambda>r. j_id r = r_job_id ref \<and> j_state_version r = j_state_version j)
                  (\<lambda>r. r\<lparr>j_state := StateRunning, j_state_version := j_state_version r + 1, j_updated_at := timeToDB now\<rparr>) (jobs db1)\<rparr>
            in appendEvent (r_job_id ref) ''attempt_started'' StateRunning (j_state_version j + 1) now (start_event ref) db2)"

definition MarkRunning :: "string \<Rightarrow> LeaseRef \<Rightarrow> int \<Rightarrow> int \<Rightarrow> store \<Rightarrow> unit result \<times> store" where
  "MarkRunning workerID ref requested elapsed s =
     (case transact (\<lambda>now db. bindE (markRunningTx workerID ref now db) (\<lambda>db'. Inr ((), db'))) requested elapsed s of
        (Inl e, s') \<Rightarrow> (Inl e, s')
      | (Inr u, s') \<Rightarrow> (Inr u, s'\<lparr>s_attempt_start_commits := s_attempt_start_commits s' + 1\<rparr>))"

definition MaxAttemptStartBatchSize :: nat where
  "MaxAttemptStartBatchSize = 128"

fun mark_batch :: "string \<Rightarrow> LeaseRef list \<Rightarrow> int \<Rightarrow> db \<Rightarrow> (go_err option list \<times> db) result" where
  "mark_batch workerID [] now db = Inr ([], db)"
| "mark_batch workerID (ref # refs) now db =
     (case markRunningTx workerID ref now db of
        Inl e \<Rightarrow>
          if errors_Is e ErrStaleLease
          then bindE (mark_batch workerID refs now db) (\<lambda>(rs, db'). Inr (Some e # rs, db'))
          else Inl (ErrWrap ''start batch item %d: %w'' e)
      | Inr db1 \<Rightarrow> bindE (mark_batch workerID refs now db1) (\<lambda>(rs, db'). Inr (None # rs, db')))"

definition MarkRunningBatch :: "string \<Rightarrow> LeaseRef list \<Rightarrow> int \<Rightarrow> int \<Rightarrow> store \<Rightarrow> go_err option list result \<times> store" where
  "MarkRunningBatch workerID refs requested elapsed s =
     (if refs = [] \<or> length refs > MaxAttemptStartBatchSize
      then (Inl (ErrNew ''attempt start batch must contain between 1 and %d items''), s)
      else case transact (mark_batch workerID refs) requested elapsed s of
             (Inl e, s') \<Rightarrow> (Inl e, s')
           | (Inr rs, s') \<Rightarrow> (Inr rs, s'\<lparr>s_attempt_start_commits := s_attempt_start_commits s' + 1\<rparr>))"

subsection \<open>Heartbeat\<close>

record HeartbeatResult =
  hb_job :: string
  hb_accepted :: bool
  hb_expires_at :: int

definition beating :: "db \<Rightarrow> string \<Rightarrow> LeaseRef \<Rightarrow> int \<Rightarrow> attempt_row \<Rightarrow> bool" where
  "beating db workerID ref now a \<longleftrightarrow>
     attempt_key a = (r_job_id ref, r_attempt_no ref) \<and> at_worker a = workerID \<and> at_generation a = r_generation ref \<and>
     at_token_hash a = TokenHash (r_token ref) \<and> at_expires_at a > timeToDB now \<and> open_attempt (at_state a) \<and>
     (\<exists>j \<in> set (jobs db). j_id j = at_job a \<and> j_attempt_no j = at_no a \<and> j_lease_generation j = at_generation a \<and>
        active_state (j_state j))"

definition heartbeat_one :: "string \<Rightarrow> int \<Rightarrow> int \<Rightarrow> LeaseRef \<Rightarrow> HeartbeatResult list \<times> db \<Rightarrow> (HeartbeatResult list \<times> db) result" where
  "heartbeat_one workerID now leaseTTL ref = (\<lambda>(results, db).
     let p = beating db workerID ref now;
         db1 = db\<lparr>attempts := update_where p (\<lambda>a. a\<lparr>at_heartbeat_at := timeToDB now,
                 at_expires_at := max (at_expires_at a) (timeToDB (now + leaseTTL))\<rparr>) (attempts db)\<rparr>
     in if affected p (attempts db) \<noteq> 1
        then Inr (results @ [\<lparr>hb_job = r_job_id ref, hb_accepted = False, hb_expires_at = zero_time\<rparr>], db1)
        else case lookup attempt_key (r_job_id ref, r_attempt_no ref) (attempts db1) of
               None \<Rightarrow> Inl (ErrWrap ''read heartbeat expiry for job %q: %w'' sql_no_rows)
             | Some a \<Rightarrow> Inr (results @ [\<lparr>hb_job = r_job_id ref, hb_accepted = True,
                                          hb_expires_at = timeFromDB (at_expires_at a)\<rparr>], db1))"

definition Heartbeat :: "string \<Rightarrow> LeaseRef list \<Rightarrow> int \<Rightarrow> int \<Rightarrow> int \<Rightarrow> store \<Rightarrow> HeartbeatResult list result \<times> store" where
  "Heartbeat workerID refs requested leaseTTL elapsed s =
     (if leaseTTL \<le> 0 then (Inl (ErrNew ''lease TTL must be positive''), s)
      else transact (\<lambda>now db. foldE (heartbeat_one workerID now leaseTTL) refs ([], db)) requested elapsed s)"

subsection \<open>Complete\<close>

definition failure_json :: "Failure \<Rightarrow> json" where
  "failure_json f = JObj
     ([(''class'', JStr (f_class f)), (''message'', JStr (f_message f))] @
      omit_if (f_exit_code f = 0) ''exit_code'' (JInt (f_exit_code f)) @
      omit_if (f_output_digest f = '''') ''output_digest'' (JStr (f_output_digest f)) @
      omit_if (f_stderr f = '''') ''stderr'' (JStr (f_stderr f)))"

definition completion_json :: "Completion \<Rightarrow> json" where
  "completion_json c = JObj
     ([(''job_id'', JStr (r_job_id c)), (''attempt_no'', JInt (r_attempt_no c)), (''generation'', JInt (r_generation c)),
       (''token'', JStr (r_token c)), (''worker_id'', JStr (c_worker_id c)), (''success'', JBool (c_success c)),
       (''retryable'', JBool (c_retryable c)), (''output_digest'', JStr (c_output_digest c))] @
      (case c_failure c of None \<Rightarrow> [] | Some f \<Rightarrow> [(''failure'', failure_json f)]))"

definition completionDigest :: "Completion \<Rightarrow> string" where
  "completionDigest completion = sha256_hex (marshal (completion_json completion))"

definition nullableTime :: "int \<Rightarrow> bool \<Rightarrow> int option" where
  "nullableTime v present = (if present then Some (timeToDB v) else None)"

definition readCompletionRecord :: "db \<Rightarrow> string \<Rightarrow> int \<Rightarrow> (attempt_row \<times> job_row) option" where
  "readCompletionRecord db jobID attemptNo =
     (case lookup attempt_key (jobID, attemptNo) (attempts db) of
        None \<Rightarrow> None
      | Some a \<Rightarrow> map_option (\<lambda>j. (a, j)) (lookup j_id jobID (jobs db)))"

definition attempt_failed :: Failure where
  "attempt_failed = new_failure ''attempt_failed'' ''worker reported an unsuccessful attempt''"

definition completion_failure :: "Completion \<Rightarrow> Failure option" where
  "completion_failure c =
     (if c_success c then None else case c_failure c of None \<Rightarrow> Some attempt_failed | Some f \<Rightarrow> Some f)"

text \<open>The next state, the attempt's state and the time at which a retry becomes available.\<close>

definition completion_plan :: "Completion \<Rightarrow> RetryPolicy \<Rightarrow> int \<Rightarrow> (JobState \<times> AttemptState \<times> int) result" where
  "completion_plan c policy now =
     (if c_success c then Inr (StateSucceeded, AttemptSucceeded, now)
      else if c_retryable c \<and> retryable policy \<and> r_attempt_no c < max_attempts policy
        then bindE (ReleaseAt now (r_job_id c) (r_attempt_no c)) (\<lambda>availableAt. Inr (StateRetrying, AttemptFailed, availableAt))
      else if c_retryable c then Inr (StateDeadLetter, AttemptFailed, now)
      else Inr (StateFailed, AttemptFailed, now))"

definition completion_event :: "Completion \<Rightarrow> int \<Rightarrow> json" where
  "completion_event c availableAt = JObj
     ([(''attempt_no'', JInt (r_attempt_no c))] @
      omit_if (timeToDB availableAt = 0) ''available_at'' (JInt (timeToDB availableAt)))"

definition close_attempt :: "Completion \<Rightarrow> AttemptState \<Rightarrow> JobState \<Rightarrow> int \<Rightarrow> int \<Rightarrow> db \<Rightarrow> db" where
  "close_attempt c attemptState nextState nextVersion now db =
     db\<lparr>attempts := update_where (\<lambda>a. attempt_key a = (r_job_id c, r_attempt_no c) \<and> at_digest a = None)
       (\<lambda>a. a\<lparr>at_state := attemptState, at_completed_at := Some (timeToDB now), at_failure := completion_failure c,
              at_digest := Some (completionDigest c), at_receipt_state := Some nextState,
              at_receipt_version := Some nextVersion, at_receipt_committed := Some (timeToDB now)\<rparr>) (attempts db)\<rparr>"

definition completed_row :: "Completion \<Rightarrow> int \<Rightarrow> job_row \<Rightarrow> bool" where
  "completed_row c version j \<longleftrightarrow> j_id j = r_job_id c \<and> j_attempt_no j = r_attempt_no c \<and>
     j_lease_generation j = r_generation c \<and> j_state_version j = version \<and> active_state (j_state j)"

definition commit_completion :: "Completion \<Rightarrow> job_row \<Rightarrow> int \<Rightarrow> db \<Rightarrow> (CompletionReceipt \<times> db) result" where
  "commit_completion c j now db =
     bindE (completion_plan c (j_retry j) now) (\<lambda>(nextState, attemptState, availableAt).
     let terminal = (nextState \<noteq> StateRetrying);
         nextVersion = j_state_version j + 1;
         p = completed_row c (j_state_version j);
         db1 = db\<lparr>jobs := update_where p (\<lambda>r. r\<lparr>j_state := nextState, j_state_version := nextVersion,
                 j_available_at := timeToDB availableAt, j_ready_seq := 0, j_updated_at := timeToDB now,
                 j_terminal_at := nullableTime now terminal, j_failure := completion_failure c\<rparr>) (jobs db)\<rparr>
     in if affected p (jobs db) \<noteq> 1 then Inl ErrStaleLease
        else
          bindE (releaseSlots (j_tenant j) (j_queue j) (j_slot_cost j) now db1) (\<lambda>db2.
          bindE (if terminal
                 then bindE (insertCanonicalCompletion (r_job_id c) nextState nextVersion (r_attempt_no c)
                               (c_output_digest c) (completion_failure c) now db2) (\<lambda>db3.
                      if nextState = StateDeadLetter
                      then insertDeadLetter (r_job_id c) (completion_failure c) now db3 else Inr db3)
                 else Inr db2) (\<lambda>db4.
          let db5 = close_attempt c attemptState nextState nextVersion now db4 in
          bindE (appendEvent (r_job_id c) (if terminal then ''job_completed'' else ''retry_scheduled'')
                   nextState nextVersion now (completion_event c availableAt) db5) (\<lambda>db6.
          bindE (if nextState = StateSucceeded then activateChildren (r_job_id c) now db6
                 else if terminal then failDescendants (r_job_id c) now db6
                 else Inr db6) (\<lambda>db7.
          Inr (\<lparr>cr_job_id = r_job_id c, cr_state = nextState, cr_state_version = nextVersion,
                cr_committed_at = now, cr_duplicate = False\<rparr>, db7))))))"

definition applyCompletionTx :: "Completion \<Rightarrow> int \<Rightarrow> db \<Rightarrow> (CompletionReceipt \<times> db) result" where
  "applyCompletionTx c now db =
     (case readCompletionRecord db (r_job_id c) (r_attempt_no c) of
        None \<Rightarrow> Inl ErrStaleLease
      | Some (a, j) \<Rightarrow>
          if at_worker a \<noteq> c_worker_id c \<or> at_generation a \<noteq> r_generation c \<or> at_token_hash a \<noteq> TokenHash (r_token c)
          then Inl ErrStaleLease
          else case at_digest a of
            Some digest \<Rightarrow>
              (case (at_receipt_state a, at_receipt_version a, at_receipt_committed a) of
                 (Some state, Some version, Some committed) \<Rightarrow>
                   if digest \<noteq> completionDigest c then Inl ErrStaleLease
                   else Inr (\<lparr>cr_job_id = r_job_id c, cr_state = state, cr_state_version = version,
                              cr_committed_at = timeFromDB committed, cr_duplicate = True\<rparr>, db)
               | _ \<Rightarrow> Inl ErrStaleLease)
          | None \<Rightarrow>
              if j_attempt_no j \<noteq> r_attempt_no c \<or> j_lease_generation j \<noteq> r_generation c \<or>
                 \<not> active_state (j_state j) \<or> \<not> open_attempt (at_state a) \<or> at_expires_at a \<le> timeToDB now
              then Inl ErrStaleLease
              else commit_completion c j now db)"

definition Complete :: "Completion \<Rightarrow> int \<Rightarrow> int \<Rightarrow> store \<Rightarrow> CompletionReceipt result \<times> store" where
  "Complete c requested elapsed s =
     (case transact (applyCompletionTx c) requested elapsed s of
        (Inl e, s') \<Rightarrow> (Inl e, s')
      | (Inr r, s') \<Rightarrow> (Inr r, s'\<lparr>s_completion_commits := s_completion_commits s' + 1\<rparr>))"

definition MaxCompletionBatchSize :: nat where
  "MaxCompletionBatchSize = 128"

fun complete_batch :: "Completion list \<Rightarrow> int \<Rightarrow> db \<Rightarrow> ((go_err + CompletionReceipt) list \<times> db) result" where
  "complete_batch [] now db = Inr ([], db)"
| "complete_batch (c # cs) now db =
     (case applyCompletionTx c now db of
        Inl e \<Rightarrow>
          if errors_Is e ErrStaleLease
          then bindE (complete_batch cs now db) (\<lambda>(rs, db'). Inr (Inl e # rs, db'))
          else Inl (ErrWrap ''complete batch item %d: %w'' e)
      | Inr (r, db1) \<Rightarrow> bindE (complete_batch cs now db1) (\<lambda>(rs, db'). Inr (Inr r # rs, db')))"

definition CompleteBatch :: "Completion list \<Rightarrow> int \<Rightarrow> int \<Rightarrow> store \<Rightarrow> (go_err + CompletionReceipt) list result \<times> store" where
  "CompleteBatch cs requested elapsed s =
     (if cs = [] \<or> length cs > MaxCompletionBatchSize
      then (Inl (ErrNew ''completion batch must contain between 1 and %d items''), s)
      else case transact (complete_batch cs) requested elapsed s of
             (Inl e, s') \<Rightarrow> (Inl e, s')
           | (Inr rs, s') \<Rightarrow> (Inr rs, s'\<lparr>s_completion_commits := s_completion_commits s' + 1\<rparr>))"

end
