(* ===== verification/Store_Operations.thy ===== *)
theory Store_Operations
  imports Store_Leases
begin

text \<open>
  The writing operations of \<^verbatim>\<open>internal/store/sqlite/operations.go\<close> and \<^verbatim>\<open>deadletters.go\<close>: submissions
  through the operations interface, operator control of jobs, redrives and retries, the audit trail, and the
  dispatch of \<^verbatim>\<open>internal/control/adapter.go\<close> to them.

  A stored response keeps the Go type it was encoded from as its constructor. Every action name is used with one
  response type only, so decoding a response never meets another constructor; that case is an error value here.
\<close>

section \<open>Definitions\<close>

subsection \<open>Control actions and the audit trail\<close>

record ControlAction =
  ct_tenant :: string
  ct_key :: string
  ct_action :: string
  ct_actor :: string
  ct_reason :: string
  ct_digest :: string
  ct_committed_at :: int
  ct_target_type :: string
  ct_target_id :: string
  ct_target_state :: "JobState option"
  ct_target_version :: int
  ct_response :: op_response
  ct_details :: "(string \<times> string) list"

definition operation_key :: "operation_row \<Rightarrow> string \<times> string \<times> string" where
  "operation_key r = (op_tenant r, op_action r, op_key r)"

definition readControlAction :: "db \<Rightarrow> string \<Rightarrow> string \<Rightarrow> string \<Rightarrow> string \<Rightarrow> op_response option result" where
  "readControlAction db tenantID key action digest =
     (case lookup operation_key (tenantID, action, key) (operation_requests db) of
        None \<Rightarrow> Inr None
      | Some r \<Rightarrow> if op_digest r \<noteq> digest then Inl ErrIdempotencyConflict else Inr (Some (op_resp r)))"

definition scoped_material :: "string \<Rightarrow> string \<Rightarrow> string \<Rightarrow> string" where
  "scoped_material tenantID action key = tenantID @ [CHR 0x00] @ action @ [CHR 0x00] @ key"

definition scopedKey :: "string \<Rightarrow> string \<Rightarrow> string \<Rightarrow> string" where
  "scopedKey tenantID action key = sha256_hex (scoped_material tenantID action key)"

definition newAuditEvent :: "ControlAction \<Rightarrow> AuditEvent" where
  "newAuditEvent a =
     \<lparr>ae_id = ''audit-'' @ take 24 (sha256_hex (scoped_material (ct_tenant a) (ct_action a) (ct_key a))),
      ae_tenant = ct_tenant a, ae_action = ct_action a, ae_actor = ct_actor a, ae_occurred_at = ct_committed_at a,
      ae_target_type = ct_target_type a, ae_target_id = ct_target_id a, ae_details = ct_details a\<rparr>"

definition operation_row_of :: "ControlAction \<Rightarrow> operation_row" where
  "operation_row_of a =
     \<lparr>op_tenant = ct_tenant a, op_key = ct_key a, op_action = ct_action a, op_actor = ct_actor a,
      op_reason = ct_reason a, op_digest = ct_digest a, op_committed_at = timeToDB (ct_committed_at a),
      op_target_type = ct_target_type a, op_target_id = ct_target_id a, op_target_state = ct_target_state a,
      op_target_version = (if ct_target_version a > 0 then Some (ct_target_version a) else None),
      op_resp = ct_response a\<rparr>"

definition audit_row_of :: "ControlAction \<Rightarrow> AuditEvent \<Rightarrow> audit_row" where
  "audit_row_of a e = AuditEvent.extend (e\<lparr>ae_tenant := ct_tenant a, ae_occurred_at := timeToDB (ae_occurred_at e)\<rparr>)
     (audit_row.fields (ct_key a))"

definition audit_key :: "audit_row \<Rightarrow> string \<times> string \<times> string" where
  "audit_key r = (ae_tenant r, ae_action r, ae_key r)"

definition insertControlActionWithEvent :: "ControlAction \<Rightarrow> AuditEvent \<Rightarrow> db \<Rightarrow> db result" where
  "insertControlActionWithEvent a event db =
     (case insert_row operation_key (operation_row_of a) (operation_requests db) of
        None \<Rightarrow> Inl (ErrWrap ''insert control action: %w'' sql_constraint)
      | Some rows \<Rightarrow>
          let row = audit_row_of a event;
              db1 = db\<lparr>operation_requests := rows\<rparr>
          in if ae_id row \<in> ae_id ` set (audit_events db1) \<or> audit_key row \<in> audit_key ` set (audit_events db1) \<or>
                lookup operation_key (audit_key row) rows = None
             then Inl (ErrWrap ''insert audit event: %w'' sql_constraint)
             else Inr (db1\<lparr>audit_events := audit_events db1 @ [row]\<rparr>))"

definition insertControlAction :: "ControlAction \<Rightarrow> db \<Rightarrow> db result" where
  "insertControlAction a db = insertControlActionWithEvent a (newAuditEvent a) db"

definition commitOperation :: "(int \<Rightarrow> db \<Rightarrow> ('a \<times> db) result) \<Rightarrow> int \<Rightarrow> int \<Rightarrow> store \<Rightarrow> 'a result \<times> store" where
  "commitOperation apply_tx requestedAt elapsed s = transact apply_tx requestedAt elapsed s"

subsection \<open>Submissions\<close>

record SubmitJobCommand =
  sj_job :: JobSpec
  sj_actor :: string
  sj_key :: string
  sj_digest :: string
  sj_requested_at :: int

definition SubmitJobOperation_tx :: "store \<Rightarrow> SubmitJobCommand \<Rightarrow> entropy \<Rightarrow> int \<Rightarrow> db \<Rightarrow> ((Job \<times> bool) \<times> db) result" where
  "SubmitJobOperation_tx s command ent now db =
     (let spec = Normalize (sj_job command) in
      bindE (validateIdempotency (sj_key command) (sj_digest command)) (\<lambda>_.
      bindE (readControlAction db (s_tenant spec) (sj_key command) ''job.submit'' (sj_digest command)) (\<lambda>stored.
      case stored of
        Some (OpSubmitJob job) \<Rightarrow> Inr ((job, True), db)
      | Some _ \<Rightarrow> Inl (ErrNew ''decode job submission response: %w'')
      | None \<Rightarrow>
          bindE (admit_job s spec (sj_actor command) ent now db) (\<lambda>(job, db1).
          bindE (insertControlAction
                   \<lparr>ct_tenant = j_tenant job, ct_key = sj_key command, ct_action = ''job.submit'',
                    ct_actor = sj_actor command, ct_reason = '''', ct_digest = sj_digest command,
                    ct_committed_at = now, ct_target_type = ''job'', ct_target_id = j_id job,
                    ct_target_state = Some (j_state job), ct_target_version = j_state_version job,
                    ct_response = OpSubmitJob job,
                    ct_details = [(''queue'', j_queue job), (''tenant_id'', j_tenant job)]\<rparr> db1) (\<lambda>db2.
          Inr ((job, False), db2))))))"

definition SubmitJobOperation :: "SubmitJobCommand \<Rightarrow> entropy \<Rightarrow> int \<Rightarrow> store \<Rightarrow> (Job \<times> bool) result \<times> store" where
  "SubmitJobOperation command ent elapsed s =
     commitOperation (SubmitJobOperation_tx s command ent) (sj_requested_at command) elapsed s"

definition insert_dag_run :: "string \<Rightarrow> string \<Rightarrow> string \<Rightarrow> string \<Rightarrow> int \<Rightarrow> db \<Rightarrow> db result" where
  "insert_dag_run dagID tenantID key digest now db =
     (if dagID \<in> dg_id ` set (dag_runs db) \<or> key \<in> dg_key ` set (dag_runs db)
      then Inl (ErrWrap ''insert DAG: %w'' sql_constraint)
      else Inr (db\<lparr>dag_runs := dag_runs db @
        [\<lparr>dg_id = dagID, dg_tenant = tenantID, dg_key = key, dg_digest = digest,
          dg_created_at = timeToDB now, dg_updated_at = timeToDB now\<rparr>]\<rparr>))"

definition insert_dag_job :: "string \<Rightarrow> string \<times> string \<times> string \<Rightarrow> db \<Rightarrow> db result" where
  "insert_dag_job dagID node db =
     (case node of (jobID, key, name) \<Rightarrow>
        if \<not> job_exists db jobID \<or> dagID \<notin> dg_id ` set (dag_runs db) \<or> jobID \<in> dj_job ` set (dag_jobs db) \<or>
           (dagID, key) \<in> (\<lambda>r. (dj_dag r, dj_node_key r)) ` set (dag_jobs db)
        then Inl (ErrWrap ''insert DAG node: %w'' sql_constraint)
        else Inr (db\<lparr>dag_jobs := dag_jobs db @
          [\<lparr>dj_dag = dagID, dj_job = jobID, dj_node_key = key, dj_name = name\<rparr>]\<rparr>))"

definition SubmitDAGOperation_tx :: "store \<Rightarrow> string \<Rightarrow> WorkflowSubmission \<Rightarrow> entropy \<Rightarrow> int \<Rightarrow> db \<Rightarrow>
    ((string \<times> Job list \<times> bool) \<times> db) result" where
  "SubmitDAGOperation_tx s dagID command ent now db =
     (let tenantID = (if ws_tenant command = '''' then ''default'' else ws_tenant command) in
      bindE (validateIdempotency (ws_key command) (ws_digest command)) (\<lambda>_.
      bindE (readControlAction db tenantID (ws_key command) ''dag.submit'' (ws_digest command)) (\<lambda>stored.
      case stored of
        Some (OpSubmitDAG i js) \<Rightarrow> Inr ((i, js, True), db)
      | Some _ \<Rightarrow> Inl (ErrNew ''decode DAG submission response: %w'')
      | None \<Rightarrow>
          bindE (admit_workflow s command tenantID ent now db) (\<lambda>(js, db1).
          bindE (insert_dag_run dagID tenantID (scopedKey tenantID ''dag.submit'' (ws_key command))
                   (ws_digest command) now db1) (\<lambda>db2.
          bindE (foldE (insert_dag_job dagID)
                   (map (\<lambda>(j, n). (j_id j, wn_key n, s_name (wn_job n))) (zip js (ws_nodes command))) db2) (\<lambda>db3.
          bindE (insertControlAction
                   \<lparr>ct_tenant = tenantID, ct_key = ws_key command, ct_action = ''dag.submit'',
                    ct_actor = ws_actor command, ct_reason = '''', ct_digest = ws_digest command,
                    ct_committed_at = now, ct_target_type = ''dag'', ct_target_id = dagID,
                    ct_target_state = None, ct_target_version = 0, ct_response = OpSubmitDAG dagID js,
                    ct_details = [(''tenant_id'', tenantID)]\<rparr> db3) (\<lambda>db4.
          Inr ((dagID, js, False), db4))))))))"

definition SubmitDAGOperation :: "string \<Rightarrow> WorkflowSubmission \<Rightarrow> entropy \<Rightarrow> int \<Rightarrow> int \<Rightarrow> store \<Rightarrow>
    (string \<times> Job list \<times> bool) result \<times> store" where
  "SubmitDAGOperation dagID command ent requestedAt elapsed s =
     commitOperation (SubmitDAGOperation_tx s dagID command ent) requestedAt elapsed s"

subsection \<open>Recorded actions\<close>

definition default_tenant :: "ControlAction \<Rightarrow> ControlAction" where
  "default_tenant a = (if ct_tenant a = '''' then a\<lparr>ct_tenant := ''default''\<rparr> else a)"

definition RecordControlAction :: "ControlAction \<Rightarrow> int \<Rightarrow> store \<Rightarrow> bool result \<times> store" where
  "RecordControlAction action elapsed s =
     transact (\<lambda>now db.
       let a = default_tenant (action\<lparr>ct_committed_at := now\<rparr>) in
       bindE (readControlAction db (ct_tenant a) (ct_key a) (ct_action a) (ct_digest a)) (\<lambda>stored.
       if stored \<noteq> None then Inr (True, db)
       else bindE (insertControlAction a db) (\<lambda>db'. Inr (False, db'))))
     (ct_committed_at action) elapsed s"

definition RecordOperatorAction :: "ControlAction \<Rightarrow> int \<Rightarrow> store \<Rightarrow> (AuditEvent \<times> bool) result \<times> store" where
  "RecordOperatorAction action elapsed s =
     transact (\<lambda>now db.
       let a = default_tenant (action\<lparr>ct_committed_at := now\<rparr>) in
       bindE (readControlAction db (ct_tenant a) (ct_key a) (ct_action a) (ct_digest a)) (\<lambda>stored.
       case stored of
         Some (OpEvent e) \<Rightarrow> Inr ((e, True), db)
       | Some _ \<Rightarrow> Inl (ErrNew ''decode operator action response: %w'')
       | None \<Rightarrow>
           let event = newAuditEvent a in
           bindE (insertControlActionWithEvent (a\<lparr>ct_response := OpEvent event\<rparr>) event db) (\<lambda>db'.
           Inr ((event, False), db'))))
     (ct_committed_at action) elapsed s"

subsection \<open>ApplyJobControl\<close>

record JobControlCommand =
  jc_job :: string
  jc_receipt_action :: string
  jc_audit_action :: string
  jc_actor :: string
  jc_reason :: string
  jc_key :: string
  jc_digest :: string
  jc_requested_at :: int
  jc_next_state :: JobState
  jc_release :: bool

definition failureJSON :: "string \<Rightarrow> string \<Rightarrow> Failure" where
  "failureJSON action reason = new_failure (''operator_'' @ action) reason"

definition fence_attempts :: "JobControlCommand \<Rightarrow> int \<Rightarrow> int \<Rightarrow> db \<Rightarrow> db result" where
  "fence_attempts command attemptNo now db =
     (let p = (\<lambda>a. attempt_key a = (jc_job command, attemptNo) \<and> open_attempt (at_state a)) in
      if affected p (attempts db) \<noteq> 1 then Inl ErrStaleLease
      else Inr (db\<lparr>attempts := update_where p (\<lambda>a. a\<lparr>at_state := AttemptExpired, at_completed_at := Some (timeToDB now),
             at_failure := (case at_failure a of None \<Rightarrow> Some (failureJSON (jc_receipt_action command) (jc_reason command))
                                               | Some f \<Rightarrow> Some f)\<rparr>) (attempts db)\<rparr>))"

definition controlled_row :: "JobControlCommand \<Rightarrow> int \<Rightarrow> int \<Rightarrow> bool \<Rightarrow> int \<Rightarrow> job_row \<Rightarrow> job_row" where
  "controlled_row command nextVersion readySeq active now j =
     j\<lparr>j_state := jc_next_state command, j_state_version := nextVersion, j_available_at := timeToDB now,
       j_ready_seq := readySeq, jr_recovery_pending := (jc_release command \<and> active), j_updated_at := timeToDB now,
       j_terminal_at := (if jc_release command then None else Some (timeToDB now)),
       j_failure := (if jc_release command then None else Some (failureJSON (jc_receipt_action command) (jc_reason command)))\<rparr>"

definition control_event :: "JobControlCommand \<Rightarrow> json" where
  "control_event command = JObj [(''actor'', JStr (jc_actor command)), (''reason'', JStr (jc_reason command))]"

definition state_string :: "JobState \<Rightarrow> string" where
  "state_string s = (case s of StatePending \<Rightarrow> ''PENDING'' | StateScheduled \<Rightarrow> ''SCHEDULED'' | StateRunning \<Rightarrow> ''RUNNING''
     | StateRetrying \<Rightarrow> ''RETRYING'' | StateSucceeded \<Rightarrow> ''SUCCEEDED'' | StateFailed \<Rightarrow> ''FAILED''
     | StateDeadLetter \<Rightarrow> ''DEAD_LETTER'')"

definition control_job :: "JobControlCommand \<Rightarrow> job_row \<Rightarrow> int \<Rightarrow> db \<Rightarrow> db result" where
  "control_job command j now db =
     (let active = active_state (j_state j); nextVersion = j_state_version j + 1 in
      bindE (if active
             then bindE (fence_attempts command (j_attempt_no j) now db)
                    (releaseSlots (j_tenant j) (j_queue j) (j_slot_cost j) now)
             else Inr db) (\<lambda>db1.
      bindE (if jc_release command then nextReadySeq db1 else Inr (0, db1)) (\<lambda>(readySeq, db2).
      let p = (\<lambda>r. j_id r = jc_job command \<and> j_state_version r = j_state_version j \<and> \<not> Terminal (j_state r));
          db3 = db2\<lparr>jobs := update_where p (controlled_row command nextVersion readySeq active now) (jobs db2)\<rparr>
      in if affected p (jobs db2) \<noteq> 1 then Inl ErrConflict
         else
           bindE (if jc_release command then Inr db3
                  else bindE (insertCanonicalCompletion (jc_job command) (jc_next_state command) nextVersion (j_attempt_no j) ''''
                                (Some (failureJSON (jc_receipt_action command) (jc_reason command))) now db3) (\<lambda>db4.
                       if jc_next_state command = StateDeadLetter
                       then insertDeadLetter (jc_job command)
                              (Some (failureJSON (jc_receipt_action command) (jc_reason command))) now db4
                       else Inr db4)) (\<lambda>db5.
           bindE (appendEvent (jc_job command) (''operator_'' @ jc_receipt_action command) (jc_next_state command)
                    nextVersion now (control_event command) db5) (\<lambda>db6.
           if jc_release command then Inr db6 else failDescendants (jc_job command) now db6)))))"

definition ApplyJobControl_tx :: "JobControlCommand \<Rightarrow> int \<Rightarrow> db \<Rightarrow> (ActionReceipt \<times> db) result" where
  "ApplyJobControl_tx command now db =
     (case lookup j_id (jc_job command) (jobs db) of
        None \<Rightarrow> Inl ErrNotFound
      | Some j \<Rightarrow>
          bindE (readControlAction db (j_tenant j) (jc_key command) (jc_audit_action command) (jc_digest command)) (\<lambda>stored.
          case stored of
            Some (OpReceipt r) \<Rightarrow> Inr (r\<lparr>ar_duplicate := True\<rparr>, db)
          | Some _ \<Rightarrow> Inl (ErrNew ''decode job control response: %w'')
          | None \<Rightarrow>
              if Terminal (j_state j) then Inl ErrTerminalJob
              else
                bindE (control_job command j now db) (\<lambda>db1.
                let receipt = \<lparr>ar_job = jc_job command, ar_action = jc_receipt_action command,
                               ar_state = jc_next_state command, ar_version = j_state_version j + 1,
                               ar_actor = jc_actor command, ar_committed_at = now, ar_duplicate = False\<rparr> in
                bindE (insertControlAction
                         \<lparr>ct_tenant = j_tenant j, ct_key = jc_key command, ct_action = jc_audit_action command,
                          ct_actor = jc_actor command, ct_reason = jc_reason command, ct_digest = jc_digest command,
                          ct_committed_at = now, ct_target_type = ''job'', ct_target_id = jc_job command,
                          ct_target_state = Some (jc_next_state command), ct_target_version = j_state_version j + 1,
                          ct_response = OpReceipt receipt,
                          ct_details = [(''reason'', jc_reason command), (''state'', state_string (jc_next_state command))]\<rparr>
                         db1) (\<lambda>db2.
                Inr (receipt, db2)))))"

definition ApplyJobControl :: "JobControlCommand \<Rightarrow> int \<Rightarrow> store \<Rightarrow> ActionReceipt result \<times> store" where
  "ApplyJobControl command elapsed s = transact (ApplyJobControl_tx command) (jc_requested_at command) elapsed s"

subsection \<open>Redrive and retry\<close>

definition clone_spec :: "Job \<Rightarrow> JobSpec" where
  "clone_spec original =
     \<lparr>s_name = '''', s_tenant = j_tenant original, s_queue = j_queue original, s_priority = j_priority original,
      s_slot_cost = j_slot_cost original, s_payload = j_payload original, s_retry = j_retry original,
      s_depends_on = [], s_available_at = zero_time\<rparr>"

definition cloneJob :: "store \<Rightarrow> Job \<Rightarrow> entropy \<Rightarrow> int \<Rightarrow> db \<Rightarrow> (Job \<times> db) result" where
  "cloneJob s original ent now db =
     bindE (ensureAdmission s (j_tenant original) 1 db) (\<lambda>db1.
     bindE (ensureQueue (j_tenant original) (j_queue original) now db1) (\<lambda>db2.
     bindE (NewID ent) (\<lambda>(i, _).
     bindE (nextReadySeq db2) (\<lambda>(readySeq, db3).
     let job = newJob i (clone_spec original) now readySeq now in
     bindE (insertJob job db3) (\<lambda>db4.
     bindE (appendEvent (j_id job) ''job_admitted'' (j_state job) (j_state_version job) now
              (JObj [(''ready_seq'', JInt readySeq), (''source_job_id'', JStr (j_id original))]) db4) (\<lambda>db5.
     Inr (job, db5)))))))"

definition link_redrive :: "string \<Rightarrow> string \<Rightarrow> db \<Rightarrow> db result" where
  "link_redrive jobID created db =
     (let p = (\<lambda>d. dl_job d = jobID \<and> dl_redriven d = None) in
      if affected p (dead_letters db) \<noteq> 1 then Inl ErrDeadLetterRedriven
      else Inr (db\<lparr>dead_letters := update_where p (\<lambda>d. d\<lparr>dl_redriven := Some created\<rparr>) (dead_letters db)\<rparr>))"

fun json_set :: "string \<Rightarrow> json \<Rightarrow> json \<Rightarrow> json" where
  "json_set k v (JObj fs) =
     JObj (if k \<in> fst ` set fs then map (\<lambda>f. if fst f = k then (k, v) else f) fs else fs @ [(k, v)])"
| "json_set k v j = j"

definition attribute_admission :: "string \<Rightarrow> string \<Rightarrow> db \<Rightarrow> db result" where
  "attribute_admission actor jobID db =
     (let p = (\<lambda>e. ev_job e = jobID \<and> ev_type e = ''job_admitted'') in
      if affected p (events db) \<noteq> 1 then Inl (ErrNew ''redriven job admission event is missing'')
      else Inr (db\<lparr>events := update_where p (\<lambda>e. e\<lparr>ev_payload := json_set ''actor'' (JStr actor) (ev_payload e)\<rparr>) (events db)\<rparr>))"

definition redrive_action :: "Job \<Rightarrow> Job \<Rightarrow> string \<Rightarrow> string \<Rightarrow> string \<Rightarrow> int \<Rightarrow> (string \<times> string) list \<Rightarrow> ControlAction" where
  "redrive_action original created actor key digest now details =
     \<lparr>ct_tenant = j_tenant original, ct_key = key, ct_action = ''dead_letter.redrive'', ct_actor = actor, ct_reason = '''',
      ct_digest = digest, ct_committed_at = now, ct_target_type = ''dead_letter'', ct_target_id = j_id original,
      ct_target_state = Some (j_state created), ct_target_version = j_state_version created,
      ct_response = OpRedrive created, ct_details = details\<rparr>"

definition redrive_event :: "string \<Rightarrow> Job \<Rightarrow> json" where
  "redrive_event actor created = JObj [(''actor'', JStr actor), (''created_job_id'', JStr (j_id created))]"

text \<open>\<^verbatim>\<open>RedriveDeadLetter\<close> of \<^verbatim>\<open>deadletters.go\<close>; the cast of event payloads to BLOB does not change their value.\<close>

definition RedriveDeadLetter_tx :: "store \<Rightarrow> string \<Rightarrow> string \<Rightarrow> string \<Rightarrow> string \<Rightarrow> entropy \<Rightarrow> int \<Rightarrow> db \<Rightarrow>
    ((Job \<times> bool) \<times> db) result" where
  "RedriveDeadLetter_tx s actor jobID key digest ent now db =
     (case lookup j_id jobID (jobs db) of
        None \<Rightarrow> Inl ErrNotFound
      | Some row \<Rightarrow>
          (case lookup dl_job jobID (dead_letters db) of
             None \<Rightarrow> Inl ErrNotFound
           | Some dl \<Rightarrow>
               let original = scanJob row in
               bindE (readControlAction db (j_tenant original) key ''dead_letter.redrive'' digest) (\<lambda>stored.
               case stored of
                 Some (OpRedrive job) \<Rightarrow> Inr ((job, True), db)
               | Some _ \<Rightarrow> Inl (ErrNew ''decode redrive response: %w'')
               | None \<Rightarrow>
                   if dl_redriven dl \<noteq> None then Inl ErrDeadLetterRedriven
                   else
                     bindE (cloneJob s original ent now db) (\<lambda>(created, db1).
                     bindE (attribute_admission actor (j_id created) db1) (\<lambda>db2.
                     bindE (link_redrive jobID (j_id created) db2) (\<lambda>db3.
                     bindE (appendActorEvent jobID ''operator_redrive'' (j_state original) (j_state_version original) now
                              (redrive_event actor created) db3) (\<lambda>db4.
                     bindE (insertControlAction (redrive_action original created actor key digest now
                              [(''actor'', actor), (''created_job_id'', j_id created)]) db4) (\<lambda>db5.
                     Inr ((created, False), db5)))))))))"

definition RedriveDeadLetter :: "string \<Rightarrow> string \<Rightarrow> string \<Rightarrow> string \<Rightarrow> entropy \<Rightarrow> int \<Rightarrow> int \<Rightarrow> store \<Rightarrow> (Job \<times> bool) result \<times> store" where
  "RedriveDeadLetter contextActor jobID key digest ent requested elapsed s =
     (let actor = (if contextActor = '''' then ''api'' else contextActor) in
      transact (RedriveDeadLetter_tx s actor jobID key digest ent) requested elapsed s)"

record RedriveControlCommand =
  rc_job :: string
  rc_actor :: string
  rc_key :: string
  rc_digest :: string
  rc_requested_at :: int

definition RedriveDeadLetterControl_tx :: "store \<Rightarrow> RedriveControlCommand \<Rightarrow> entropy \<Rightarrow> int \<Rightarrow> db \<Rightarrow>
    ((Job \<times> bool) \<times> db) result" where
  "RedriveDeadLetterControl_tx s command ent now db =
     (case lookup dl_job (rc_job command) (dead_letters db) of
        None \<Rightarrow> Inl ErrNotFound
      | Some dl \<Rightarrow>
          (case lookup j_id (rc_job command) (jobs db) of
             None \<Rightarrow> Inl (ErrWrap ''read redrive source: %w'' sql_no_rows)
           | Some row \<Rightarrow>
               let original = scanJob row in
               bindE (readControlAction db (j_tenant original) (rc_key command) ''dead_letter.redrive'' (rc_digest command)) (\<lambda>stored.
               case stored of
                 Some (OpRedrive job) \<Rightarrow> Inr ((job, True), db)
               | Some _ \<Rightarrow> Inl (ErrNew ''decode controlled redrive response: %w'')
               | None \<Rightarrow>
                   if dl_redriven dl \<noteq> None then Inl ErrDeadLetterRedriven
                   else
                     bindE (cloneJob s original ent now db) (\<lambda>(created, db1).
                     bindE (link_redrive (rc_job command) (j_id created) db1) (\<lambda>db2.
                     bindE (appendEvent (rc_job command) ''operator_redrive'' StateDeadLetter (j_state_version original) now
                              (redrive_event (rc_actor command) created) db2) (\<lambda>db3.
                     bindE (insertControlAction (redrive_action original created (rc_actor command) (rc_key command)
                              (rc_digest command) now [(''created_job_id'', j_id created)]) db3) (\<lambda>db4.
                     Inr ((created, False), db4))))))))"

definition RedriveDeadLetterControl :: "RedriveControlCommand \<Rightarrow> entropy \<Rightarrow> int \<Rightarrow> store \<Rightarrow> (Job \<times> bool) result \<times> store" where
  "RedriveDeadLetterControl command ent elapsed s =
     transact (RedriveDeadLetterControl_tx s command ent) (rc_requested_at command) elapsed s"

definition RetryJobControl_tx :: "store \<Rightarrow> RedriveControlCommand \<Rightarrow> entropy \<Rightarrow> int \<Rightarrow> db \<Rightarrow> ((Job \<times> bool) \<times> db) result" where
  "RetryJobControl_tx s command ent now db =
     (case lookup j_id (rc_job command) (jobs db) of
        None \<Rightarrow> Inl ErrNotFound
      | Some row \<Rightarrow>
          let original = scanJob row in
          bindE (readControlAction db (j_tenant original) (rc_key command) ''job.retry'' (rc_digest command)) (\<lambda>stored.
          case stored of
            Some (OpRetry job) \<Rightarrow> Inr ((job, True), db)
          | Some _ \<Rightarrow> Inl (ErrNew ''decode controlled retry response: %w'')
          | None \<Rightarrow>
              if \<not> Terminal (j_state original) then Inl ErrConflict
              else
                bindE (cloneJob s original ent now db) (\<lambda>(created, db1).
                bindE (appendEvent (rc_job command) ''operator_retry'' (j_state original) (j_state_version original) now
                         (redrive_event (rc_actor command) created) db1) (\<lambda>db2.
                bindE (insertControlAction
                         \<lparr>ct_tenant = j_tenant original, ct_key = rc_key command, ct_action = ''job.retry'',
                          ct_actor = rc_actor command, ct_reason = '''', ct_digest = rc_digest command,
                          ct_committed_at = now, ct_target_type = ''job'', ct_target_id = rc_job command,
                          ct_target_state = Some (j_state created), ct_target_version = j_state_version created,
                          ct_response = OpRetry created, ct_details = [(''created_job_id'', j_id created)]\<rparr> db2) (\<lambda>db3.
                Inr ((created, False), db3))))))"

definition RetryJobControl :: "RedriveControlCommand \<Rightarrow> entropy \<Rightarrow> int \<Rightarrow> store \<Rightarrow> (Job \<times> bool) result \<times> store" where
  "RetryJobControl command ent elapsed s =
     transact (RetryJobControl_tx s command ent) (rc_requested_at command) elapsed s"

subsection \<open>SaveDAG\<close>

definition SaveDAG_tx :: "string \<Rightarrow> string \<Rightarrow> string \<Rightarrow> string \<Rightarrow> (string \<times> string \<times> string) list \<Rightarrow> int \<Rightarrow> db \<Rightarrow> (unit \<times> db) result" where
  "SaveDAG_tx dagID tenantID key digest nodes now db =
     (case lookup dg_key key (dag_runs db) of
        Some r \<Rightarrow> if dg_id r \<noteq> dagID \<or> dg_digest r \<noteq> digest then Inl ErrIdempotencyConflict else Inr ((), db)
      | None \<Rightarrow>
          bindE (insert_dag_run dagID tenantID key digest now db) (\<lambda>db1.
          bindE (foldE (insert_dag_job dagID) nodes db1) (\<lambda>db2. Inr ((), db2))))"

definition SaveDAG :: "string \<Rightarrow> string \<Rightarrow> string \<Rightarrow> string \<Rightarrow> (string \<times> string \<times> string) list \<Rightarrow> int \<Rightarrow> int \<Rightarrow> store \<Rightarrow>
    unit result \<times> store" where
  "SaveDAG dagID tenantID key digest nodes requested elapsed s =
     transact (SaveDAG_tx dagID tenantID key digest nodes) requested elapsed s"

subsection \<open>The operator's actions\<close>

datatype ForceAction = ForceRelease | ForceFail | ForceDeadLetter

record CancelJobCommand =
  cj_job :: string
  cj_actor :: string
  cj_reason :: string
  cj_key :: string
  cj_digest :: string
  cj_requested_at :: int

definition CancelJob :: "CancelJobCommand \<Rightarrow> JobControlCommand" where
  "CancelJob command =
     \<lparr>jc_job = cj_job command, jc_receipt_action = ''cancel'', jc_audit_action = ''job.cancel'',
      jc_actor = cj_actor command, jc_reason = cj_reason command, jc_key = cj_key command,
      jc_digest = cj_digest command, jc_requested_at = cj_requested_at command, jc_next_state = StateFailed,
      jc_release = False\<rparr>"

definition force_string :: "ForceAction \<Rightarrow> string" where
  "force_string a = (case a of ForceRelease \<Rightarrow> ''release'' | ForceFail \<Rightarrow> ''fail'' | ForceDeadLetter \<Rightarrow> ''dead_letter'')"

definition ForceJobAction :: "ForceAction \<Rightarrow> CancelJobCommand \<Rightarrow> JobControlCommand" where
  "ForceJobAction action command =
     \<lparr>jc_job = cj_job command, jc_receipt_action = force_string action,
      jc_audit_action = ''job.force.'' @ force_string action, jc_actor = cj_actor command,
      jc_reason = cj_reason command, jc_key = cj_key command, jc_digest = cj_digest command,
      jc_requested_at = cj_requested_at command,
      jc_next_state = (case action of ForceRelease \<Rightarrow> StatePending | ForceFail \<Rightarrow> StateFailed | ForceDeadLetter \<Rightarrow> StateDeadLetter),
      jc_release = (action = ForceRelease)\<rparr>"

end
