(* ===== verification/Store_Triggers.thy ===== *)
theory Store_Triggers
  imports Store_Operations
begin

text \<open>
  \<^verbatim>\<open>internal/store/sqlite/triggers.go\<close> and \<^verbatim>\<open>workers.go\<close> with the keys of \<^verbatim>\<open>internal/trigger\<close>: cron
  triggers, Redis deliveries and worker registration.

  The cron expression parser is a third-party package: the operations take it as the argument \<open>parse\<close>, which maps
  an expression to its schedule (the next activation after a time) or an error. A Redis delivery is modelled from
  the decoded job specification and its digest on. \<^verbatim>\<open>FireDueCron\<close> commits trigger by trigger, so it returns
  the store it reached also when it fails; \<open>ent\<close> and \<open>elapsed\<close> give the random IDs and the clock of its
  \<^verbatim>\<open>SubmitJob\<close> calls.
\<close>

section \<open>Definitions\<close>

subsection \<open>Times as text\<close>

text \<open>The civil date of a day number counted from 1 January 1970.\<close>

definition civil_from_days :: "int \<Rightarrow> int \<times> int \<times> int" where
  "civil_from_days z0 =
     (let z = z0 + 719468;
          era = z div 146097;
          doe = z mod 146097;
          yoe = (doe - doe div 1460 + doe div 36524 - doe div 146096) div 365;
          doy = doe - (365 * yoe + yoe div 4 - yoe div 100);
          mp = (5 * doy + 2) div 153;
          d = doy - (153 * mp + 2) div 5 + 1;
          m = (if mp < 10 then mp + 3 else mp - 9);
          y = yoe + era * 400
      in (if m \<le> 2 then y + 1 else y, m, d))"

definition pad_zeros :: "nat \<Rightarrow> int \<Rightarrow> string" where
  "pad_zeros n x = (let s = decimal (nat x) in replicate (n - length s) CHR ''0'' @ s)"

definition fraction :: "int \<Rightarrow> string" where
  "fraction ns =
     (if ns = 0 then '''' else CHR ''.'' # rev (dropWhile (\<lambda>c. c = CHR ''0'') (rev (pad_zeros 9 ns))))"

definition RFC3339Nano :: "int \<Rightarrow> string" where
  "RFC3339Nano t =
     (let secs = t div 1000000000;
          rest = secs mod 86400
      in case civil_from_days (secs div 86400) of (y, m, d) \<Rightarrow>
           pad_zeros 4 y @ ''-'' @ pad_zeros 2 m @ ''-'' @ pad_zeros 2 d @ ''T'' @
           pad_zeros 2 (rest div 3600) @ '':'' @ pad_zeros 2 (rest mod 3600 div 60) @ '':'' @ pad_zeros 2 (rest mod 60) @
           fraction (t mod 1000000000) @ ''Z'')"

definition CronOccurrenceKey :: "string \<Rightarrow> int \<Rightarrow> string" where
  "CronOccurrenceKey triggerID nominal = ''cron:'' @ sha256_hex (triggerID @ [CHR 0x00] @ RFC3339Nano nominal)"

subsection \<open>Cron triggers\<close>

type_synonym cron_parser = "string \<Rightarrow> (int \<Rightarrow> int) result"

definition ParseCron :: "cron_parser \<Rightarrow> string \<Rightarrow> (int \<Rightarrow> int) result" where
  "ParseCron parse expression =
     (case parse expression of Inl e \<Rightarrow> Inl (ErrWrap ''parse cron expression: %w'' e) | Inr schedule \<Rightarrow> Inr schedule)"

record CronSubmission =
  cs_trigger :: CronTrigger
  cs_actor :: string
  cs_key :: string
  cs_digest :: string

definition cron_row_of :: "CronTrigger \<Rightarrow> string \<Rightarrow> int \<Rightarrow> cron_row" where
  "cron_row_of value actor now =
     \<lparr>cr_id = t_id value, cr_tenant = t_tenant value, cr_expression = t_expression value, cr_job = t_job value,
      cr_actor = actor, cr_next_fire_at = timeToDB (t_next_fire_at value), cr_enabled = True,
      cr_created_at = timeToDB now, cr_updated_at = timeToDB now\<rparr>"

definition CreateCronTrigger_tx :: "cron_parser \<Rightarrow> store \<Rightarrow> CronSubmission \<Rightarrow> entropy \<Rightarrow> int \<Rightarrow> db \<Rightarrow>
    ((CronTrigger \<times> bool) \<times> db) result" where
  "CreateCronTrigger_tx parse s submission ent now db =
     (let v0 = cs_trigger submission;
          v1 = (if t_tenant v0 = '''' then v0\<lparr>t_tenant := ''default''\<rparr> else v0);
          v2 = v1\<lparr>t_job := Normalize ((t_job v1)\<lparr>s_tenant := t_tenant v1\<rparr>)\<rparr> in
      bindE (JobSpec_Validate (t_job v2) (s_max_slot_cost s) (s_allow_shell s)) (\<lambda>_.
      bindE (ParseCron parse (t_expression v2)) (\<lambda>schedule.
      bindE (validateIdempotency (cs_key submission) (cs_digest submission)) (\<lambda>_.
      bindE (readIdempotency db (t_tenant v2) (cs_key submission) ''cron'' (cs_digest submission)) (\<lambda>found.
      case found of
        Some (RespCron existing) \<Rightarrow> Inr ((existing, True), db)
      | Some _ \<Rightarrow> Inl (ErrNew ''decode cron trigger response: %w'')
      | None \<Rightarrow>
          bindE (if t_id v2 = '''' then bindE (NewID ent) (\<lambda>(i, _). Inr i) else Inr (t_id v2)) (\<lambda>i.
          let value = v2\<lparr>t_id := i, t_enabled := True, t_created_at := now, t_updated_at := now,
                         t_next_fire_at := schedule now\<rparr> in
          case insert_row cr_id (cron_row_of value (cs_actor submission) now) (cron_triggers db) of
            None \<Rightarrow> Inl (ErrWrap ''insert cron trigger: %w'' sql_constraint)
          | Some rows \<Rightarrow>
              bindE (record_idempotency ''record cron idempotency: %w''
                       \<lparr>id_tenant = t_tenant value, id_key = cs_key submission, id_kind = ''cron'',
                        id_digest = cs_digest submission, id_job = None, id_response = RespCron value,
                        id_created_at = timeToDB now\<rparr> (db\<lparr>cron_triggers := rows\<rparr>)) (\<lambda>db1.
              Inr ((value, False), db1))))))))"

definition CreateCronTrigger :: "cron_parser \<Rightarrow> CronSubmission \<Rightarrow> entropy \<Rightarrow> int \<Rightarrow> int \<Rightarrow> store \<Rightarrow>
    (CronTrigger \<times> bool) result \<times> store" where
  "CreateCronTrigger parse submission ent requested elapsed s =
     transact (CreateCronTrigger_tx parse s submission ent) requested elapsed s"

definition cron_less :: "cron_row \<Rightarrow> cron_row \<Rightarrow> bool" where
  "cron_less a b \<longleftrightarrow> (cr_next_fire_at a, cr_id a) < (cr_next_fire_at b, cr_id b)"

definition due_triggers :: "db \<Rightarrow> int \<Rightarrow> int \<Rightarrow> cron_row list" where
  "due_triggers db now limit =
     take (nat limit) (sort_by cron_less (filter (\<lambda>r. cr_enabled r \<and> cr_next_fire_at r \<le> timeToDB now) (cron_triggers db)))"

definition occurrence_key :: "occurrence_row \<Rightarrow> string \<times> int" where
  "occurrence_key r = (oc_trigger r, oc_nominal_at r)"

definition record_occurrence :: "cron_row \<Rightarrow> string \<Rightarrow> int \<Rightarrow> int \<Rightarrow> db \<Rightarrow> db result" where
  "record_occurrence value jobID nextFireAt now db =
     (let row = \<lparr>oc_trigger = cr_id value, oc_nominal_at = timeToDB (timeFromDB (cr_next_fire_at value)), oc_job = jobID,
                 oc_created_at = timeToDB now\<rparr>
      in if cr_id value \<notin> cr_id ` set (cron_triggers db) \<or> \<not> job_exists db jobID
         then Inl (ErrWrap ''insert cron occurrence: %w'' sql_constraint)
         else
           let db1 = (case insert_row occurrence_key row (cron_occurrences db) of
                        None \<Rightarrow> db | Some rows \<Rightarrow> db\<lparr>cron_occurrences := rows\<rparr>)
           in Inr (db1\<lparr>cron_triggers := update_where
                (\<lambda>r. cr_id r = cr_id value \<and> cr_next_fire_at r = timeToDB (timeFromDB (cr_next_fire_at value)))
                (\<lambda>r. r\<lparr>cr_next_fire_at := timeToDB nextFireAt, cr_updated_at := timeToDB now\<rparr>) (cron_triggers db1)\<rparr>))"

fun fire_due :: "cron_parser \<Rightarrow> int \<Rightarrow> (nat \<Rightarrow> entropy) \<Rightarrow> (nat \<Rightarrow> int) \<Rightarrow> nat \<Rightarrow> cron_row list \<Rightarrow> string list \<Rightarrow> store \<Rightarrow>
    string list result \<times> store" where
  "fire_due parse now ent elapsed i [] ids s = (Inr ids, s)"
| "fire_due parse now ent elapsed i (value # rest) ids s =
     (let key = CronOccurrenceKey (cr_id value) (timeFromDB (cr_next_fire_at value));
          submission = \<lparr>sub_job = cr_job value, sub_actor = (if cr_actor value = '''' then ''system'' else cr_actor value),
                        sub_key = key, sub_digest = sha256_hex key\<rparr>
      in case SubmitJob submission (ent i) now (elapsed i) s of
           (Inl e, s1) \<Rightarrow> (Inl e, s1)
         | (Inr (job, _), s1) \<Rightarrow>
             (case ParseCron parse (cr_expression value) of
                Inl e \<Rightarrow> (Inl e, s1)
              | Inr schedule \<Rightarrow>
                  (case record_occurrence value (j_id job) (schedule now) now (s_db s1) of
                     Inl e \<Rightarrow> (Inl e, s1)
                   | Inr db' \<Rightarrow> fire_due parse now ent elapsed (i + 1) rest (ids @ [j_id job]) (s1\<lparr>s_db := db'\<rparr>))))"

definition FireDueCron :: "cron_parser \<Rightarrow> int \<Rightarrow> int \<Rightarrow> (nat \<Rightarrow> entropy) \<Rightarrow> (nat \<Rightarrow> int) \<Rightarrow> store \<Rightarrow>
    string list result \<times> store" where
  "FireDueCron parse now limit ent elapsed s =
     (if limit < 1 then (Inr [], s)
      else fire_due parse now ent elapsed 0 (due_triggers (s_db s) now limit) [] s)"

subsection \<open>Redis deliveries\<close>

record RedisDelivery =
  del_trigger :: string
  del_stream :: string
  del_message :: string

definition IdempotencyKey :: "RedisDelivery \<Rightarrow> string" where
  "IdempotencyKey d = ''redis:'' @ del_trigger d @ '':'' @ del_stream d @ '':'' @ del_message d"

definition redis_key :: "redis_row \<Rightarrow> string \<times> string \<times> string" where
  "redis_key r = (rd_trigger r, rd_stream r, rd_message r)"

definition record_delivery :: "RedisDelivery \<Rightarrow> string \<Rightarrow> int \<Rightarrow> db \<Rightarrow> db result" where
  "record_delivery d jobID now db =
     (let row = \<lparr>rd_trigger = del_trigger d, rd_stream = del_stream d, rd_message = del_message d, rd_job = jobID,
                 rd_created_at = timeToDB now\<rparr>
      in if \<not> job_exists db jobID then Inl (ErrWrap ''insert Redis delivery: %w'' sql_constraint)
         else case insert_row redis_key row (redis_deliveries db) of
                Some rows \<Rightarrow> Inr (db\<lparr>redis_deliveries := rows\<rparr>)
              | None \<Rightarrow>
                  (case lookup redis_key (redis_key row) (redis_deliveries db) of
                     None \<Rightarrow> Inl (ErrWrap ''read Redis delivery: %w'' sql_no_rows)
                   | Some r \<Rightarrow> if rd_job r \<noteq> jobID then Inl ErrIdempotencyConflict else Inr db))"

definition DeliverRedis :: "RedisDelivery \<Rightarrow> JobSpec \<Rightarrow> string \<Rightarrow> entropy \<Rightarrow> int \<Rightarrow> int \<Rightarrow> store \<Rightarrow> unit result \<times> store" where
  "DeliverRedis d spec digest ent now elapsed s =
     (case SubmitJob \<lparr>sub_job = spec, sub_actor = ''system'', sub_key = IdempotencyKey d, sub_digest = digest\<rparr> ent now elapsed s of
        (Inl e, s1) \<Rightarrow> (Inl e, s1)
      | (Inr (job, _), s1) \<Rightarrow>
          (case record_delivery d (j_id job) now (s_db s1) of
             Inl e \<Rightarrow> (Inl e, s1)
           | Inr db' \<Rightarrow> (Inr (), s1\<lparr>s_db := db'\<rparr>)))"

text \<open>\<^verbatim>\<open>handleMessages\<close>: a message is acknowledged only after its delivery was persisted. \<open>deliver\<close> is the sink
  and \<open>ack\<close> the client's acknowledgement; the result lists the acknowledged messages.\<close>

fun handleMessages :: "('m \<Rightarrow> 's \<Rightarrow> unit result \<times> 's) \<Rightarrow> ('m \<Rightarrow> unit result) \<Rightarrow> 'm list \<Rightarrow> 's \<Rightarrow>
    'm list \<times> go_err option \<times> 's" where
  "handleMessages deliver ack [] s = ([], None, s)"
| "handleMessages deliver ack (m # ms) s =
     (case deliver m s of
        (Inl e, s1) \<Rightarrow> ([], Some (ErrWrap ''persist Redis delivery %s: %w'' e), s1)
      | (Inr _, s1) \<Rightarrow>
          (case ack m of
             Inl e \<Rightarrow> ([], Some (ErrWrap ''acknowledge Redis delivery %s: %w'' e), s1)
           | Inr _ \<Rightarrow> (case handleMessages deliver ack ms s1 of (done, err, s2) \<Rightarrow> (m # done, err, s2))))"

subsection \<open>Workers\<close>

definition RegisterWorker_tx :: "string \<Rightarrow> int \<Rightarrow> int \<Rightarrow> db \<Rightarrow> (unit \<times> db) result" where
  "RegisterWorker_tx workerID capacitySlots now db =
     (case lookup wk_id workerID (workers db) of
        Some w \<Rightarrow>
          if wk_capacity w \<noteq> capacitySlots then Inl ErrWorkerCapacityConflict
          else Inr ((), db\<lparr>workers := update_where (\<lambda>r. wk_id r = workerID)
                 (\<lambda>r. r\<lparr>wk_last_heartbeat_at := max (wk_last_heartbeat_at r) (timeToDB now)\<rparr>) (workers db)\<rparr>)
      | None \<Rightarrow>
          Inr ((), db\<lparr>workers := workers db @
            [\<lparr>wk_id = workerID, wk_capacity = capacitySlots, wk_registered_at = timeToDB now,
              wk_last_heartbeat_at = timeToDB now\<rparr>]\<rparr>))"

definition RegisterWorker :: "string \<Rightarrow> int \<Rightarrow> int \<Rightarrow> int \<Rightarrow> store \<Rightarrow> unit result \<times> store" where
  "RegisterWorker workerID capacitySlots requested elapsed s =
     (if workerID = '''' then (Inl (ErrNew ''worker ID must not be empty''), s)
      else if capacitySlots < 1 then (Inl (ErrNew ''worker capacity must be positive''), s)
      else transact (RegisterWorker_tx workerID capacitySlots) requested elapsed s)"

definition HeartbeatWorker :: "string \<Rightarrow> int \<Rightarrow> int \<Rightarrow> store \<Rightarrow> unit result \<times> store" where
  "HeartbeatWorker workerID requested elapsed s =
     (if workerID = '''' then (Inl (ErrNew ''worker ID must not be empty''), s)
      else transact (\<lambda>now db.
             let p = (\<lambda>r. wk_id r = workerID) in
             if affected p (workers db) \<noteq> 1 then Inl ErrNotFound
             else Inr ((), db\<lparr>workers := update_where p
                    (\<lambda>r. r\<lparr>wk_last_heartbeat_at := max (wk_last_heartbeat_at r) (timeToDB now)\<rparr>) (workers db)\<rparr>))
           requested elapsed s)"

end
