(* ===== verification/Workflow_Validation.thy ===== *)
theory Workflow_Validation
  imports Store_Submissions
begin

text \<open>
  Correctness of \<^verbatim>\<open>validateWorkflow\<close>: the graph it builds over node indexes, and that it accepts a
  workflow of valid nodes exactly when the dependencies have no cycle. The loop is Kahn's loop of theory \<open>Dag\<close>
  with the first-in first-out queue.
\<close>

section \<open>Definitions\<close>

text \<open>The graph after some of the \<open>n\<close> nodes have been resolved.\<close>

definition graph_inv :: "nat \<Rightarrow> workflow_graph \<Rightarrow> bool" where
  "graph_inv n g \<longleftrightarrow>
     length (wg_specs g) = length (wg_dependencies g) \<and> length (wg_dependencies g) \<le> n \<and>
     (\<forall>ps \<in> set (wg_dependencies g). distinct ps \<and> set ps \<subseteq> {0..<n}) \<and>
     wg_children g = (\<lambda>p. filter (\<lambda>c. p \<in> set (wg_dependencies g ! c)) [0..<length (wg_dependencies g)]) \<and>
     map fst (wg_indegree g) = [0..<n] \<and>
     (\<forall>k. degree (wg_indegree g) k = (if k < length (wg_dependencies g) then int (length (wg_dependencies g ! k)) else 0))"

definition index_deps :: "nat list list \<Rightarrow> nat \<Rightarrow> nat list" where
  "index_deps deps c = (if c < length deps then deps ! c else [])"

text \<open>The workflow as its author wrote it: nodes named by keys.\<close>

definition node_spec :: "string \<Rightarrow> WorkflowNode \<Rightarrow> JobSpec" where
  "node_spec t node = Normalize ((wn_job node)\<lparr>s_tenant := t\<rparr>)"

definition key_deps :: "string \<Rightarrow> WorkflowNode list \<Rightarrow> string \<Rightarrow> string list" where
  "key_deps t nodes k = (case lookup wn_key k nodes of None \<Rightarrow> [] | Some node \<Rightarrow> s_depends_on (node_spec t node))"

definition valid_nodes :: "string \<Rightarrow> int \<Rightarrow> bool \<Rightarrow> WorkflowNode list \<Rightarrow> bool" where
  "valid_nodes t maxSlotCost allowShell nodes \<longleftrightarrow>
     nodes \<noteq> [] \<and> distinct (map wn_key nodes) \<and>
     (\<forall>node \<in> set nodes. trim_space (wn_key node) \<noteq> '''' \<and> is_ok (JobSpec_Validate (node_spec t node) maxSlotCost allowShell) \<and>
        distinct (s_depends_on (node_spec t node)) \<and> set (s_depends_on (node_spec t node)) \<subseteq> wn_key ` set nodes)"

definition node_parents :: "(string \<times> nat) list \<Rightarrow> string \<Rightarrow> WorkflowNode \<Rightarrow> nat list" where
  "node_parents idx t node = map (the \<circ> map_of idx) (s_depends_on (node_spec t node))"

definition node_ok :: "(string \<times> nat) list \<Rightarrow> string \<Rightarrow> int \<Rightarrow> bool \<Rightarrow> WorkflowNode \<Rightarrow> bool" where
  "node_ok idx t mx sh node \<longleftrightarrow> is_ok (JobSpec_Validate (node_spec t node) mx sh) \<and>
     set (s_depends_on (node_spec t node)) \<subseteq> dom (map_of idx) \<and> distinct (node_parents idx t node)"

section \<open>Lemmas\<close>

subsection \<open>The passes over the nodes\<close>

lemma index_nodes_Inr_iff:
  "index_nodes nodes i m = Inr m' \<longleftrightarrow>
   m' = m @ zip (map wn_key nodes) [i..<i + length nodes] \<and> distinct (map wn_key nodes) \<and>
   fst ` set m \<inter> wn_key ` set nodes = {} \<and> (\<forall>node \<in> set nodes. trim_space (wn_key node) \<noteq> '''')"
proof (induction nodes i m rule: index_nodes.induct)
  case (2 node nodes i m)
  have u: "zip (wn_key node # map wn_key nodes) [i..<Suc (i + length nodes)] =
      (wn_key node, i) # zip (map wn_key nodes) [Suc i..<Suc (i + length nodes)]"
    by (simp add: upt_conv_Cons del: upt_Suc)
  show ?case
  proof (cases "trim_space (wn_key node) = '''' \<or> wn_key node \<in> fst ` set m")
    case True
    then show ?thesis by (auto simp: map_of_eq_None_iff)
  next
    case False
    then show ?thesis using "2.IH" u by (auto simp: map_of_eq_None_iff simp del: upt_Suc)
  qed
qed auto

lemma index_nodes_err: "index_nodes nodes i m = Inl e \<Longrightarrow> e \<noteq> ErrCycleDetected"
  by (induction nodes i m rule: index_nodes.induct) (auto split: if_splits)

lemma resolve_parents_Inr_iff:
  "resolve_parents idx c ks ps (ch, m) = Inr (ps', ch', m') \<longleftrightarrow>
   set ks \<subseteq> dom (map_of idx) \<and> distinct (map (the \<circ> map_of idx) ks) \<and> set (map (the \<circ> map_of idx) ks) \<inter> set ps = {} \<and>
   ps' = ps @ map (the \<circ> map_of idx) ks \<and> m' = (increment c ^^ length ks) m \<and>
   ch' = (\<lambda>p. if p \<in> set (map (the \<circ> map_of idx) ks) then ch p @ [c] else ch p)"
proof (induction ks arbitrary: ps ch m)
  case Nil
  then show ?case by auto
next
  case (Cons k ks)
  show ?case
  proof (cases "map_of idx k")
    case None
    then show ?thesis by auto
  next
    case (Some p)
    show ?thesis
    proof (cases "p \<in> set ps")
      case True
      then show ?thesis using Some by auto
    next
      case False
      let ?I = "the \<circ> map_of idx"
      have step: "resolve_parents idx c (k # ks) ps (ch, m) =
          resolve_parents idx c ks (ps @ [p]) (ch(p := ch p @ [c]), increment c m)"
        using Some False by simp
      have I: "map ?I (k # ks) = p # map ?I ks" "k \<in> dom (map_of idx)" using Some by auto
      show ?thesis
      proof (cases "p \<in> set (map ?I ks)")
        case True
        then show ?thesis unfolding step Cons.IH I by auto
      next
        case new: False
        have "(\<lambda>q. if q \<in> set (map ?I ks) then (ch(p := ch p @ [c])) q @ [c] else (ch(p := ch p @ [c])) q) =
            (\<lambda>q. if q \<in> set (p # map ?I ks) then ch q @ [c] else ch q)"
          using new by (intro ext) auto
        moreover have "(increment c ^^ length ks) (increment c m) = (increment c ^^ length (k # ks)) m"
          by (simp add: funpow_swap1)
        ultimately show ?thesis unfolding step Cons.IH I using False new Some by auto
      qed
    qed
  qed
qed

lemma resolve_parents_err: "resolve_parents idx c ks ps st = Inl e \<Longrightarrow> e \<noteq> ErrCycleDetected"
  by (induction idx c ks ps st rule: resolve_parents.induct) (auto split: if_splits option.splits)

lemma increments:
  "c \<in> fst ` set m \<Longrightarrow> map fst ((increment c ^^ j) m) = map fst m"
  "degree ((increment c ^^ j) m) k = degree m k + (if k = c then int j else 0)"
proof -
  show d: "degree ((increment c ^^ j) m) k = degree m k + (if k = c then int j else 0)"
    by (induction j) (auto simp: degree_increment)
  show "map fst ((increment c ^^ j) m) = map fst m" if c: "c \<in> fst ` set m"
  proof (induction j)
    case (Suc j)
    then have "c \<in> fst ` set ((increment c ^^ j) m)" using c by (metis list.set_map)
    then show ?case using Suc by (simp add: map_fst_increment)
  qed simp
qed

lemma graph_inv_add:
  assumes inv: "graph_inv n g" and room: "length (wg_specs g) < n" and ps: "distinct ps" "set ps \<subseteq> {0..<n}"
  shows "graph_inv n \<lparr>wg_specs = wg_specs g @ [spec], wg_dependencies = wg_dependencies g @ [ps],
    wg_children = (\<lambda>p. if p \<in> set ps then wg_children g p @ [length (wg_specs g)] else wg_children g p),
    wg_indegree = (increment (length (wg_specs g)) ^^ length ps) (wg_indegree g)\<rparr>"
proof -
  let ?d = "wg_dependencies g"
  have l: "length (wg_specs g) = length ?d" using inv by (simp add: graph_inv_def)
  have "set (map fst (wg_indegree g)) = {0..<n}" using inv by (simp add: graph_inv_def)
  then have c: "length ?d \<in> fst ` set (wg_indegree g)" using room l by simp
  have old: "filter (\<lambda>c. p \<in> set ((?d @ [ps]) ! c)) [0..<length ?d] = filter (\<lambda>c. p \<in> set (?d ! c)) [0..<length ?d]" for p
    by (rule filter_cong) (auto simp: nth_append)
  show ?thesis
    using assms l old increments(1)[OF c] by (auto simp: graph_inv_def nth_append fun_eq_iff increments(2))
qed

lemma resolve_nodes_cases:
  assumes "graph_inv n g" and "length (wg_specs g) + length nodes = n" and "ran (map_of idx) \<subseteq> {0..<n}"
  shows "if \<forall>node \<in> set nodes. node_ok idx t mx sh node
    then \<exists>g'. resolve_nodes idx t mx sh nodes g = Inr g' \<and> graph_inv n g' \<and>
      wg_specs g' = wg_specs g @ map (node_spec t) nodes \<and> wg_dependencies g' = wg_dependencies g @ map (node_parents idx t) nodes
    else \<exists>e. resolve_nodes idx t mx sh nodes g = Inl e \<and> e \<noteq> ErrCycleDetected"
  using assms
proof (induction nodes arbitrary: g)
  case Nil
  then show ?case by simp
next
  case (Cons node nodes)
  let ?c = "length (wg_specs g)" let ?ks = "s_depends_on (node_spec t node)"
  let ?g = "\<lparr>wg_specs = wg_specs g @ [node_spec t node], wg_dependencies = wg_dependencies g @ [node_parents idx t node],
    wg_children = (\<lambda>p. if p \<in> set (node_parents idx t node) then wg_children g p @ [?c] else wg_children g p),
    wg_indegree = (increment ?c ^^ length (node_parents idx t node)) (wg_indegree g)\<rparr>"
  have unfold: "resolve_nodes idx t mx sh (node # nodes) g =
      (case JobSpec_Validate (node_spec t node) mx sh of Inl e \<Rightarrow> Inl (ErrWrap ''validate workflow node %q: %w'' e)
       | Inr _ \<Rightarrow> bindE (resolve_parents idx ?c ?ks [] (wg_children g, wg_indegree g)) (\<lambda>(parents, children, indegree).
          resolve_nodes idx t mx sh nodes \<lparr>wg_specs = wg_specs g @ [node_spec t node],
            wg_dependencies = wg_dependencies g @ [parents], wg_children = children, wg_indegree = indegree\<rparr>))"
    unfolding resolve_nodes.simps node_spec_def Let_def by (rule refl)
  note parents = resolve_parents_Inr_iff[of idx ?c ?ks "[]" "wg_children g" "wg_indegree g"]
  show ?case
  proof (cases "node_ok idx t mx sh node")
    case True
    then have "resolve_parents idx ?c ?ks [] (wg_children g, wg_indegree g) =
        Inr (node_parents idx t node, wg_children ?g, wg_indegree ?g)"
      unfolding parents by (auto simp: node_ok_def node_parents_def)
    then have "resolve_nodes idx t mx sh (node # nodes) g = resolve_nodes idx t mx sh nodes ?g"
      using True unfolding unfold by (auto simp: node_ok_def is_ok_def split: sum.splits)
    moreover have "set (node_parents idx t node) \<subseteq> {0..<n}"
      using True Cons.prems(3) by (force simp: node_ok_def node_parents_def ran_def dom_def)
    then have "graph_inv n ?g" using graph_inv_add[OF Cons.prems(1)] Cons.prems(2) True by (simp add: node_ok_def)
    ultimately show ?thesis
      using Cons.IH[of ?g] Cons.prems True by (auto simp del: resolve_nodes.simps split: if_split_asm)
  next
    case False
    have "\<exists>e. resolve_nodes idx t mx sh (node # nodes) g = Inl e \<and> e \<noteq> ErrCycleDetected"
    proof (cases "JobSpec_Validate (node_spec t node) mx sh")
      case (Inr u)
      have "\<exists>e. resolve_parents idx ?c ?ks [] (wg_children g, wg_indegree g) = Inl e \<and> e \<noteq> ErrCycleDetected"
      proof (cases "resolve_parents idx ?c ?ks [] (wg_children g, wg_indegree g)")
        case (Inr r)
        then have "node_ok idx t mx sh node"
          using parents[of "fst r" "fst (snd r)" "snd (snd r)"] \<open>JobSpec_Validate (node_spec t node) mx sh = Inr u\<close>
          by (simp add: node_ok_def node_parents_def is_ok_def)
        then show ?thesis using False by simp
      qed (use resolve_parents_err in blast)
      then show ?thesis unfolding unfold using Inr by auto
    qed (simp add: unfold del: resolve_nodes.simps)
    then show ?thesis using False by (auto simp del: resolve_nodes.simps)
  qed
qed

subsection \<open>The loop\<close>

lemma kahn_inv_initial:
  assumes "distinct K" and m: "map fst m = K" and "\<And>k. k \<in> set K \<Longrightarrow> distinct (deps k)"
    and deg: "\<And>k. k \<in> set K \<Longrightarrow> degree m k = int (length (deps k))"
  shows "kahn_inv K deps [] (map fst (filter (\<lambda>(k, d). d = 0) m)) m"
proof -
  have dm: "distinct (map fst m)" using assms(1) m by simp
  have pairs: "(k, x) \<in> set m \<longleftrightarrow> k \<in> set K \<and> x = degree m k" for k x
  proof -
    have "k \<in> set K \<longleftrightarrow> k \<in> fst ` set m" by (metis list.set_map m)
    then show ?thesis
      using map_of_eq_Some_iff[OF dm, of k x] map_of_eq_None_iff[of m k] by (auto simp: degree_def split: option.splits)
  qed
  have "set (map fst (filter (\<lambda>(k, d). d = 0) m)) = {k. (k, 0) \<in> set m}" by force
  also have "\<dots> = {k \<in> set K. degree m k = 0}" by (auto simp: pairs)
  also have "\<dots> = {k \<in> set K. deps k = []}" using deg by auto
  finally have ready: "set (map fst (filter (\<lambda>(k, d). d = 0) m)) = available K deps []"
    by (auto simp: available_def)
  have "degree m k = int (card (set (deps k) - set []))" if "k \<in> set K" for k
    using deg[OF that] assms(3)[OF that] by (simp add: distinct_card)
  then show ?thesis
    unfolding kahn_inv_def ready using dm by (auto simp: topo_sorted_def distinct_map_filter)
qed

lemma graph_inv_loop:
  assumes "graph_inv n g" and full: "length (wg_dependencies g) = n"
  shows "length (kahn (\<lambda>r _. length r) (wg_children g) (map fst (filter (\<lambda>(i, d). d = 0) (wg_indegree g))) (wg_indegree g) []) = n
    \<longleftrightarrow> acyclic (edges [0..<n] (index_deps (wg_dependencies g)))"
proof -
  let ?K = "[0..<n]" and ?D = "index_deps (wg_dependencies g)"
  have deps: "distinct (?D k) \<and> set (?D k) \<subseteq> {0..<n}" if "k < n" for k
    using that assms by (auto simp: graph_inv_def index_deps_def)
  have g: "graph_ok ?K ?D (wg_children g)"
    using deps assms by (auto simp: graph_ok_def graph_inv_def index_deps_def)
  have "kahn_inv ?K ?D [] (map fst (filter (\<lambda>(i, d). d = 0) (wg_indegree g))) (wg_indegree g)"
    by (rule kahn_inv_initial) (use assms deps in \<open>auto simp: graph_inv_def index_deps_def\<close>)
  then obtain m' where "kahn_inv ?K ?D (kahn (\<lambda>r _. length r) (wg_children g)
      (map fst (filter (\<lambda>(i, d). d = 0) (wg_indegree g))) (wg_indegree g) []) [] m'"
    using fifo_queue.kahn_correct[OF g] by (fastforce simp: greedy_def)
  from kahn_inv_length_iff[OF this] show ?thesis using deps by simp
qed

subsection \<open>Keys and indexes\<close>

lemma acyclic_image:
  assumes "inj_on h (Field r)"
  shows "acyclic (map_prod h h ` r) \<longleftrightarrow> acyclic r"
proof
  have up: "(h x, h y) \<in> (map_prod h h ` r)\<^sup>+" if "(x, y) \<in> r\<^sup>+" for x y
    using that
  proof (induction rule: trancl_induct)
    case (base y)
    then show ?case by force
  next
    case (step y z)
    then have "(h y, h z) \<in> map_prod h h ` r" by force
    then show ?case using step.IH by (rule trancl.trancl_into_trancl[rotated])
  qed
  show "acyclic r" if "acyclic (map_prod h h ` r)"
    using that up by (auto simp: acyclic_def)
  have down: "\<exists>x y. a = h x \<and> b = h y \<and> (x, y) \<in> r\<^sup>+" if "(a, b) \<in> (map_prod h h ` r)\<^sup>+" for a b
    using that
  proof (induction rule: trancl_induct)
    case (base y)
    then show ?case by force
  next
    case (step b c)
    obtain x y where xy: "a = h x" "b = h y" "(x, y) \<in> r\<^sup>+" using step.IH by blast
    obtain y' z where yz: "b = h y'" "c = h z" "(y', z) \<in> r" using step.hyps(2) by auto
    have "y \<in> Field r" "y' \<in> Field r" using xy(3) yz(3) by (auto simp: Field_def elim: tranclE)
    then have "y = y'" using assms xy(2) yz(1) by (auto dest: inj_onD)
    then have "(x, z) \<in> r\<^sup>+" using xy(3) yz(3) by (meson trancl.trancl_into_trancl)
    then show ?case using xy(1) yz(2) by blast
  qed
  show "acyclic (map_prod h h ` r)" if ac: "acyclic r"
    unfolding acyclic_def
  proof (intro allI notI)
    fix a assume "(a, a) \<in> (map_prod h h ` r)\<^sup>+"
    then obtain x y where xy: "h x = h y" "(x, y) \<in> r\<^sup>+" using down by metis
    have "x \<in> Field r" "y \<in> Field r" using xy(2) by (auto simp: Field_def elim: tranclE dest: tranclD)
    then show False using assms xy ac by (auto simp: acyclic_def dest: inj_onD)
  qed
qed

lemma index_map:
  assumes "distinct (map wn_key nodes)"
  shows "map_of (zip (map wn_key nodes) [0..<length nodes]) k = Some p \<longleftrightarrow> p < length nodes \<and> wn_key (nodes ! p) = k"
  using assms by (subst map_of_eq_Some_iff) (auto simp: in_set_zip intro!: exI[of _ p])

lemma index_dom:
  assumes "distinct (map wn_key nodes)"
  shows "dom (map_of (zip (map wn_key nodes) [0..<length nodes])) = wn_key ` set nodes"
    and "ran (map_of (zip (map wn_key nodes) [0..<length nodes])) \<subseteq> {0..<length nodes}"
    and "inj_on (the \<circ> map_of (zip (map wn_key nodes) [0..<length nodes])) (wn_key ` set nodes)"
proof -
  let ?idx = "map_of (zip (map wn_key nodes) [0..<length nodes])"
  show d: "dom ?idx = wn_key ` set nodes" by (simp add: dom_map_of_zip)
  show "ran ?idx \<subseteq> {0..<length nodes}" using index_map[OF assms] by (auto simp: ran_def)
  show "inj_on (the \<circ> ?idx) (wn_key ` set nodes)"
  proof (rule inj_onI)
    fix a b assume ab: "a \<in> wn_key ` set nodes" "b \<in> wn_key ` set nodes" "(the \<circ> ?idx) a = (the \<circ> ?idx) b"
    then obtain p q where pq: "?idx a = Some p" "?idx b = Some q" using d by blast
    then have "p = q" using ab(3) by simp
    then show "a = b" using pq index_map[OF assms] by metis
  qed
qed

lemma valid_nodes_iff:
  assumes "distinct (map wn_key nodes)"
  shows "valid_nodes t mx sh nodes \<longleftrightarrow> nodes \<noteq> [] \<and> (\<forall>node \<in> set nodes. trim_space (wn_key node) \<noteq> '''') \<and>
    (\<forall>node \<in> set nodes. node_ok (zip (map wn_key nodes) [0..<length nodes]) t mx sh node)"
proof -
  let ?idx = "zip (map wn_key nodes) [0..<length nodes]"
  have "node_ok ?idx t mx sh node \<longleftrightarrow> is_ok (JobSpec_Validate (node_spec t node) mx sh) \<and>
      distinct (s_depends_on (node_spec t node)) \<and> set (s_depends_on (node_spec t node)) \<subseteq> wn_key ` set nodes" for node
    using inj_on_subset[OF index_dom(3)[OF assms], of "set (s_depends_on (node_spec t node))"] index_dom(1)[OF assms]
    by (auto simp: node_ok_def node_parents_def distinct_map)
  then show ?thesis using assms by (auto simp: valid_nodes_def)
qed

lemma acyclic_keys:
  assumes "valid_nodes t mx sh nodes"
  shows "acyclic (edges [0..<length nodes] (index_deps (map (node_parents (zip (map wn_key nodes) [0..<length nodes]) t) nodes)))
    \<longleftrightarrow> acyclic (edges (map wn_key nodes) (key_deps t nodes))"
proof -
  let ?idx = "zip (map wn_key nodes) [0..<length nodes]" let ?h = "\<lambda>i. wn_key (nodes ! i)"
  let ?E = "edges [0..<length nodes] (index_deps (map (node_parents ?idx t) nodes))"
  have d: "distinct (map wn_key nodes)" using assms by (simp add: valid_nodes_def)
  have kd: "key_deps t nodes (?h i) = s_depends_on (node_spec t (nodes ! i))" if "i < length nodes" for i
    using lookup_distinct[OF d, of "nodes ! i"] that by (simp add: key_deps_def)
  have unindex: "the (map_of ?idx k) < length nodes \<and> ?h (the (map_of ?idx k)) = k" if k: "k \<in> wn_key ` set nodes" for k
  proof -
    obtain p where "map_of ?idx k = Some p" using k index_dom(1)[OF d] by blast
    then show ?thesis using index_map[OF d, of k p] by simp
  qed
  have deps: "set (s_depends_on (node_spec t (nodes ! i))) \<subseteq> wn_key ` set nodes" if "i < length nodes" for i
    using assms that by (auto simp: valid_nodes_def)
  have E: "?E = {(the (map_of ?idx k), i) | k i. i < length nodes \<and> k \<in> set (s_depends_on (node_spec t (nodes ! i)))}"
    by (auto simp: edges_def index_deps_def node_parents_def)
  have image: "edges (map wn_key nodes) (key_deps t nodes) = map_prod ?h ?h ` ?E"
  proof (rule equalityI; rule subsetI)
    fix e assume "e \<in> edges (map wn_key nodes) (key_deps t nodes)"
    then obtain k node where k: "e = (k, wn_key node)" "node \<in> set nodes" "k \<in> set (key_deps t nodes (wn_key node))"
      by (auto simp: edges_def)
    then obtain i where i: "i < length nodes" "node = nodes ! i" by (metis in_set_conv_nth)
    then have e: "e = (k, ?h i)" "i < length nodes" "k \<in> set (s_depends_on (node_spec t (nodes ! i)))"
      using k kd[OF i(1)] by auto
    then have "(the (map_of ?idx k), i) \<in> ?E" unfolding E by blast
    moreover have "?h (the (map_of ?idx k)) = k" using unindex[of k] deps[OF e(2)] e(3) by auto
    ultimately show "e \<in> map_prod ?h ?h ` ?E" using e(1) by force
  next
    fix e assume "e \<in> map_prod ?h ?h ` ?E"
    then obtain k i where e: "e = (?h (the (map_of ?idx k)), ?h i)" "i < length nodes" "k \<in> set (s_depends_on (node_spec t (nodes ! i)))"
      unfolding E by auto
    moreover have "?h (the (map_of ?idx k)) = k" using unindex[of k] deps[OF e(2)] e(3) by auto
    ultimately show "e \<in> edges (map wn_key nodes) (key_deps t nodes)"
      using kd by (auto simp: edges_def)
  qed
  have "Field ?E \<subseteq> {0..<length nodes}"
  proof
    fix x assume "x \<in> Field ?E"
    then obtain k i where "i < length nodes" "k \<in> set (s_depends_on (node_spec t (nodes ! i)))"
      "x = i \<or> x = the (map_of ?idx k)"
      unfolding E by (auto simp: Field_def)
    then show "x \<in> {0..<length nodes}" using unindex[of k] deps[of i] by auto
  qed
  moreover have "inj_on ?h {0..<length nodes}"
    using d unfolding inj_on_def distinct_conv_nth by (metis atLeastLessThan_iff length_map nth_map)
  ultimately have "inj_on ?h (Field ?E)" by (rule inj_on_subset[rotated])
  then show ?thesis unfolding image by (rule acyclic_image[symmetric])
qed

lemma graph_inv_start: "graph_inv n \<lparr>wg_specs = [], wg_dependencies = [], wg_children = (\<lambda>_. []), wg_indegree = map (\<lambda>i. (i, 0)) [0..<n]\<rparr>"
proof -
  have "degree (map (\<lambda>i. (i, 0)) xs) k = 0" for xs :: "nat list" and k
    by (induction xs) (auto simp: degree_def)
  then show ?thesis by (simp add: graph_inv_def comp_def)
qed

lemma validateWorkflow_cases:
  "if valid_nodes t mx sh (ws_nodes w)
   then validateWorkflow w t mx sh = (if acyclic (edges (map wn_key (ws_nodes w)) (key_deps t (ws_nodes w)))
     then Inr (map (node_spec t) (ws_nodes w),
       map (node_parents (zip (map wn_key (ws_nodes w)) [0..<length (ws_nodes w)]) t) (ws_nodes w))
     else Inl ErrCycleDetected)
   else \<exists>e. validateWorkflow w t mx sh = Inl e \<and> e \<noteq> ErrCycleDetected"
proof -
  define nodes where "nodes = ws_nodes w"
  let ?idx = "zip (map wn_key nodes) [0..<length nodes]"
  let ?g = "\<lparr>wg_specs = [], wg_dependencies = [], wg_children = (\<lambda>_. []), wg_indegree = map (\<lambda>i. (i, 0)) [0..<length nodes]\<rparr>"
  have unfold: "validateWorkflow w t mx sh = (if nodes = [] then Inl (ErrNew ''workflow must contain at least one node'')
      else bindE (index_nodes nodes 0 []) (\<lambda>idx. bindE (resolve_nodes idx t mx sh nodes ?g) (\<lambda>g.
        if length (kahn (\<lambda>r _. length r) (wg_children g) (map fst (filter (\<lambda>(i, d). d = 0) (wg_indegree g))) (wg_indegree g) []) \<noteq>
          length nodes then Inl ErrCycleDetected else Inr (wg_specs g, wg_dependencies g))))"
    by (simp add: validateWorkflow_def nodes_def Let_def)
  show ?thesis
  proof (cases "nodes \<noteq> [] \<and> distinct (map wn_key nodes) \<and> (\<forall>node \<in> set nodes. trim_space (wn_key node) \<noteq> '''')")
    case False
    then have "\<not> valid_nodes t mx sh nodes" by (auto simp: valid_nodes_def)
    moreover have "\<exists>e. validateWorkflow w t mx sh = Inl e \<and> e \<noteq> ErrCycleDetected"
      using False index_nodes_Inr_iff[of nodes 0 "[]"] index_nodes_err[of nodes 0 "[]"]
      unfolding unfold by (cases "index_nodes nodes 0 []") auto
    ultimately show ?thesis by (simp add: nodes_def)
  next
    case True
    then have idx: "index_nodes nodes 0 [] = Inr ?idx" by (auto simp: index_nodes_Inr_iff)
    have d: "distinct (map wn_key nodes)" using True by simp
    note r = resolve_nodes_cases[OF graph_inv_start, of "length nodes" nodes ?idx t mx sh, OF _ index_dom(2)[OF d]]
    show ?thesis
    proof (cases "valid_nodes t mx sh nodes")
      case v: True
      then obtain g where g: "resolve_nodes ?idx t mx sh nodes ?g = Inr g" "graph_inv (length nodes) g"
        "wg_specs g = map (node_spec t) nodes" "wg_dependencies g = map (node_parents ?idx t) nodes"
        using r valid_nodes_iff[OF d, of t mx sh] by auto
      have "validateWorkflow w t mx sh = (if acyclic (edges (map wn_key nodes) (key_deps t nodes))
          then Inr (map (node_spec t) nodes, map (node_parents ?idx t) nodes) else Inl ErrCycleDetected)"
        using graph_inv_loop[OF g(2)] g True acyclic_keys[OF v] by (simp add: unfold idx)
      then show ?thesis using v by (simp add: nodes_def)
    next
      case v: False
      then obtain e where "resolve_nodes ?idx t mx sh nodes ?g = Inl e" "e \<noteq> ErrCycleDetected"
        using r valid_nodes_iff[OF d, of t mx sh] True by (auto split: if_split_asm)
      then have "\<exists>e. validateWorkflow w t mx sh = Inl e \<and> e \<noteq> ErrCycleDetected"
        using True by (simp add: unfold idx)
      then show ?thesis using v by (simp add: nodes_def)
    qed
  qed
qed

text \<open>What an accepted workflow looks like to the inserts that follow.\<close>

lemma validateWorkflow_Inr:
  assumes "validateWorkflow w t mx sh = Inr (specs, deps)"
  shows "length specs = length (ws_nodes w) \<and> length deps = length specs \<and> (\<forall>ps \<in> set deps. set ps \<subseteq> {0..<length deps}) \<and>
    acyclic (edges [0..<length deps] (index_deps deps)) \<and> specs = map (node_spec t) (ws_nodes w)"
proof -
  let ?nodes = "ws_nodes w"
  have v: "valid_nodes t mx sh ?nodes" and ac: "acyclic (edges (map wn_key ?nodes) (key_deps t ?nodes))"
    and r: "specs = map (node_spec t) ?nodes" "deps = map (node_parents (zip (map wn_key ?nodes) [0..<length ?nodes]) t) ?nodes"
    using validateWorkflow_cases[of t mx sh w] assms by (auto split: if_splits)
  have d: "distinct (map wn_key ?nodes)" using v by (simp add: valid_nodes_def)
  have "set ps \<subseteq> {0..<length ?nodes}" if ps: "ps \<in> set deps" for ps
  proof -
    obtain node where node: "node \<in> set ?nodes" "ps = node_parents (zip (map wn_key ?nodes) [0..<length ?nodes]) t node"
      using ps r(2) by auto
    then have "set (s_depends_on (node_spec t node)) \<subseteq> wn_key ` set ?nodes" using v by (auto simp: valid_nodes_def)
    then show ?thesis
      using node(2) index_dom(1,2)[OF d] by (fastforce simp: node_parents_def ran_def dom_def)
  qed
  then show ?thesis using r acyclic_keys[OF v] ac by simp
qed

section \<open>Properties\<close>

text \<open>C11: \<^verbatim>\<open>validateWorkflow\<close> accepts a workflow exactly when it has nodes, every node has a fresh non-blank key, a
  valid job specification and distinct dependencies that name nodes of the workflow, and the dependency relation
  has no cycle; it reports a cycle exactly when only the last condition fails.\<close>

theorem validateWorkflow_decides:
  "(is_ok (validateWorkflow w t mx sh) \<longleftrightarrow>
      valid_nodes t mx sh (ws_nodes w) \<and> acyclic (edges (map wn_key (ws_nodes w)) (key_deps t (ws_nodes w)))) \<and>
   (validateWorkflow w t mx sh = Inl ErrCycleDetected \<longleftrightarrow>
      valid_nodes t mx sh (ws_nodes w) \<and> \<not> acyclic (edges (map wn_key (ws_nodes w)) (key_deps t (ws_nodes w))))"
  using validateWorkflow_cases[of t mx sh w] by (auto split: if_splits)

end
