(* ===== verification/Refine_Submissions.thy ===== *)
theory Refine_Submissions
  imports Workflow_Validation
begin

text \<open>
  The admission of jobs and workflows refines the steps of theory \<open>Lifecycle\<close>: what the inserts of
  \<^verbatim>\<open>submissions.go\<close> do to the abstraction, and that a whole admission is a sequence of steps.
\<close>

section \<open>Edges\<close>

lemma acyclic_union:
  assumes "acyclic E" and "acyclic N" and "Range E \<inter> Domain N = {}"
  shows "acyclic (E \<union> N)"
proof -
  have path: "(x, y) \<in> N\<^sup>* O E\<^sup>*" if "(x, y) \<in> (E \<union> N)\<^sup>*" for x y
    using that
  proof (induction rule: rtrancl_induct)
    case (step y z)
    then obtain w where w: "(x, w) \<in> N\<^sup>*" "(w, y) \<in> E\<^sup>*" by blast
    show ?case
    proof (cases "(y, z) \<in> E")
      case True
      then show ?thesis using w by (meson relcomp.relcompI rtrancl.rtrancl_into_rtrancl)
    next
      case False
      then have "(y, z) \<in> N" using step.hyps(2) by blast
      moreover have "w = y" using w(2) \<open>(y, z) \<in> N\<close> assms(3) by (auto elim: rtranclE)
      ultimately show ?thesis using w(1) by (meson relcomp.relcompI rtrancl.rtrancl_into_rtrancl rtrancl.rtrancl_refl)
    qed
  qed blast
  show ?thesis
    unfolding acyclic_def
  proof (intro allI notI)
    fix x assume "(x, x) \<in> (E \<union> N)\<^sup>+"
    then obtain y where xy: "(x, y) \<in> E \<union> N" and yx: "(y, x) \<in> (E \<union> N)\<^sup>*" by (meson tranclD)
    obtain w where w: "(y, w) \<in> N\<^sup>*" "(w, x) \<in> E\<^sup>*" using path[OF yx] by blast
    show False
    proof (cases "w = x")
      case True
      show ?thesis
      proof (cases "(x, y) \<in> N")
        case True
        then have "(x, x) \<in> N\<^sup>+" using w(1) \<open>w = x\<close> by (meson rtrancl_into_trancl2)
        then show ?thesis using assms(2) by (simp add: acyclic_def)
      next
        case False
        then have xyE: "(x, y) \<in> E" using xy by blast
        then have "y = x" using w(1) \<open>w = x\<close> assms(3) by (auto elim: converse_rtranclE)
        then show ?thesis using xyE assms(1) by (auto simp: acyclic_def)
      qed
    next
      case False
      then have rx: "x \<in> Range E" using w(2) by (auto elim: rtranclE)
      then have xyE: "(x, y) \<in> E" using xy assms(3) by auto
      then have "w = y" using w(1) assms(3) by (auto elim: converse_rtranclE)
      then have "(x, x) \<in> E\<^sup>+" using xyE w(2) by (meson rtrancl_into_trancl2)
      then show ?thesis using assms(1) by (simp add: acyclic_def)
    qed
  qed
qed

lemma acyclic_fan: "i \<notin> D \<Longrightarrow> acyclic ({i} \<times> D)"
proof -
  assume i: "i \<notin> D"
  have "y \<in> D" if "(x, y) \<in> ({i} \<times> D)\<^sup>+" for x y using that by (auto elim: tranclE)
  moreover have "x = i" if "(x, y) \<in> ({i} \<times> D)\<^sup>+" for x y using that by (auto dest: tranclD)
  ultimately show ?thesis using i by (auto simp: acyclic_def)
qed

definition edge_ok :: "yard \<Rightarrow> string \<times> string \<Rightarrow> bool" where
  "edge_ok Y e \<longleftrightarrow> (\<exists>v w. y_jobs Y (fst e) = Some v \<and> y_jobs Y (snd e) = Some w \<and> v_attempt v = 0 \<and>
     (v_state v = StatePending \<or> v_state v = StateDeadLetter) \<and> (v_ready v = 0 \<or> v_state w = StateSucceeded))"

lemma ysteps_edges:
  "\<forall>e \<in> set es. edge_ok Y e \<Longrightarrow> acyclic (y_edges Y \<union> set es) \<Longrightarrow> ysteps f Y (Y\<lparr>y_edges := y_edges Y \<union> set es\<rparr>)"
proof (induction es arbitrary: Y)
  case (Cons e es)
  obtain c p where e: "e = (c, p)" by (cases e)
  let ?Y = "Y\<lparr>y_edges := insert (c, p) (y_edges Y)\<rparr>"
  have "acyclic (insert (c, p) (y_edges Y))"
    by (rule acyclic_subset[OF Cons.prems(2)]) (auto simp: e)
  then have s: "ystep f Y ?Y"
    using Cons.prems(1) by (auto simp: e edge_ok_def intro: ystep.edge)
  have "ysteps f ?Y (?Y\<lparr>y_edges := y_edges ?Y \<union> set es\<rparr>)"
    using Cons.prems by (intro Cons.IH) (auto simp: e edge_ok_def)
  then show ?case using s by (simp add: e converse_rtranclp_into_rtranclp)
qed simp

section \<open>Inserts\<close>

lemma abs_insert_tenant:
  assumes "lookup te_id (te_id r) (tenant_limits db) = None" and "te_active_slots r = 0"
  shows "abs (db\<lparr>tenant_limits := tenant_limits db @ [r]\<rparr>) =
    (abs db)\<lparr>y_tenant := (y_tenant (abs db))(te_id r \<mapsto> 0), y_limit := (y_limit (abs db))(te_id r \<mapsto> te_max_slots r)\<rparr>"
  using table_map_insert[OF assms(1), of te_active_slots] table_map_insert[OF assms(1), of te_max_slots] assms(2)
  by (intro yard.equality) (simp_all add: abs_sel ready_counter_def)

lemma abs_insert_queue:
  assumes "lookup queue_row_key (queue_row_key r) (queue_state db) = None" and "qu_active_slots r = 0"
  shows "abs (db\<lparr>queue_state := queue_state db @ [r]\<rparr>) = (abs db)\<lparr>y_queue := (y_queue (abs db))(queue_row_key r \<mapsto> 0)\<rparr>"
  using table_map_insert[OF assms(1), of qu_active_slots] assms(2)
  by (intro yard.equality) (simp_all add: abs_sel ready_counter_def)

lemma abs_insert_job:
  assumes "lookup j_id (j_id r) (jobs db) = None"
  shows "abs (db\<lparr>jobs := jobs db @ [r]\<rparr>) = put_job (j_id r) (view r) (abs db)"
  using table_map_insert[OF assms(1), of view]
  by (intro yard.equality) (simp_all add: abs_sel ready_counter_def)

lemma keys_ok_inserts:
  "keys_ok db \<Longrightarrow> lookup te_id (te_id t) (tenant_limits db) = None \<Longrightarrow> 0 \<le> te_max_slots t \<Longrightarrow>
     keys_ok (db\<lparr>tenant_limits := tenant_limits db @ [t]\<rparr>)"
  "keys_ok db \<Longrightarrow> lookup queue_row_key (queue_row_key q) (queue_state db) = None \<Longrightarrow>
     keys_ok (db\<lparr>queue_state := queue_state db @ [q]\<rparr>)"
  "keys_ok db \<Longrightarrow> lookup j_id (j_id r) (jobs db) = None \<Longrightarrow> keys_ok (db\<lparr>jobs := jobs db @ [r]\<rparr>)"
  "keys_ok db \<Longrightarrow> lookup cp_job (cp_job c) (job_completions db) = None \<Longrightarrow>
     keys_ok (db\<lparr>job_completions := job_completions db @ [c]\<rparr>)"
  "keys_ok db \<Longrightarrow> lookup dl_job (dl_job d) (dead_letters db) = None \<Longrightarrow>
     keys_ok (db\<lparr>dead_letters := dead_letters db @ [d]\<rparr>)"
  by (auto simp: keys_ok_def lookup_None_iff)

lemma ensureAdmission_refines:
  assumes "ensureAdmission s t n db = Inr db'" and "0 \<le> s_default_slots s"
  shows "refines f db db' \<and> y_tenant (abs db') t \<noteq> None \<and> jobs db' = jobs db \<and> job_dependencies db' = job_dependencies db"
proof -
  let ?r = "\<lparr>te_id = t, te_max_depth = s_default_depth s, te_max_slots = s_default_slots s, te_active_slots = 0\<rparr>"
  show ?thesis
  proof (cases "lookup te_id t (tenant_limits db)")
    case None
    then have "insert_row te_id ?r (tenant_limits db) = Some (tenant_limits db @ [?r])" by (simp add: insert_row_Some)
    then have db': "db' = db\<lparr>tenant_limits := tenant_limits db @ [?r]\<rparr>"
      using assms(1) by (auto simp: ensureAdmission_def Let_def split: option.splits if_splits)
    have a: "abs db' = (abs db)\<lparr>y_tenant := (y_tenant (abs db))(t \<mapsto> 0), y_limit := (y_limit (abs db))(t \<mapsto> s_default_slots s)\<rparr>"
      unfolding db' using None abs_insert_tenant[of ?r db] by simp
    have "ystep f (abs db) (abs db')"
      unfolding a using None assms(2) by (intro ystep.tenant) (simp_all add: abs_sel)
    then have "refines f db db'"
      using None assms(2) by (auto simp: refines_def db' db_inv_def intro: keys_ok_inserts)
    then show ?thesis by (simp add: a) (simp add: db')
  next
    case (Some r)
    then have "insert_row te_id ?r (tenant_limits db) = None" by (simp add: insert_row_None)
    then have "db' = db" using assms(1) Some by (auto simp: ensureAdmission_def Let_def split: option.splits if_splits)
    then show ?thesis using Some by (simp add: abs_sel)
  qed
qed

lemma ensureQueue_refines:
  assumes "ensureQueue t q now db = Inr db'"
  shows "refines f db db' \<and> y_tenant (abs db') t \<noteq> None \<and> y_queue (abs db') (t, q) \<noteq> None \<and>
    y_tenant (abs db') = y_tenant (abs db) \<and> jobs db' = jobs db \<and> job_dependencies db' = job_dependencies db"
proof -
  let ?r = "\<lparr>qu_tenant = t, qu_name = q, qu_weight = 1, qu_deficit = 0, qu_active_slots = 0, qu_updated_at = timeToDB now\<rparr>"
  have t: "y_tenant (abs db) t \<noteq> None"
    using assms by (auto simp: ensureQueue_def abs_sel split: if_splits)
  show ?thesis
  proof (cases "lookup queue_row_key (t, q) (queue_state db)")
    case None
    then have n: "lookup queue_row_key (queue_row_key ?r) (queue_state db) = None" by (simp add: queue_row_key_def)
    then have db': "db' = db\<lparr>queue_state := queue_state db @ [?r]\<rparr>"
      using assms by (auto simp: ensureQueue_def Let_def insert_row_Some insert_row_None split: option.splits if_splits)
    have a: "abs db' = (abs db)\<lparr>y_queue := (y_queue (abs db))((t, q) \<mapsto> 0)\<rparr>"
      unfolding db' using abs_insert_queue[OF n] by (simp add: queue_row_key_def)
    have "ystep f (abs db) (abs db')"
      unfolding a using None t by (intro ystep.queue) (simp_all add: abs_sel)
    then have "refines f db db'"
      using n by (auto simp: refines_def db' db_inv_def intro: keys_ok_inserts)
    then show ?thesis using t by (simp add: a) (simp add: db')
  next
    case (Some r)
    then have "db' = db"
      using assms by (auto simp: ensureQueue_def Let_def insert_row_Some queue_row_key_def split: option.splits if_splits)
    then show ?thesis using Some t by (simp add: abs_sel)
  qed
qed

lemma job_row_of_sel [simp]:
  "j_id (job_row_of job) = j_id job" "j_tenant (job_row_of job) = j_tenant job" "j_queue (job_row_of job) = j_queue job"
  "j_slot_cost (job_row_of job) = j_slot_cost job" "j_state (job_row_of job) = j_state job"
  "j_attempt_no (job_row_of job) = j_attempt_no job" "j_state_version (job_row_of job) = j_state_version job"
  "j_lease_generation (job_row_of job) = j_lease_generation job" "j_ready_seq (job_row_of job) = j_ready_seq job"
  by (simp_all add: job_row_of_def Job.extend_def)

lemma insertJob_view:
  assumes "insertJob job db = Inr db'"
  shows "abs db' = put_job (j_id job) (view (job_row_of job)) (abs db) \<and> (keys_ok db \<longrightarrow> keys_ok db') \<and>
    y_jobs (abs db) (j_id job) = None \<and> 0 < j_slot_cost job \<and> 0 \<le> j_ready_seq job"
proof -
  have n: "lookup j_id (j_id (job_row_of job)) (jobs db) = None"
    and db': "db' = db\<lparr>jobs := jobs db @ [job_row_of job]\<rparr>" and c: "job_checks job"
    using assms by (auto simp: insertJob_def job_exists_def split: if_splits)
  then show ?thesis
    using abs_insert_job[OF n] n by (auto simp: abs_sel job_checks_def intro: keys_ok_inserts)
qed

lemma insert_dependency_Inr:
  "insert_dependency msg c p db = Inr db' \<longleftrightarrow> job_exists db c \<and> job_exists db p \<and> c \<noteq> p \<and>
     (c, p) \<notin> set (job_dependencies db) \<and> db' = db\<lparr>job_dependencies := job_dependencies db @ [(c, p)]\<rparr>"
  by (auto simp: insert_dependency_def)

lemma insert_dependencies_view:
  "foldE (\<lambda>d. insert_dependency msg (c d) (p d)) ds db = Inr db' \<Longrightarrow>
   db' = db\<lparr>job_dependencies := job_dependencies db @ map (\<lambda>d. (c d, p d)) ds\<rparr> \<and>
   (\<forall>d \<in> set ds. job_exists db (c d) \<and> job_exists db (p d) \<and> c d \<noteq> p d)"
proof (induction ds arbitrary: db)
  case (Cons d ds)
  let ?db = "db\<lparr>job_dependencies := job_dependencies db @ [(c d, p d)]\<rparr>"
  have d: "job_exists db (c d) \<and> job_exists db (p d) \<and> c d \<noteq> p d" and rest: "foldE (\<lambda>d. insert_dependency msg (c d) (p d)) ds ?db = Inr db'"
    using Cons.prems by (auto simp: bindE_Inr_iff insert_dependency_Inr)
  show ?case using Cons.IH[OF rest] d by (auto simp: job_exists_def)
qed simp

lemma insertCanonicalCompletion_view:
  assumes "insertCanonicalCompletion i st n k out fl now db = Inr db'"
  shows "abs db' = (abs db)\<lparr>y_ledger := (y_ledger (abs db))(i \<mapsto> (st, n))\<rparr> \<and> (keys_ok db \<longrightarrow> keys_ok db') \<and>
    y_ledger (abs db) i = None \<and> Terminal st \<and> jobs db' = jobs db \<and> attempts db' = attempts db \<and>
    job_dependencies db' = job_dependencies db"
proof -
  let ?r = "\<lparr>cp_job = i, cp_state = st, cp_version = n, cp_attempt_no = k, cp_output_digest = out, cp_failure = fl,
    cp_committed_at = timeToDB now\<rparr>"
  have n: "lookup cp_job (cp_job ?r) (job_completions db) = None" and st: "Terminal st"
    and db': "db' = db\<lparr>job_completions := job_completions db @ [?r]\<rparr>"
    using assms by (auto simp: insertCanonicalCompletion_def Let_def insert_row_Some split: if_splits option.splits)
  have "abs db' = (abs db)\<lparr>y_ledger := (y_ledger (abs db))(i \<mapsto> (st, n))\<rparr>"
    using table_map_insert[OF n, of outcome_view] unfolding db'
    by (intro yard.equality) (simp_all add: abs_sel ready_counter_def outcome_view_def)
  then show ?thesis using n st keys_ok_inserts(4)[of db ?r] by (auto simp: db' abs_sel)
qed

lemma insertDeadLetter_view:
  assumes "insertDeadLetter i fl now db = Inr db'"
  shows "abs db' = (abs db)\<lparr>y_dead := insert i (y_dead (abs db))\<rparr> \<and> (keys_ok db \<longrightarrow> keys_ok db') \<and>
    jobs db' = jobs db \<and> attempts db' = attempts db \<and> job_dependencies db' = job_dependencies db"
proof -
  obtain f where db': "fl = Some f" "lookup dl_job i (dead_letters db) = None"
    "db' = db\<lparr>dead_letters := dead_letters db @ [\<lparr>dl_job = i, dl_failure = f, dl_created_at = timeToDB now, dl_redriven = None\<rparr>]\<rparr>"
    using assms by (auto simp: insertDeadLetter_def Let_def insert_row_Some split: if_splits option.splits)
  then show ?thesis
    using keys_ok_inserts(5)[of db] by (auto simp: abs_def ready_counter_def)
qed

section \<open>Admission of a job\<close>

text \<open>From the insert of the job row to the last insert of the admission.\<close>

lemma admit_rows:
  assumes inv: "db_inv db"
    and ins: "insertJob job db = Inr db1"
    and deps: "foldE (\<lambda>d. insert_dependency msg (j_id job) d) ds db1 = Inr db2"
    and fin: "keys_ok db2 \<longrightarrow> keys_ok db3" "abs db3 = put_outcome (j_id job) (view (job_row_of job)) (abs db2)"
    and job: "admitted (abs db) (view (job_row_of job))" "j_state job = StatePending \<or> j_state job = StateDeadLetter \<and> j_ready_seq job = 0"
    and par: "j_ready_seq job = 0 \<or> (\<forall>d \<in> set ds. \<exists>w. y_jobs (abs db) d = Some w \<and> v_state w = StateSucceeded)"
  shows "keys_ok db3 \<and> ysteps f (abs db) (abs db3)"
proof -
  let ?i = "j_id job" let ?v = "view (job_row_of job)" let ?N = "map (\<lambda>d. (?i, d)) ds"
  note i1 = insertJob_view[OF ins] and d2 = insert_dependencies_view[OF deps, unfolded job_exists_abs]
  let ?Y = "put_outcome ?i ?v (put_job ?i ?v (abs db))"
  have new: "y_jobs (abs db) ?i = None" using i1 by simp
  have ei: "edges_inv (abs db)" using inv yard_invD(4)[of "abs db"] by (simp add: db_inv_def)
  have a2: "abs db2 = (abs db1)\<lparr>y_edges := y_edges (abs db1) \<union> set ?N\<rparr>"
    using d2 by (intro yard.equality) (simp_all add: abs_sel ready_counter_def)
  have a3: "abs db3 = ?Y\<lparr>y_edges := y_edges ?Y \<union> set ?N\<rparr>"
    using i1 by (simp add: fin(2) a2 put_outcome_def)
  have "?i \<notin> Range (y_edges (abs db))" using ei new by (auto simp: edges_inv_def)
  moreover have N: "set ?N = {?i} \<times> set ds" by auto
  moreover have "acyclic (set ?N)" unfolding N by (rule acyclic_fan) (use d2 in auto)
  ultimately have ac: "acyclic (y_edges ?Y \<union> set ?N)"
    using ei by (intro acyclic_union) (auto simp: edges_inv_def)
  have "edge_ok ?Y e" if e: "e \<in> set ?N" for e
  proof -
    obtain d where d: "e = (?i, d)" "d \<in> set ds" using e by auto
    obtain w where "y_jobs (abs db1) d = Some w" "?i \<noteq> d" using d2 d(2) by blast
    then have "y_jobs (abs db) d = Some w" using i1 by auto
    then show ?thesis
      using d job par \<open>?i \<noteq> d\<close> by (auto simp: edge_ok_def admitted_def)
  qed
  then have "ysteps f ?Y (abs db3)" unfolding a3 by (intro ysteps_edges ac ballI)
  moreover have "ystep f (abs db) ?Y"
    using new job by (intro ystep.admit) auto
  moreover have "keys_ok db3"
    using inv i1 d2 fin(1) by (auto simp: db_inv_def)
  ultimately show ?thesis by (simp add: converse_rtranclp_into_rtranclp)
qed

lemma validateExistingDependencies_Inr:
  "validateExistingDependencies db t ds seen ok failed = Inr (deps, ok', failed') \<Longrightarrow>
   deps = rev seen @ ds \<and> (ok' \<longrightarrow> ok \<and> (\<forall>d \<in> set ds. \<exists>w. y_jobs (abs db) d = Some w \<and> v_state w = StateSucceeded)) \<and>
   (failed' \<longleftrightarrow> failed \<or> (\<exists>d \<in> set ds. \<exists>w. y_jobs (abs db) d = Some w \<and> failed_state (v_state w)))"
proof (induction db t ds seen ok failed rule: validateExistingDependencies.induct)
  case (2 db t d ds seen ok failed)
  then show ?case by (fastforce simp: abs_sel failed_state_def split: if_splits option.splits)
qed simp

lemma dead_outcome_view:
  assumes "bindE (insertCanonicalCompletion i StateDeadLetter n k out fl now db) (insertDeadLetter i fl' now) = Inr db'"
    and "v_state v = StateDeadLetter" and "v_version v = n"
  shows "abs db' = put_outcome i v (abs db) \<and> (keys_ok db \<longrightarrow> keys_ok db') \<and> jobs db' = jobs db \<and>
    attempts db' = attempts db \<and> job_dependencies db' = job_dependencies db"
proof -
  obtain db1 where 1: "insertCanonicalCompletion i StateDeadLetter n k out fl now db = Inr db1"
    and 2: "insertDeadLetter i fl' now db1 = Inr db'"
    using assms(1) by (auto simp: bindE_Inr_iff)
  show ?thesis
    using insertCanonicalCompletion_view[OF 1] insertDeadLetter_view[OF 2] assms(2,3)
    by (simp add: put_outcome_def Terminal_def)
qed

lemma nextReadySeq_refines: "nextReadySeq db = Inr (n, db') \<Longrightarrow> refines f db db'"
  using nextReadySeq_view[of db n db'] by (intro refines_tick[where n = n]) (auto simp: abs_sel)

lemma ready_or_zero:
  assumes "db_inv db" and "(if c then nextReadySeq db else Inr (0, db)) = Inr (r, db')"
  shows "refines f db db' \<and> y_tenant (abs db') = y_tenant (abs db) \<and> y_queue (abs db') = y_queue (abs db) \<and>
    y_jobs (abs db') = y_jobs (abs db) \<and> job_dependencies db' = job_dependencies db \<and> 0 \<le> r \<and> r \<le> y_ready (abs db') \<and> (r = 0 \<or> c)"
proof (cases c)
  case True
  then have n: "nextReadySeq db = Inr (r, db')" using assms(2) by simp
  have "0 \<le> y_ready (abs db)" "keys_ok db" using assms(1) by (auto simp: db_inv_def yard_inv_def)
  then show ?thesis using nextReadySeq_view[OF n] nextReadySeq_refines[OF n] True by (auto simp: abs_sel)
next
  case False
  have "0 \<le> y_ready (abs db)" using assms(1) by (auto simp: db_inv_def yard_inv_def)
  then show ?thesis using assms(2) False by auto
qed

lemma admit_job_Inr:
  assumes "admit_job s spec actor ent now db = Inr (job, db')"
  obtains deps ok failed db1 db2 db3 db4 db5 db6 i r where
    "validateExistingDependencies db (s_tenant spec) (s_depends_on spec) [] True False = Inr (deps, ok, failed)"
    and "ensureAdmission s (s_tenant spec) 1 db = Inr db1"
    and "ensureQueue (s_tenant spec) (s_queue spec) now db1 = Inr db2"
    and "(if ok \<and> (if s_available_at spec = zero_time then now else s_available_at spec) \<le> now then nextReadySeq db2 else Inr (0, db2)) = Inr (r, db3)"
    and "job = (if failed then dead_on_arrival now (newJob i spec (if s_available_at spec = zero_time then now else s_available_at spec) r now)
      else newJob i spec (if s_available_at spec = zero_time then now else s_available_at spec) r now)"
    and "insertJob job db3 = Inr db4"
    and "foldE (\<lambda>d. insert_dependency ''insert job dependency: %w'' (j_id job) d) deps db4 = Inr db5"
    and "appendActorEvent (j_id job) ''job_admitted'' (j_state job) (j_state_version job) now (admitted_payload actor job) db5 = Inr db6"
    and "(if failed then bindE (insertCanonicalCompletion (j_id job) (j_state job) (j_state_version job) 0 '''' (j_failure job) now db6)
           (insertDeadLetter (j_id job) (j_failure job) now) else Inr db6) = Inr db'"
  using assms unfolding admit_job_def
  by (clarsimp simp: bindE_Inr_iff Let_def split: sum.splits prod.splits)

lemma admit_job_refines:
  assumes "admit_job s spec actor ent now db = Inr (job, db')" and "0 \<le> s_default_slots s"
  shows "refines f db db'"
proof (rule refinesI)
  assume inv: "db_inv db"
  obtain deps ok failed db1 db2 db3 db4 db5 db6 i r where
    v: "validateExistingDependencies db (s_tenant spec) (s_depends_on spec) [] True False = Inr (deps, ok, failed)" and
    1: "ensureAdmission s (s_tenant spec) 1 db = Inr db1" and 2: "ensureQueue (s_tenant spec) (s_queue spec) now db1 = Inr db2" and
    3: "(if ok \<and> (if s_available_at spec = zero_time then now else s_available_at spec) \<le> now then nextReadySeq db2 else Inr (0, db2)) = Inr (r, db3)" and
    job: "job = (if failed then dead_on_arrival now (newJob i spec (if s_available_at spec = zero_time then now else s_available_at spec) r now)
      else newJob i spec (if s_available_at spec = zero_time then now else s_available_at spec) r now)" and
    4: "insertJob job db3 = Inr db4" and
    5: "foldE (\<lambda>d. insert_dependency ''insert job dependency: %w'' (j_id job) d) deps db4 = Inr db5" and
    6: "appendActorEvent (j_id job) ''job_admitted'' (j_state job) (j_state_version job) now (admitted_payload actor job) db5 = Inr db6" and
    7: "(if failed then bindE (insertCanonicalCompletion (j_id job) (j_state job) (j_state_version job) 0 '''' (j_failure job) now db6)
           (insertDeadLetter (j_id job) (j_failure job) now) else Inr db6) = Inr db'"
    by (rule admit_job_Inr[OF assms(1)])
  note r1 = ensureAdmission_refines[OF 1 assms(2), where f = f] and r2 = ensureQueue_refines[OF 2, where f = f]
  have inv2: "db_inv db2" using refines_inv[of f db1 db2] refines_inv[of f db db1] r1 r2 inv by blast
  then have k2: "keys_ok db2" by (simp add: db_inv_def)
  have r3: "refines f db2 db3 \<and> y_tenant (abs db3) = y_tenant (abs db2) \<and> y_queue (abs db3) = y_queue (abs db2) \<and>
      y_jobs (abs db3) = y_jobs (abs db) \<and> 0 \<le> r \<and> r \<le> y_ready (abs db3) \<and> (r = 0 \<or> ok)"
    using 3 r1 r2 ready_or_zero[OF inv2, of "ok \<and> (if s_available_at spec = zero_time then now else s_available_at spec) \<le> now" r db3 f]
    by (auto simp: abs_sel)
  have inv3: "db_inv db3" using refines_inv[of f db2 db3] r3 inv2 by blast
  have fin: "(keys_ok db5 \<longrightarrow> keys_ok db') \<and> abs db' = put_outcome (j_id job) (view (job_row_of job)) (abs db5)"
  proof (cases failed)
    case True
    then have "j_state job = StateDeadLetter" by (simp add: job dead_on_arrival_def)
    then show ?thesis
      using 7 True appendEvent_view[OF 6[unfolded appendActorEvent_def]] dead_outcome_view[where v = "view (job_row_of job)"] by simp
  next
    case False
    then show ?thesis
      using 7 appendEvent_view[OF 6[unfolded appendActorEvent_def]] by (simp add: job newJob_def put_outcome_def Terminal_def)
  qed
  have "keys_ok db' \<and> ysteps f (abs db3) (abs db')"
  proof (rule admit_rows[OF inv3 4 5])
    show "admitted (abs db3) (view (job_row_of job))"
      using insertJob_view[OF 4] r2 r3 by (auto simp: admitted_def job dead_on_arrival_def newJob_def split: if_splits)
  qed (use fin validateExistingDependencies_Inr[OF v] r3 in \<open>auto simp: job dead_on_arrival_def newJob_def\<close>)
  then show "keys_ok db' \<and> ysteps f (abs db) (abs db')"
    using r1 r2 r3 inv inv2 refines_inv[of f db db1] by (auto simp: refines_def)
qed

section \<open>Admission of a workflow\<close>

lemma new_ids_length: "new_ids n ent = Inr ids \<Longrightarrow> length ids = n"
  by (induction n arbitrary: ent ids) (auto simp: bindE_Inr_iff)

definition fresh_job :: "nat list \<Rightarrow> jview option \<Rightarrow> bool" where
  "fresh_job parents j \<longleftrightarrow>
     (\<exists>v. j = Some v \<and> v_attempt v = 0 \<and> v_state v = StatePending \<and> (parents = [] \<or> v_ready v = 0))"

lemma insert_job_step:
  assumes "db_inv db" and "insertJob (newJob i spec at r now) db = Inr db'" and "0 \<le> r" and "r \<le> y_ready (abs db)"
    and "y_tenant (abs db) (s_tenant spec) \<noteq> None" and "y_queue (abs db) (s_tenant spec, s_queue spec) \<noteq> None"
  shows "refines f db db'"
proof (rule refinesI)
  let ?v = "view (job_row_of (newJob i spec at r now))"
  have "admitted (abs db) ?v" "v_state ?v = StatePending"
    using insertJob_view[OF assms(2)] assms(3-) by (auto simp: admitted_def newJob_def)
  then have "ystep f (abs db) (put_outcome i ?v (put_job i ?v (abs db)))"
    using insertJob_view[OF assms(2)] by (intro ystep.admit) (auto simp: newJob_def)
  moreover have "abs db' = put_outcome i ?v (put_job i ?v (abs db))"
    using insertJob_view[OF assms(2)] \<open>v_state ?v = StatePending\<close> by (simp add: put_outcome_def Terminal_def newJob_def)
  ultimately show "keys_ok db' \<and> ysteps f (abs db) (abs db')"
    using insertJob_view[OF assms(2)] assms(1) by (auto simp: db_inv_def)
qed

lemma insert_workflow_jobs_refines:
  assumes "insert_workflow_jobs t now xs db = Inr (js, db')" and "db_inv db" and "\<forall>x \<in> set xs. s_tenant (fst (snd x)) = t"
  shows "refines f db db' \<and> job_dependencies db' = job_dependencies db \<and> distinct (map fst xs) \<and>
    (\<forall>x \<in> set xs. y_jobs (abs db) (fst x) = None \<and> fresh_job (snd (snd x)) (y_jobs (abs db') (fst x))) \<and>
    (\<forall>i v. y_jobs (abs db) i = Some v \<longrightarrow> y_jobs (abs db') i = Some v)"
  using assms
proof (induction t now xs db arbitrary: js rule: insert_workflow_jobs.induct)
  case (2 t now i spec parents rest db)
  let ?at = "if s_available_at spec = zero_time then now else s_available_at spec"
  obtain db1 r db2 db3 js' where 1: "ensureQueue t (s_queue spec) now db = Inr db1" and
    2: "(if parents = [] \<and> ?at \<le> now then nextReadySeq db1 else Inr (0, db1)) = Inr (r, db2)" and
    3: "insertJob (newJob i spec ?at r now) db2 = Inr db3" and
    4: "insert_workflow_jobs t now rest db3 = Inr (js', db')"
    using "2.prems"(1) by (auto simp: bindE_Inr_iff Let_def)
  note q = ensureQueue_refines[OF 1, where f = f]
  have inv1: "db_inv db1" using q "2.prems"(2) refines_inv by blast
  note rz = ready_or_zero[OF inv1 2, where f = f]
  have inv2: "db_inv db2" using rz inv1 refines_inv by blast
  have t: "s_tenant spec = t" using "2.prems"(3) by simp
  have r3: "refines f db2 db3" by (rule insert_job_step[OF inv2 3]) (use rz q t in auto)
  have inv3: "db_inv db3" using r3 inv2 refines_inv by blast
  have IH: "refines f db3 db' \<and> job_dependencies db' = job_dependencies db3 \<and> distinct (map fst rest) \<and>
    (\<forall>x \<in> set rest. y_jobs (abs db3) (fst x) = None \<and> fresh_job (snd (snd x)) (y_jobs (abs db') (fst x))) \<and>
    (\<forall>i v. y_jobs (abs db3) i = Some v \<longrightarrow> y_jobs (abs db') i = Some v)"
    using "2.IH"[OF 1 refl 2 refl refl 3 4 inv3] "2.prems"(3) by auto
  have a3: "y_jobs (abs db3) = (y_jobs (abs db))(i \<mapsto> view (job_row_of (newJob i spec ?at r now)))" "y_jobs (abs db) i = None"
  proof -
    have "y_jobs (abs db1) = y_jobs (abs db)" using q by (simp add: abs_sel)
    then show "y_jobs (abs db3) = (y_jobs (abs db))(i \<mapsto> view (job_row_of (newJob i spec ?at r now)))" "y_jobs (abs db) i = None"
      using insertJob_view[OF 3] rz by (simp_all add: newJob_def)
  qed
  have d3: "job_dependencies db3 = job_dependencies db"
    using insertJob_view[OF 3] 3 rz q by (auto simp: insertJob_def split: if_splits)
  have "y_jobs (abs db') i = Some (view (job_row_of (newJob i spec ?at r now)))" using IH a3 by simp
  then have "fresh_job parents (y_jobs (abs db') i)" using rz by (auto simp: fresh_job_def newJob_def)
  moreover have "refines f db db'"
    using refines_trans[of f db db1 db2] refines_trans[of f db db2 db3] refines_trans[of f db db3 db'] q rz r3 IH by simp
  moreover have keep: "y_jobs (abs db') k = Some v" if k: "y_jobs (abs db) k = Some v" for k v
  proof -
    have "k \<noteq> i" using k a3(2) by auto
    then have "y_jobs (abs db3) k = Some v" using k a3(1) by simp
    then show ?thesis using IH by blast
  qed
  moreover have old: "fst x \<noteq> i \<and> y_jobs (abs db) (fst x) = None \<and> fresh_job (snd (snd x)) (y_jobs (abs db') (fst x))"
    if x: "x \<in> set rest" for x
  proof -
    have "y_jobs (abs db3) (fst x) = None" and fr: "fresh_job (snd (snd x)) (y_jobs (abs db') (fst x))" using IH x by blast+
    then show ?thesis using a3(1) by (cases "fst x = i") auto
  qed
  moreover have "i \<notin> fst ` set rest" using old by auto
  ultimately show ?case using IH a3(2) d3 by simp
qed simp

lemma events_view:
  "foldE (\<lambda>j. appendActorEvent (i j) (ty j) (st j) (n j) now (p j)) js db = Inr db' \<Longrightarrow>
   abs db' = abs db \<and> keys_ok db' = keys_ok db"
  by (induction js arbitrary: db) (auto simp: bindE_Inr_iff appendActorEvent_def dest!: appendEvent_view)

lemma workflow_edges_set:
  assumes "length deps = length ids"
  shows "set (workflow_edges ids deps) = map_prod ((!) ids) ((!) ids) ` (edges [0..<length ids] (index_deps deps))\<inverse>"
proof -
  let ?E = "{(ids ! c, ids ! p) | c p. c < length ids \<and> p \<in> set (deps ! c)}"
  have "set (workflow_edges ids deps) = ?E"
    using assms by (fastforce simp: workflow_edges_def set_zip)
  moreover have "map_prod ((!) ids) ((!) ids) ` (edges [0..<length ids] (index_deps deps))\<inverse> = ?E"
    using assms by (force simp: edges_def index_deps_def)
  ultimately show ?thesis by simp
qed

lemma workflow_edges_child:
  assumes "e \<in> set (workflow_edges ids deps)" and "length deps = length ids"
  shows "\<exists>c < length ids. fst e = ids ! c \<and> deps ! c \<noteq> []"
  using assms unfolding workflow_edges_set[OF assms(2)] by (force simp: edges_def index_deps_def)

lemma workflow_edges_acyclic:
  assumes l: "length deps = length ids" and "distinct ids" and deps: "\<forall>ps \<in> set deps. set ps \<subseteq> {0..<length deps}"
    and ac: "acyclic (edges [0..<length deps] (index_deps deps))"
  shows "acyclic (set (workflow_edges ids deps))"
proof -
  let ?E = "edges [0..<length ids] (index_deps deps)"
  have "Field (?E\<inverse>) \<subseteq> {0..<length ids}"
  proof
    fix x assume "x \<in> Field (?E\<inverse>)"
    then obtain c where "c < length ids" "x = c \<or> x \<in> set (deps ! c)"
      using l by (auto simp: edges_def index_deps_def Field_def)
    moreover have "set (deps ! c) \<subseteq> {0..<length ids}"
      using deps l \<open>c < length ids\<close> by simp
    ultimately show "x \<in> {0..<length ids}" by (metis atLeastLessThan_iff subsetD zero_le)
  qed
  moreover have "inj_on ((!) ids) {0..<length ids}" using assms(2) by (simp add: inj_on_nth)
  ultimately have "inj_on ((!) ids) (Field (?E\<inverse>))" by (rule inj_on_subset[rotated])
  then have "acyclic (map_prod ((!) ids) ((!) ids) ` ?E\<inverse>) \<longleftrightarrow> acyclic (?E\<inverse>)" by (rule acyclic_image)
  then show ?thesis using ac l by (simp add: workflow_edges_set[OF l])
qed

lemma admit_workflow_refines:
  assumes "admit_workflow s w t ent now db = Inr (js, db')" and "0 \<le> s_default_slots s" and "t \<noteq> ''''"
  shows "refines f db db'"
proof (rule refinesI)
  assume inv: "db_inv db"
  obtain specs deps db1 ids db2 db3 where
    v: "validateWorkflow w t (s_max_slot_cost s) (s_allow_shell s) = Inr (specs, deps)" and
    1: "ensureAdmission s t (int (length specs)) db = Inr db1" and
    i: "new_ids (length specs) ent = Inr ids" and
    2: "insert_workflow_jobs t now (zip ids (zip specs deps)) db1 = Inr (js, db2)" and
    3: "foldE (\<lambda>(c, p). insert_dependency ''insert workflow dependency: %w'' c p) (workflow_edges ids deps) db2 = Inr db3" and
    4: "foldE (\<lambda>j. appendActorEvent (j_id j) ''job_admitted'' (j_state j) (j_state_version j) now
          (admitted_payload (ws_actor w) j)) js db3 = Inr db'"
    using assms(1) unfolding admit_workflow_def by (auto simp: bindE_Inr_iff)
  note r1 = ensureAdmission_refines[OF 1 assms(2), where f = f]
  have inv1: "db_inv db1" using r1 inv refines_inv by blast
  note val = validateWorkflow_Inr[OF v]
  have li: "length ids = length deps" using new_ids_length[OF i] val by simp
  let ?xs = "zip ids (zip specs deps)"
  have mf: "map fst ?xs = ids" using li val by simp
  have ten: "\<forall>x \<in> set ?xs. s_tenant (fst (snd x)) = t"
  proof
    fix x assume "x \<in> set ?xs"
    then have "snd x \<in> set (zip specs deps)" by (metis prod.collapse set_zip_rightD)
    then have "fst (snd x) \<in> set specs" by (metis prod.collapse set_zip_leftD)
    then show "s_tenant (fst (snd x)) = t" using val assms(3) by (auto simp: node_spec_def Normalize_def Let_def)
  qed
  note r2 = insert_workflow_jobs_refines[OF 2 inv1 ten, where f = f, unfolded mf]
  have inv2: "db_inv db2" using r2 inv1 refines_inv by blast
  let ?N = "workflow_edges ids deps"
  have d3: "db3 = db2\<lparr>job_dependencies := job_dependencies db2 @ ?N\<rparr>" "\<forall>e \<in> set ?N. job_exists db2 (snd e)"
    using insert_dependencies_view[where c = fst and p = snd, of _ ?N db2 db3] 3 by (simp_all add: split_def)
  have "\<forall>ps \<in> set deps. set ps \<subseteq> {0..<length deps}" "acyclic (edges [0..<length deps] (index_deps deps))" "distinct ids"
    using val r2 by blast+
  then have acN: "acyclic (set ?N)" using li by (intro workflow_edges_acyclic) simp_all
  have child: "\<exists>ps. ps \<noteq> [] \<and> y_jobs (abs db1) (fst e) = None \<and> fresh_job ps (y_jobs (abs db2) (fst e))" if e: "e \<in> set ?N" for e
  proof -
    obtain c where c: "c < length ids" "fst e = ids ! c" "deps ! c \<noteq> []"
      using workflow_edges_child[OF e] li by auto
    have "(ids ! c, specs ! c, deps ! c) \<in> set ?xs"
      using c(1) li val by (auto simp: in_set_zip intro!: exI[of _ c])
    then show ?thesis using r2 c by (intro exI[of _ "deps ! c"]) auto
  qed
  have ei: "edges_inv (abs db1)" using inv1 yard_invD(4)[of "abs db1"] by (simp add: db_inv_def)
  have E: "y_edges (abs db2) = y_edges (abs db1)" using r2 by (simp add: abs_sel)
  have "Range (y_edges (abs db2)) \<inter> Domain (set ?N) = {}"
    using ei child unfolding E by (fastforce simp: edges_inv_def)
  then have ac: "acyclic (y_edges (abs db2) \<union> set ?N)"
    using ei acN by (intro acyclic_union) (auto simp: E edges_inv_def)
  have "abs db3 = (abs db2)\<lparr>y_edges := y_edges (abs db2) \<union> set ?N\<rparr>"
    unfolding d3 by (intro yard.equality) (simp_all add: abs_sel ready_counter_def)
  moreover have "edge_ok (abs db2) e" if e: "e \<in> set ?N" for e
    using child[OF e] d3(2) e by (auto simp: edge_ok_def fresh_job_def job_exists_abs)
  ultimately have "keys_ok db3 \<and> ysteps f (abs db2) (abs db3)"
    using ysteps_edges[OF _ ac] inv2 by (auto simp: d3(1) db_inv_def)
  then show "keys_ok db' \<and> ysteps f (abs db) (abs db')"
    using r1 r2 inv inv1 events_view[OF 4] by (auto simp: refines_def)
qed

end
