(* ===== verification/Refine_Scheduling.thy ===== *)
theory Refine_Scheduling
  imports Store_Scheduling Refine_Submissions
begin

text \<open>
  What the reservation and release of slots and the persistence of a schedule plan do to the abstraction.
\<close>

section \<open>Slots\<close>

lemma queue_row_key_updates [simp]:
  "queue_row_key (r\<lparr>qu_weight := w\<rparr>) = queue_row_key r" "queue_row_key (r\<lparr>qu_deficit := d\<rparr>) = queue_row_key r"
  "queue_row_key (r\<lparr>qu_active_slots := a\<rparr>) = queue_row_key r" "queue_row_key (r\<lparr>qu_updated_at := u\<rparr>) = queue_row_key r"
  by (simp_all add: queue_row_key_def)

lemma add_slots_rows:
  assumes "keys_ok db" and "affected p (tenant_limits db) = 1" and "affected q (queue_state db) = 1"
    and "\<And>r. p r \<Longrightarrow> te_id r = t" and "\<And>r. q r \<Longrightarrow> queue_row_key r = (t, n)"
  shows "keys_ok (db\<lparr>tenant_limits := update_where p (\<lambda>r. r\<lparr>te_active_slots := te_active_slots r + c\<rparr>) (tenant_limits db),
      queue_state := update_where q (\<lambda>r. r\<lparr>qu_active_slots := qu_active_slots r + c, qu_updated_at := u\<rparr>) (queue_state db)\<rparr>)"
    and "abs (db\<lparr>tenant_limits := update_where p (\<lambda>r. r\<lparr>te_active_slots := te_active_slots r + c\<rparr>) (tenant_limits db),
      queue_state := update_where q (\<lambda>r. r\<lparr>qu_active_slots := qu_active_slots r + c, qu_updated_at := u\<rparr>) (queue_state db)\<rparr>) =
      add_slots t n c (abs db)"
    and "\<exists>r. lookup te_id t (tenant_limits db) = Some r \<and> p r"
proof -
  let ?f = "\<lambda>r :: tenant_row. r\<lparr>te_active_slots := te_active_slots r + c\<rparr>"
  let ?g = "\<lambda>r :: queue_row. r\<lparr>qu_active_slots := qu_active_slots r + c, qu_updated_at := u\<rparr>"
  have d: "distinct (map te_id (tenant_limits db))" "distinct (map queue_row_key (queue_state db))"
    using assms(1) by (auto simp: keys_ok_def)
  obtain r where r: "lookup te_id t (tenant_limits db) = Some r" "p r"
    by (rule affected_one[OF d(1) assms(2,4)])
  obtain k where k: "lookup queue_row_key (t, n) (queue_state db) = Some k" "q k"
    by (rule affected_one[OF d(2) assms(3,5)])
  show "\<exists>r. lookup te_id t (tenant_limits db) = Some r \<and> p r" using r by blast
  have "\<forall>r \<in> set (update_where p ?f (tenant_limits db)). 0 \<le> te_max_slots r"
    using assms(1) by (auto simp: keys_ok_def set_update_where)
  then show "keys_ok (db\<lparr>tenant_limits := update_where p ?f (tenant_limits db), queue_state := update_where q ?g (queue_state db)\<rparr>)"
    using assms(1) by (simp add: keys_ok_def distinct_update_where)
  have "(\<lambda>x. map_option te_active_slots (lookup te_id x (update_where p ?f (tenant_limits db)))) =
      (\<lambda>x. map_option te_active_slots (lookup te_id x (tenant_limits db)))(t \<mapsto> te_active_slots r + c)"
    using table_map_update[where p = p and f = ?f and g = te_active_slots, OF r assms(4)] by simp
  moreover have "(\<lambda>x. map_option te_max_slots (lookup te_id x (update_where p ?f (tenant_limits db)))) =
      (\<lambda>x. map_option te_max_slots (lookup te_id x (tenant_limits db)))"
    by (rule table_map_invisible) simp_all
  moreover have "(\<lambda>x. map_option qu_active_slots (lookup queue_row_key x (update_where q ?g (queue_state db)))) =
      (\<lambda>x. map_option qu_active_slots (lookup queue_row_key x (queue_state db)))((t, n) \<mapsto> qu_active_slots k + c)"
    using table_map_update[where p = q and f = ?g and g = qu_active_slots, OF k assms(5)] by simp
  ultimately show "abs (db\<lparr>tenant_limits := update_where p ?f (tenant_limits db), queue_state := update_where q ?g (queue_state db)\<rparr>) =
      add_slots t n c (abs db)"
    using r k by (intro yard.equality) (simp_all add: abs_sel ready_counter_def)
qed

lemma releaseSlots_view:
  assumes "releaseSlots t n c now db = Inr db'" and "keys_ok db"
  shows "keys_ok db' \<and> abs db' = add_slots t n (- c) (abs db) \<and> jobs db' = jobs db \<and> attempts db' = attempts db \<and>
    job_dependencies db' = job_dependencies db"
proof -
  define p where "p = (\<lambda>r :: tenant_row. te_id r = t \<and> te_active_slots r \<ge> c)"
  define q where "q = (\<lambda>r. queue_row_key r = (t, n) \<and> qu_active_slots r \<ge> c)"
  have aff: "affected p (tenant_limits db) = 1" "affected q (queue_state db) = 1" and
    db': "db' = db\<lparr>tenant_limits := update_where p (\<lambda>r. r\<lparr>te_active_slots := te_active_slots r + - c\<rparr>) (tenant_limits db),
      queue_state := update_where q (\<lambda>r. r\<lparr>qu_active_slots := qu_active_slots r + - c, qu_updated_at := timeToDB now\<rparr>) (queue_state db)\<rparr>"
    using assms(1) by (auto simp: releaseSlots_def Let_def p_def q_def split: if_splits)
  have *: "te_id r = t" if "p r" for r using that by (simp add: p_def)
  have **: "queue_row_key r = (t, n)" if "q r" for r using that by (simp add: q_def)
  show ?thesis using add_slots_rows(1,2)[OF assms(2) aff * **, where c = "- c" and u = "timeToDB now"] by (simp add: db')
qed

lemma reserveSlots_view:
  assumes "reserveSlots t n c now db = Inr (True, db')" and "keys_ok db"
  shows "keys_ok db' \<and> abs db' = add_slots t n c (abs db) \<and> jobs db' = jobs db \<and> attempts db' = attempts db \<and>
    job_dependencies db' = job_dependencies db \<and>
    (\<forall>x m. y_tenant (abs db) t = Some x \<longrightarrow> y_limit (abs db) t = Some m \<longrightarrow> m = 0 \<or> x + c \<le> m)"
proof -
  define p where "p = (\<lambda>r :: tenant_row. te_id r = t \<and> (te_max_slots r = 0 \<or> te_active_slots r + c \<le> te_max_slots r))"
  define q where "q = (\<lambda>r. queue_row_key r = (t, n))"
  have aff: "affected p (tenant_limits db) = 1" "affected q (queue_state db) = 1" and
    db': "db' = db\<lparr>tenant_limits := update_where p (\<lambda>r. r\<lparr>te_active_slots := te_active_slots r + c\<rparr>) (tenant_limits db),
      queue_state := update_where q (\<lambda>r. r\<lparr>qu_active_slots := qu_active_slots r + c, qu_updated_at := timeToDB now\<rparr>) (queue_state db)\<rparr>"
    using assms(1) by (auto simp: reserveSlots_def Let_def p_def q_def split: if_splits)
  have *: "te_id r = t" if "p r" for r using that by (simp add: p_def)
  have **: "queue_row_key r = (t, n)" if "q r" for r using that by (simp add: q_def)
  show ?thesis using add_slots_rows[OF assms(2) aff * **] by (auto simp: db' abs_sel p_def)
qed

section \<open>Plans\<close>

lemma counter_view:
  assumes "name \<noteq> ''ready_seq''" and "\<And>c. fst (f c) = fst c"
  shows "abs (db\<lparr>counters := update_where (\<lambda>c. fst c = name) f (counters db)\<rparr>) = abs db"
    and "keys_ok db \<Longrightarrow> keys_ok (db\<lparr>counters := update_where (\<lambda>c. fst c = name) f (counters db)\<rparr>)"
proof -
  have l: "lookup fst ''ready_seq'' (update_where (\<lambda>c. fst c = name) f (counters db)) = lookup fst ''ready_seq'' (counters db)"
    using assms lookup_Some_in[of fst "''ready_seq''" "counters db"]
    by (cases "lookup fst ''ready_seq'' (counters db)") (auto simp: lookup_update_where)
  then show "abs (db\<lparr>counters := update_where (\<lambda>c. fst c = name) f (counters db)\<rparr>) = abs db"
    by (simp add: abs_def ready_counter_def)
  show "keys_ok (db\<lparr>counters := update_where (\<lambda>c. fst c = name) f (counters db)\<rparr>)" if "keys_ok db"
    using that l assms(2) by (simp add: keys_ok_def distinct_update_where)
qed

lemma nextCounter_view:
  "nextCounter name db = Inr (n, db') \<Longrightarrow> name \<noteq> ''ready_seq'' \<Longrightarrow>
   abs db' = abs db \<and> (keys_ok db \<longrightarrow> keys_ok db') \<and> jobs db' = jobs db"
  by (auto simp: nextCounter_def Let_def bindE_Inr_iff counter_view)

lemma setCounter_view:
  "setCounter name v db = Inr db' \<Longrightarrow> name \<noteq> ''ready_seq'' \<Longrightarrow> abs db' = abs db \<and> (keys_ok db \<longrightarrow> keys_ok db')"
  by (auto simp: setCounter_def Let_def counter_view split: if_splits)

lemma buildSchedulePlan_view:
  assumes "buildSchedulePlan now slots limit reserve db = Inr (plan, db')"
  shows "abs db' = abs db \<and> (keys_ok db \<longrightarrow> keys_ok db') \<and> jobs db' = jobs db \<and>
    (sp_candidates plan = [] \<or> sp_candidates plan = map lease_candidate (scheduler_rows db now limit))"
  using assms by (auto simp: buildSchedulePlan_def Let_def bindE_Inr_iff empty_plan_def dest: nextCounter_view split: if_splits)

lemma persist_queues_view:
  "abs (fold (persist_queue now) qs db) = abs db \<and> (keys_ok db \<longrightarrow> keys_ok (fold (persist_queue now) qs db))"
proof (induction qs arbitrary: db)
  case (Cons q qs)
  have "abs (persist_queue now q db) = abs db"
    using table_map_invisible[where g = qu_active_slots and key = queue_row_key]
    by (intro yard.equality) (simp_all add: abs_sel persist_queue_def ready_counter_def)
  moreover have "keys_ok (persist_queue now q db)" if "keys_ok db"
    using that by (simp add: keys_ok_def persist_queue_def distinct_update_where)
  ultimately show ?case using Cons.IH[of "persist_queue now q db"] by simp
qed simp

lemma persistSchedulePlan_view:
  assumes "persistSchedulePlan plan now db = Inr db'"
  shows "abs db' = abs db \<and> (keys_ok db \<longrightarrow> keys_ok db')"
  using assms persist_queues_view[of now "de_queues (sp_decision plan)" db]
  by (auto simp: persistSchedulePlan_def Let_def bindE_Inr_iff split: if_splits dest!: setCounter_view)

end
