(* ===== verification/Refine_Maintenance.thy ===== *)
theory Refine_Maintenance
  imports Store_Maintenance Refine_Scheduling
begin

text \<open>
  The operations of \<^verbatim>\<open>maintenance.go\<close> refine moves of single jobs: promotions, activations, the failing of
  descendants and the reaping of expired leases. The rows a loop works on were read before the loop; the version
  guard of each UPDATE makes them current.
\<close>

section \<open>Moves\<close>

text \<open>A refinement that leaves the dependencies alone.\<close>

definition moves :: "bool \<Rightarrow> db \<Rightarrow> db \<Rightarrow> bool" where
  "moves f db db' \<longleftrightarrow> refines f db db' \<and> job_dependencies db' = job_dependencies db"

lemma moves_refl [simp]: "moves f db db"
  by (simp add: moves_def)

lemma moves_trans: "moves f a b \<Longrightarrow> moves f b c \<Longrightarrow> moves f a c"
  by (auto simp: moves_def intro: refines_trans)

lemma moves_refines: "moves f db db' \<Longrightarrow> refines f db db'"
  by (simp add: moves_def)

lemma moves_inv: "moves f db db' \<Longrightarrow> db_inv db \<Longrightarrow> db_inv db'"
  by (auto simp: moves_def intro: refines_inv)

lemma refines_if_inv: "(db_inv db \<Longrightarrow> refines f db db') \<Longrightarrow> refines f db db'"
  by (auto simp: refines_def)

lemma moves_foldE:
  assumes "foldE g xs db = Inr db'" and "\<And>x u v. x \<in> set xs \<Longrightarrow> moves f db u \<Longrightarrow> g x u = Inr v \<Longrightarrow> moves f u v"
  shows "moves f db db'"
  by (rule foldE_invariant[OF assms(1)]) (auto intro: moves_trans assms(2))

lemma add_slots_0 [simp]: "add_slots t q 0 Y = Y"
  by (auto simp: add_slots_def option.map_ident intro: yard.equality)

lemma attempts_follow_same: "\<not> active_state (v_state v) \<Longrightarrow> attempts_follow i v A A"
  by (auto simp: attempts_follow_def)

lemma attempts_follow_close:
  "\<not> active_state (v_state v) \<Longrightarrow> A (i, n) = Some (g, b) \<Longrightarrow> attempts_follow i v A (A((i, n) \<mapsto> (g, b')))"
  by (auto simp: attempts_follow_def)

lemma attempts_follow_open:
  "n = v_attempt v \<Longrightarrow> g = v_generation v \<Longrightarrow> active_state (v_state v) \<Longrightarrow> attempts_follow i v A (A((i, n) \<mapsto> (g, True)))"
  by (auto simp: attempts_follow_def)

lemma ready_nonneg: "db_inv db \<Longrightarrow> 0 \<le> y_ready (abs db)"
  by (simp add: db_inv_def yard_inv_def)

lemma moveI:
  assumes "keys_ok db'" and "job_dependencies db' = job_dependencies db"
    and "y_jobs (abs db) i = Some v" and "legal f (parents_succeeded (abs db) i) (y_ready (abs db) + 1) v v'"
    and "weight v < weight v' \<Longrightarrow> \<forall>x m. y_tenant (abs db) (v_tenant v) = Some x \<longrightarrow> y_limit (abs db) (v_tenant v) = Some m \<longrightarrow>
      m = 0 \<or> x + weight v' - weight v \<le> m"
    and "attempts_follow i v' (y_attempts (abs db)) A'"
    and "abs db' = put_outcome i v' (put_job i v' (add_slots (v_tenant v) (v_queue v) (weight v' - weight v)
      ((abs db)\<lparr>y_attempts := A', y_ready := (if v_ready v' = y_ready (abs db) + 1 then y_ready (abs db) + 1 else y_ready (abs db))\<rparr>)))"
  shows "moves f db db'"
proof -
  have "ystep f (abs db) (abs db')"
    unfolding assms(7) by (rule ystep.move[OF assms(3,4) refl _ assms(6)]) (use assms(5) in blast)
  then show ?thesis using assms(1,2) by (auto simp: moves_def refines_def)
qed

text \<open>Attempts.\<close>

lemma attempt_key_updates [simp]:
  "attempt_key (a\<lparr>at_state := s\<rparr>) = attempt_key a" "attempt_key (a\<lparr>at_completed_at := c\<rparr>) = attempt_key a"
  "attempt_key (a\<lparr>at_failure := x\<rparr>) = attempt_key a" "attempt_key (a\<lparr>at_started_at := t\<rparr>) = attempt_key a"
  "attempt_key (a\<lparr>at_heartbeat_at := h\<rparr>) = attempt_key a" "attempt_key (a\<lparr>at_expires_at := e\<rparr>) = attempt_key a"
  "attempt_key (a\<lparr>at_digest := d\<rparr>) = attempt_key a" "attempt_key (a\<lparr>at_receipt_state := rs\<rparr>) = attempt_key a"
  "attempt_key (a\<lparr>at_receipt_version := rv\<rparr>) = attempt_key a" "attempt_key (a\<lparr>at_receipt_committed := rc\<rparr>) = attempt_key a"
  by (simp_all add: attempt_key_def)

lemma update_attempt_view:
  assumes "keys_ok db" and "lookup attempt_key k (attempts db) = Some a" and "p a" and "\<And>x. p x \<Longrightarrow> attempt_key x = k"
    and "\<And>x. attempt_key (f x) = attempt_key x"
  shows "abs (db\<lparr>attempts := update_where p f (attempts db)\<rparr>) = (abs db)\<lparr>y_attempts := (y_attempts (abs db))(k \<mapsto> attempt_view (f a))\<rparr> \<and>
    keys_ok (db\<lparr>attempts := update_where p f (attempts db)\<rparr>)"
proof
  show "abs (db\<lparr>attempts := update_where p f (attempts db)\<rparr>) = (abs db)\<lparr>y_attempts := (y_attempts (abs db))(k \<mapsto> attempt_view (f a))\<rparr>"
    using table_map_update[where p = p and f = f and g = attempt_view, OF assms(2-5)]
    by (intro yard.equality) (simp_all add: abs_sel ready_counter_def)
  show "keys_ok (db\<lparr>attempts := update_where p f (attempts db)\<rparr>)"
    using assms(1,5) by (simp add: keys_ok_def distinct_update_where)
qed

lemma active_attempt:
  assumes "db_inv db" and "lookup j_id i (jobs db) = Some r" and "active_state (j_state r)"
  shows "\<exists>a. lookup attempt_key (i, j_attempt_no r) (attempts db) = Some a \<and> at_generation a = j_lease_generation r \<and>
    open_attempt (at_state a)"
  using abs_job_inv[OF assms(1,2)] assms(3) by (auto simp: job_inv_def attempts_ok_def abs_sel attempt_view_def)

section \<open>Promotion and activation\<close>

lemma not_blocked:
  assumes "db_inv db" and "\<not> blocked_by_parent db i"
  shows "parents_succeeded (abs db) i"
  unfolding parents_succeeded_def
proof (intro allI impI)
  fix p assume e: "(i, p) \<in> y_edges (abs db)"
  then obtain v where v: "y_jobs (abs db) p = Some v"
    using assms(1) yard_invD(4)[of "abs db"] by (auto simp: db_inv_def edges_inv_def)
  then obtain r where r: "lookup j_id p (jobs db) = Some r" "v = view r" by (auto simp: abs_sel)
  then have "j_state r = StateSucceeded"
    using assms(2) e lookup_Some_in[OF r(1)] by (auto simp: blocked_by_parent_def abs_sel)
  then show "\<exists>v. y_jobs (abs db) p = Some v \<and> v_state v = StateSucceeded" using v r by auto
qed

lemma still_not_blocked:
  assumes "moves f db0 db" and "db_inv db0" and "\<not> blocked_by_parent db0 i"
  shows "parents_succeeded (abs db) i"
  using parents_succeeded_evolves[OF not_blocked[OF assms(2,3)] refines_evolves[OF moves_refines[OF assms(1)] assms(2)]] assms(1)
  by (simp add: abs_sel moves_def)

text \<open>Both loops read a waiting job, take a ready number, and make the job ready under its version guard.\<close>

lemma make_ready:
  assumes start: "moves f db0 db" "db_inv db0" "\<not> blocked_by_parent db0 i"
    and seq: "nextReadySeq db = Inr (n, db1)"
    and upd: "affected p (jobs db1) = 1" "\<And>x. p x \<Longrightarrow> j_id x = i" "\<And>x. p x \<Longrightarrow> j_ready_seq x = 0 \<and> (j_state x = StatePending \<or> j_state x = StateRetrying)"
      "\<And>x. j_id (g x) = j_id x"
      "\<And>x. p x \<Longrightarrow> view (g x) = (view x)\<lparr>v_state := StatePending, v_version := j_state_version x + 1, v_ready := n\<rparr>"
    and ev: "appendEvent i ty st nv now pl (db1\<lparr>jobs := update_where p g (jobs db1)\<rparr>) = Inr db'"
  shows "moves f db db'"
proof -
  have inv: "db_inv db" using moves_inv start by blast
  have k: "keys_ok db" using inv by (simp add: db_inv_def)
  note n = nextReadySeq_view[OF seq k]
  have k1: "keys_ok db1" using n by simp
  obtain r where r: "lookup j_id i (jobs db1) = Some r" "p r"
    and a: "abs (db1\<lparr>jobs := update_where p g (jobs db1)\<rparr>) = put_job i (view (g r)) (abs db1)"
    and k2: "keys_ok (db1\<lparr>jobs := update_where p g (jobs db1)\<rparr>)"
    using update_job_view[OF k1 upd(1,2,4)] by blast
  have j: "y_jobs (abs db) i = Some (view r)" using r(1) n by (auto simp: abs_sel)
  have w: "weight (view r) = 0" "weight (view (g r)) = 0" "\<not> active_state (v_state (view (g r)))" "\<not> Terminal (v_state (view (g r)))"
    using upd(3)[OF r(2)] upd(5)[OF r(2)] by (auto simp: weight_def active_state_def Terminal_def)
  show ?thesis
  proof (rule moveI[where i = i and v = "view r" and v' = "view (g r)" and A' = "y_attempts (abs db)"])
    show "legal f (parents_succeeded (abs db) i) (y_ready (abs db) + 1) (view r) (view (g r))"
      using upd(3)[OF r(2)] upd(5)[OF r(2)] still_not_blocked[OF start] n legal.promote[of "view r"] by (auto simp: abs_sel)
    show "attempts_follow i (view (g r)) (y_attempts (abs db)) (y_attempts (abs db))"
      by (rule attempts_follow_same) (use w in simp)
    show "abs db' = put_outcome i (view (g r)) (put_job i (view (g r)) (add_slots (v_tenant (view r)) (v_queue (view r))
        (weight (view (g r)) - weight (view r)) ((abs db)\<lparr>y_attempts := y_attempts (abs db),
        y_ready := if v_ready (view (g r)) = y_ready (abs db) + 1 then y_ready (abs db) + 1 else y_ready (abs db)\<rparr>)))"
      using appendEvent_view[OF ev] a n w upd(5)[OF r(2)] by (simp add: put_outcome_def abs_sel)
  qed (use appendEvent_Inr[OF ev] k2 j n appendEvent_view[OF ev] w in auto)
qed

lemma promote_job_moves:
  assumes "moves f db0 db" and "db_inv db0" and "job \<in> set (due_jobs db0 now limit)" and "promote_job now job db = Inr db'"
  shows "moves f db db'"
proof -
  let ?p = "\<lambda>j. j_id j = j_id job \<and> j_state j = j_state job \<and> j_state_version j = j_state_version job \<and> j_ready_seq j = 0"
  have job: "\<not> blocked_by_parent db0 (j_id job)" "j_state job = StatePending \<or> j_state job = StateRetrying"
    using assms(3) set_take_subset[of "nat limit"] by (fastforce simp: due_jobs_def)+
  obtain n db1 pl where seq: "nextReadySeq db = Inr (n, db1)" and aff: "affected ?p (jobs db1) = 1"
    and ev: "appendEvent (j_id job) ''job_promoted'' StatePending (j_state_version job + 1) now pl
        (db1\<lparr>jobs := update_where ?p (\<lambda>j. j\<lparr>j_state := StatePending, j_state_version := j_state_version job + 1, j_ready_seq := n,
           j_updated_at := timeToDB now\<rparr>) (jobs db1)\<rparr>) = Inr db'"
    using assms(4) unfolding promote_job_def bindE_Inr_iff Let_def by (fastforce split: if_splits)
  show ?thesis
    by (rule make_ready[OF assms(1,2) job(1) seq aff _ _ _ _ ev]) (use job(2) in \<open>auto intro!: jview.equality\<close>)
qed

lemma activate_child_moves:
  assumes "moves f db0 db" and "db_inv db0" and "child \<in> set (ready_children db0 pid now)"
    and "activate_child pid now child db = Inr db'"
  shows "moves f db db'"
proof -
  let ?p = "\<lambda>j. j_id j = j_id child \<and> j_state j = StatePending \<and> j_ready_seq j = 0 \<and> j_state_version j = j_state_version child"
  have job: "\<not> blocked_by_parent db0 (j_id child)" using assms(3) by (auto simp: ready_children_def)
  obtain n db1 pl where seq: "nextReadySeq db = Inr (n, db1)" and aff: "affected ?p (jobs db1) = 1"
    and ev: "appendEvent (j_id child) ''dependency_released'' StatePending (j_state_version child + 1) now pl
        (db1\<lparr>jobs := update_where ?p (\<lambda>j. j\<lparr>j_ready_seq := n, j_state_version := j_state_version child + 1, j_updated_at := timeToDB now\<rparr>) (jobs db1)\<rparr>) = Inr db'"
    using assms(4) unfolding activate_child_def bindE_Inr_iff Let_def by (fastforce split: if_splits)
  show ?thesis
    by (rule make_ready[OF assms(1,2) job seq aff _ _ _ _ ev]) (auto intro!: jview.equality)
qed

lemma activateChildren_moves:
  "activateChildren pid now db = Inr db' \<Longrightarrow> db_inv db \<Longrightarrow> moves f db db'"
  unfolding activateChildren_def by (erule moves_foldE) (auto intro: activate_child_moves)

section \<open>Descendants\<close>

lemma weight_view: "weight (view r) = (if active_state (j_state r) then j_slot_cost r else 0)"
  by (simp add: weight_def)

lemma terminal_inactive: "Terminal s \<Longrightarrow> \<not> active_state s"
  by (auto simp: Terminal_def active_state_def)

lemma dead_letter_view [simp]:
  "view (dead_letter_row now n x r) = (view r)\<lparr>v_state := StateDeadLetter, v_version := n, v_ready := 0\<rparr>"
  "j_id (dead_letter_row now n x r) = j_id r"
  by (auto simp: dead_letter_row_def intro: jview.equality)

text \<open>A job that leaves its state for a terminal one or for a retry gives back its slots.\<close>

lemma settleI:
  assumes "db_inv db" and "keys_ok db'" and "job_dependencies db' = job_dependencies db"
    and "y_jobs (abs db) i = Some v"
    and "\<not> Terminal (v_state v) \<and> Terminal s \<or> active_state (v_state v) \<and> s = StateRetrying"
    and "v' = v\<lparr>v_state := s, v_version := v_version v + 1, v_ready := 0\<rparr>"
    and "attempts_follow i v' (y_attempts (abs db)) A'"
    and "abs db' = put_outcome i v' (put_job i v' (add_slots (v_tenant v) (v_queue v) (- weight v) ((abs db)\<lparr>y_attempts := A'\<rparr>)))"
  shows "moves f db db'"
proof (rule moveI[OF assms(2-4) _ _ assms(7)])
  have w: "weight v' = 0" using assms(5,6) terminal_inactive by (auto simp: weight_def active_state_def)
  show "legal f (parents_succeeded (abs db) i) (y_ready (abs db) + 1) v v'"
    unfolding assms(6) using assms(5) legal.finish legal.backoff by blast
  show "abs db' = put_outcome i v' (put_job i v' (add_slots (v_tenant v) (v_queue v) (weight v' - weight v) ((abs db)\<lparr>y_attempts := A',
    y_ready := if v_ready v' = y_ready (abs db) + 1 then y_ready (abs db) + 1 else y_ready (abs db)\<rparr>)))"
    using ready_nonneg[OF assms(1)] assms(6,8) w by simp
  have "0 \<le> weight v"
    using yard_invD(1)[of "abs db"] assms(1,4) by (fastforce simp: db_inv_def job_inv_def weight_def)
  then show "weight v < weight v' \<Longrightarrow> \<forall>x m. y_tenant (abs db) (v_tenant v) = Some x \<longrightarrow> y_limit (abs db) (v_tenant v) = Some m \<longrightarrow>
      m = 0 \<or> x + weight v' - weight v \<le> m" using w by simp
qed

lemma fail_descendant_moves:
  assumes start: "moves f db0 db" "db_inv db0" and row: "child \<in> set (jobs db0)" "\<not> Terminal (j_state child)"
    and run: "fail_descendant pid now child db = Inr db'"
  shows "moves f db db'"
proof -
  let ?n = "j_state_version child + 1" let ?g = "dead_letter_row now (j_state_version child + 1) upstream_failed"
  let ?p = "\<lambda>j. j_id j = j_id child \<and> j_state_version j = j_state_version child \<and> \<not> Terminal (j_state j)"
  have inv: "db_inv db" using moves_inv start by blast
  then have k: "keys_ok db" by (simp add: db_inv_def)
  obtain db1 where rel: "(if active_state (j_state child) then releaseSlots (j_tenant child) (j_queue child) (j_slot_cost child) now db else Inr db) = Inr db1"
    and aff: "affected ?p (jobs db1) = 1"
    and rest: "\<exists>db4. bindE (insertCanonicalCompletion (j_id child) StateDeadLetter ?n (j_attempt_no child) '''' (Some upstream_failed) now
        (db1\<lparr>jobs := update_where ?p ?g (jobs db1)\<rparr>)) (insertDeadLetter (j_id child) (Some upstream_failed) now) = Inr db4 \<and>
      appendEvent (j_id child) ''upstream_failed'' StateDeadLetter ?n now (JObj [(''root_job_id'', JStr pid)]) db4 = Inr db'"
    using run unfolding fail_descendant_def bindE_Inr_iff Let_def by (fastforce simp: bindE_Inr_iff split: if_split_asm)
  have 1: "keys_ok db1 \<and> abs db1 = add_slots (j_tenant child) (j_queue child) (- weight (view child)) (abs db) \<and> jobs db1 = jobs db \<and>
      attempts db1 = attempts db \<and> job_dependencies db1 = job_dependencies db"
    using rel releaseSlots_view[OF _ k] k by (auto simp: weight_view split: if_splits)
  obtain r where r: "lookup j_id (j_id child) (jobs db1) = Some r" "?p r"
    and a: "abs (db1\<lparr>jobs := update_where ?p ?g (jobs db1)\<rparr>) = put_job (j_id child) (view (?g r)) (abs db1)"
    and k2: "keys_ok (db1\<lparr>jobs := update_where ?p ?g (jobs db1)\<rparr>)"
    using update_job_view[OF conjunct1[OF 1] aff, of "j_id child" ?g] by auto
  have vr: "view r = view child" using stale_row[OF moves_refines[OF start(1)] start(2) row(1)] r 1 by simp
  obtain db4 where dead: "bindE (insertCanonicalCompletion (j_id child) StateDeadLetter ?n (j_attempt_no child) '''' (Some upstream_failed) now
        (db1\<lparr>jobs := update_where ?p ?g (jobs db1)\<rparr>)) (insertDeadLetter (j_id child) (Some upstream_failed) now) = Inr db4"
      and ev: "appendEvent (j_id child) ''upstream_failed'' StateDeadLetter ?n now (JObj [(''root_job_id'', JStr pid)]) db4 = Inr db'"
    using rest by blast
  note d = dead_outcome_view[OF dead, of "view (?g r)"]
  show ?thesis
  proof (rule settleI[OF inv, where i = "j_id child" and v = "view child" and s = StateDeadLetter])
    show "attempts_follow (j_id child) ((view child)\<lparr>v_state := StateDeadLetter, v_version := v_version (view child) + 1, v_ready := 0\<rparr>)
      (y_attempts (abs db)) (y_attempts (abs db))" by (rule attempts_follow_same) (simp add: active_state_def)
    show "y_jobs (abs db) (j_id child) = Some (view child)" using r vr 1 by (auto simp: abs_sel)
  qed (use d a 1 k2 row vr appendEvent_view[OF ev] appendEvent_Inr[OF ev] in \<open>auto simp: Terminal_def\<close>)
qed

lemma failDescendants_moves:
  "failDescendants pid now db = Inr db' \<Longrightarrow> db_inv db \<Longrightarrow> moves f db db'"
  unfolding failDescendants_def by (erule moves_foldE) (auto simp: live_descendants_def intro: fail_descendant_moves)

section \<open>Expired leases\<close>

lemma requeueI:
  assumes "db_inv db" and "keys_ok db'" and "job_dependencies db' = job_dependencies db"
    and "y_jobs (abs db) i = Some v" and "active_state (v_state v) \<or> f \<and> \<not> Terminal (v_state v)"
    and "v' = v\<lparr>v_state := StatePending, v_version := v_version v + 1, v_ready := y_ready (abs db) + 1\<rparr>"
    and "attempts_follow i v' (y_attempts (abs db)) A'"
    and "abs db' = put_job i v' ((add_slots (v_tenant v) (v_queue v) (- weight v) ((abs db)\<lparr>y_attempts := A'\<rparr>))\<lparr>y_ready := y_ready (abs db) + 1\<rparr>)"
  shows "moves f db db'"
proof (rule moveI[OF assms(2-4) _ _ assms(7)])
  have w: "weight v' = 0" using assms(6) by (simp add: weight_def active_state_def)
  show "legal f (parents_succeeded (abs db) i) (y_ready (abs db) + 1) v v'"
    unfolding assms(6) using assms(5) legal.requeue legal.release by blast
  show "abs db' = put_outcome i v' (put_job i v' (add_slots (v_tenant v) (v_queue v) (weight v' - weight v) ((abs db)\<lparr>y_attempts := A',
    y_ready := if v_ready v' = y_ready (abs db) + 1 then y_ready (abs db) + 1 else y_ready (abs db)\<rparr>)))"
    using assms(6,8) w by (simp add: put_outcome_def Terminal_def add_slots_def)
  have "0 \<le> weight v"
    using yard_invD(1)[of "abs db"] assms(1,4) by (fastforce simp: db_inv_def job_inv_def weight_def)
  then show "weight v < weight v' \<Longrightarrow> \<forall>x m. y_tenant (abs db) (v_tenant v) = Some x \<longrightarrow> y_limit (abs db) (v_tenant v) = Some m \<longrightarrow>
      m = 0 \<or> x + weight v' - weight v \<le> m" using w by simp
qed

lemma expire_attempt_view:
  assumes "db_inv db" and "lookup j_id (ea_job a) (jobs db) = Some r" and "leased_row a r"
  shows "abs (db\<lparr>attempts := expire_attempt_rows now a (attempts db)\<rparr>) =
      (abs db)\<lparr>y_attempts := (y_attempts (abs db))((ea_job a, ea_attempt_no a) \<mapsto> (ea_generation a, False))\<rparr> \<and>
    keys_ok (db\<lparr>attempts := expire_attempt_rows now a (attempts db)\<rparr>) \<and>
    (\<exists>b. y_attempts (abs db) (ea_job a, ea_attempt_no a) = Some (ea_generation a, b))"
proof -
  obtain x where x: "lookup attempt_key (ea_job a, ea_attempt_no a) (attempts db) = Some x" "at_generation x = ea_generation a"
      "open_attempt (at_state x)"
    using active_attempt[OF assms(1,2)] assms(3) by (auto simp: leased_row_def)
  have key: "at_job x = ea_job a" "at_no x = ea_attempt_no a" using lookup_Some_in[OF x(1)] by (simp_all add: attempt_key_def)
  have k: "keys_ok db" using assms(1) by (simp add: db_inv_def)
  show ?thesis
    unfolding expire_attempt_rows_def
    using update_attempt_view[OF k x(1), of "\<lambda>r. at_job r = ea_job a \<and> at_no r = ea_attempt_no a \<and> at_generation r = ea_generation a \<and> open_attempt (at_state r)"
      "\<lambda>r. r\<lparr>at_state := AttemptExpired, at_completed_at := Some (timeToDB now), at_failure := Some lease_expired\<rparr>"] x key
    by (auto simp: attempt_key_def attempt_view_def open_attempt_def abs_sel)
qed

text \<open>A row that the reaper read and that its guard still finds is current in all that the slots depend on.\<close>

definition captured :: "db \<Rightarrow> expiredAttempt \<Rightarrow> bool" where
  "captured db a \<longleftrightarrow> (\<forall>r. lookup j_id (ea_job a) (jobs db) = Some r \<longrightarrow> j_state_version r = ea_version a \<longrightarrow>
     j_tenant r = ea_tenant a \<and> j_queue r = ea_queue a \<and> j_slot_cost r = ea_slot_cost a)"

lemma expired_captured:
  assumes "moves f db0 db" and "db_inv db0" and "a \<in> set (expired_attempts db0 now limit)"
  shows "captured db a"
proof -
  obtain x where "expired_row db0 now x = Some a"
    using assms(3) set_take_subset[of "nat limit"] by (fastforce simp: expired_attempts_def map_filter_def)
  then obtain j where j: "lookup j_id (ea_job a) (jobs db0) = Some j" "ea_version a = j_state_version j"
      "ea_tenant a = j_tenant j" "ea_queue a = j_queue j" "ea_slot_cost a = j_slot_cost j"
    by (auto simp: expired_row_def expired_of_def split: option.splits if_splits)
  have m: "j \<in> set (jobs db0)" "j_id j = ea_job a" using lookup_Some_in[OF j(1)] by auto
  show ?thesis unfolding captured_def
  proof (intro allI impI)
    fix r assume "lookup j_id (ea_job a) (jobs db) = Some r" "j_state_version r = ea_version a"
    then have "view r = view j"
      using stale_row[OF moves_refines[OF assms(1)] assms(2) m(1)] m(2) j(2) by simp
    from arg_cong[OF this, of v_tenant] arg_cong[OF this, of v_queue] arg_cong[OF this, of v_cost]
    show "j_tenant r = ea_tenant a \<and> j_queue r = ea_queue a \<and> j_slot_cost r = ea_slot_cost a" using j by simp
  qed
qed

lemma reap_rows:
  assumes inv: "db_inv db" and cap: "captured db a" and rel: "releaseSlots (ea_tenant a) (ea_queue a) (ea_slot_cost a) now
      (db\<lparr>attempts := expire_attempt_rows now a (attempts db)\<rparr>) = Inr db2"
    and r: "lookup j_id (ea_job a) (jobs db) = Some r" "leased_row a r"
  shows "keys_ok db2 \<and> jobs db2 = jobs db \<and> job_dependencies db2 = job_dependencies db \<and>
    (\<exists>A'. abs db2 = add_slots (v_tenant (view r)) (v_queue (view r)) (- weight (view r)) ((abs db)\<lparr>y_attempts := A'\<rparr>) \<and>
      (\<forall>v'. \<not> active_state (v_state v') \<longrightarrow> attempts_follow (ea_job a) v' (y_attempts (abs db)) A'))"
proof -
  note e = expire_attempt_view[OF inv r, of now]
  note s = releaseSlots_view[OF rel]
  have w: "weight (view r) = ea_slot_cost a" "j_tenant r = ea_tenant a" "j_queue r = ea_queue a"
    using cap r by (auto simp: captured_def leased_row_def weight_view)
  show ?thesis using e s w attempts_follow_close[of _ "y_attempts (abs db)" "ea_job a" "ea_attempt_no a"] by auto
qed

lemma expire_keys: "keys_ok db \<Longrightarrow> keys_ok (db\<lparr>attempts := expire_attempt_rows now a (attempts db)\<rparr>)"
  by (simp add: keys_ok_def expire_attempt_rows_def distinct_update_where)

lemma reap_requeue:
  assumes inv: "db_inv db" and cap: "captured db a" and rel: "releaseSlots (ea_tenant a) (ea_queue a) (ea_slot_cost a) now
      (db\<lparr>attempts := expire_attempt_rows now a (attempts db)\<rparr>) = Inr db2"
    and seq: "nextReadySeq db2 = Inr (q, db3)" and aff: "affected (leased_row a) (jobs db3) = 1"
    and g: "\<And>x. j_id (g x) = j_id x"
      "\<And>x. leased_row a x \<Longrightarrow> view (g x) = (view x)\<lparr>v_state := StatePending, v_version := j_state_version x + 1, v_ready := q\<rparr>"
    and ev: "appendEvent (ea_job a) ty st n now pl (db3\<lparr>jobs := update_where (leased_row a) g (jobs db3)\<rparr>) = Inr db'"
  shows "moves f db db'"
proof -
  have k: "keys_ok db" using inv by (simp add: db_inv_def)
  note s = releaseSlots_view[OF rel expire_keys[OF k]]
  have k2: "keys_ok db2" using s by simp
  note q = nextReadySeq_view[OF seq k2]
  have k3: "keys_ok db3" using q by simp
  obtain r where r: "lookup j_id (ea_job a) (jobs db3) = Some r" "leased_row a r"
    and a: "abs (db3\<lparr>jobs := update_where (leased_row a) g (jobs db3)\<rparr>) = put_job (ea_job a) (view (g r)) (abs db3)"
    and k4: "keys_ok (db3\<lparr>jobs := update_where (leased_row a) g (jobs db3)\<rparr>)"
    using update_job_view[OF k3 aff, of "ea_job a" g] g(1) by (auto simp: leased_row_def)
  have r0: "lookup j_id (ea_job a) (jobs db) = Some r" using r(1) q s by auto
  obtain A' where A': "abs db2 = add_slots (v_tenant (view r)) (v_queue (view r)) (- weight (view r)) ((abs db)\<lparr>y_attempts := A'\<rparr>)"
      "\<And>v'. \<not> active_state (v_state v') \<Longrightarrow> attempts_follow (ea_job a) v' (y_attempts (abs db)) A'"
    using reap_rows[OF inv cap rel r0 r(2)] by blast
  have y: "y_ready (abs db2) = y_ready (abs db)" using A' by (simp add: add_slots_def)
  then have qv: "q = y_ready (abs db) + 1" using q by (simp add: abs_sel)
  show ?thesis
  proof (rule requeueI[OF inv, where i = "ea_job a" and v = "view r" and A' = A'])
    show "attempts_follow (ea_job a) ((view r)\<lparr>v_state := StatePending, v_version := v_version (view r) + 1, v_ready := y_ready (abs db) + 1\<rparr>)
        (y_attempts (abs db)) A'" by (rule A'(2)) (simp add: active_state_def)
    show "active_state (v_state (view r)) \<or> f \<and> \<not> Terminal (v_state (view r))" using r(2) by (simp add: leased_row_def)
  qed (use appendEvent_view[OF ev] appendEvent_Inr[OF ev] a k4 q s A'(1) qv abs_job[OF r0] g(2)[OF r(2)] in auto)
qed

lemma reap_dead:
  assumes inv: "db_inv db" and cap: "captured db a" and rel: "releaseSlots (ea_tenant a) (ea_queue a) (ea_slot_cost a) now
      (db\<lparr>attempts := expire_attempt_rows now a (attempts db)\<rparr>) = Inr db2"
    and aff: "affected (leased_row a) (jobs db2) = 1"
    and dead: "bindE (insertCanonicalCompletion (ea_job a) StateDeadLetter (ea_version a + 1) n' '''' fl now
        (db2\<lparr>jobs := update_where (leased_row a) (dead_letter_row now (ea_version a + 1) x) (jobs db2)\<rparr>)) (insertDeadLetter (ea_job a) fl' now) = Inr db5"
    and ev: "appendEvent (ea_job a) ty st n now pl db5 = Inr db6"
  shows "moves f db db6"
proof -
  let ?g = "dead_letter_row now (ea_version a + 1) x"
  have k: "keys_ok db" using inv by (simp add: db_inv_def)
  note s = releaseSlots_view[OF rel expire_keys[OF k]]
  have k2: "keys_ok db2" using s by simp
  obtain r where r: "lookup j_id (ea_job a) (jobs db2) = Some r" "leased_row a r"
    and a: "abs (db2\<lparr>jobs := update_where (leased_row a) ?g (jobs db2)\<rparr>) = put_job (ea_job a) (view (?g r)) (abs db2)"
    and k3: "keys_ok (db2\<lparr>jobs := update_where (leased_row a) ?g (jobs db2)\<rparr>)"
    using update_job_view[OF k2 aff, of "ea_job a" ?g] by (auto simp: leased_row_def)
  have r0: "lookup j_id (ea_job a) (jobs db) = Some r" using r(1) s by auto
  have v: "j_state_version r = ea_version a" "active_state (j_state r)" using r(2) by (auto simp: leased_row_def)
  obtain A' where A': "abs db2 = add_slots (v_tenant (view r)) (v_queue (view r)) (- weight (view r)) ((abs db)\<lparr>y_attempts := A'\<rparr>)"
      "\<And>v'. \<not> active_state (v_state v') \<Longrightarrow> attempts_follow (ea_job a) v' (y_attempts (abs db)) A'"
    using reap_rows[OF inv cap rel r0 r(2)] by blast
  note d = dead_outcome_view[OF dead, of "view (?g r)"]
  show ?thesis
  proof (rule settleI[OF inv, where i = "ea_job a" and v = "view r" and A' = A' and s = StateDeadLetter])
    show "attempts_follow (ea_job a) ((view r)\<lparr>v_state := StateDeadLetter, v_version := v_version (view r) + 1, v_ready := 0\<rparr>)
        (y_attempts (abs db)) A'" by (rule A'(2)) (simp add: active_state_def)
    show "\<not> Terminal (v_state (view r)) \<and> Terminal StateDeadLetter \<or> active_state (v_state (view r)) \<and> StateDeadLetter = StateRetrying"
      using v(2) terminal_inactive by (auto simp: Terminal_def)
  qed (use appendEvent_view[OF ev] appendEvent_Inr[OF ev] a k3 s A'(1) abs_job[OF r0] d v in auto)
qed

lemma reapAttempt_moves:
  assumes inv: "db_inv db" and cap: "captured db a" and run: "reapAttempt now a db = Inr db'"
  shows "moves f db db'"
proof -
  let ?n = "ea_version a + 1"
  obtain db2 where rel: "releaseSlots (ea_tenant a) (ea_queue a) (ea_slot_cost a) now
      (db\<lparr>attempts := expire_attempt_rows now a (attempts db)\<rparr>) = Inr db2"
    using run by (auto simp: reapAttempt_def bindE_Inr_iff Let_def)
  show ?thesis
  proof (cases "ea_attempt_no a < max_attempts (ea_retry a)")
    case True
    let ?g = "\<lambda>q j. j\<lparr>j_state := StatePending, j_state_version := ?n, j_available_at := timeToDB now, j_ready_seq := q,
      jr_recovery_pending := True, j_updated_at := timeToDB now, j_failure := Some lease_expired\<rparr>"
    obtain q db3 pl where seq: "nextReadySeq db2 = Inr (q, db3)" and aff: "affected (leased_row a) (jobs db3) = 1"
      and ev: "appendEvent (ea_job a) ''lease_reaped'' StatePending ?n now pl (db3\<lparr>jobs := update_where (leased_row a) (?g q) (jobs db3)\<rparr>) = Inr db'"
      using run rel True by (fastforce simp: reapAttempt_def bindE_Inr_iff Let_def split: if_split_asm)
    show ?thesis
      by (rule reap_requeue[OF inv cap rel seq aff _ _ ev]) (auto simp: leased_row_def intro!: jview.equality)
  next
    case False
    obtain db5 db6 pl where aff: "affected (leased_row a) (jobs db2) = 1"
      and dead: "bindE (insertCanonicalCompletion (ea_job a) StateDeadLetter ?n (ea_attempt_no a) '''' (Some lease_expired) now
        (db2\<lparr>jobs := update_where (leased_row a) (dead_letter_row now ?n lease_expired) (jobs db2)\<rparr>)) (insertDeadLetter (ea_job a) (Some lease_expired) now) = Inr db5"
      and ev: "appendEvent (ea_job a) ''lease_reaped'' StateDeadLetter ?n now pl db5 = Inr db6"
      and desc: "failDescendants (ea_job a) now db6 = Inr db'"
      using run rel False by (fastforce simp: reapAttempt_def bindE_Inr_iff Let_def split: if_split_asm)
    have m: "moves f db db6" by (rule reap_dead[OF inv cap rel aff dead ev])
    show ?thesis by (rule moves_trans[OF m failDescendants_moves[OF desc moves_inv[OF m inv]]])
  qed
qed

section \<open>The bodies of the transactions\<close>

lemma PromoteDue_refines:
  assumes "foldE (promote_job now) (due_jobs db now limit) db = Inr db'"
  shows "refines f db db'"
proof (rule refines_if_inv)
  assume "db_inv db"
  then show "refines f db db'"
    by (intro moves_refines moves_foldE[OF assms]) (auto intro: promote_job_moves)
qed

lemma ReapExpired_refines:
  assumes "ReapExpired_tx limit now db = Inr (xs, db')"
  shows "refines f db db'"
proof (rule refines_if_inv)
  assume inv: "db_inv db"
  have "foldE (reapAttempt now) (expired_attempts db now limit) db = Inr db'"
    using assms by (auto simp: ReapExpired_tx_def bindE_Inr_iff Let_def)
  then show "refines f db db'"
    by (intro moves_refines, elim moves_foldE) (auto intro: reapAttempt_moves moves_inv[OF _ inv] expired_captured[OF _ inv])
qed

end
