(* ===== verification/Refine_Leases.thy ===== *)
theory Refine_Leases
  imports Store_Leases Refine_Maintenance
begin

text \<open>
  The operations of \<^verbatim>\<open>leases.go\<close> refine moves of jobs: a grant opens the attempt that the job's new generation
  names, a start keeps it open, a completion closes it, and a heartbeat is invisible.
\<close>

section \<open>Acquisition\<close>

lemma insert_attempt_view:
  assumes "insert_attempt a db = Inr db'"
  shows "abs db' = (abs db)\<lparr>y_attempts := (y_attempts (abs db))(attempt_key a \<mapsto> attempt_view a)\<rparr> \<and> (keys_ok db \<longrightarrow> keys_ok db') \<and>
    jobs db' = jobs db \<and> job_dependencies db' = job_dependencies db"
proof -
  have n: "lookup attempt_key (attempt_key a) (attempts db) = None" and db': "db' = db\<lparr>attempts := attempts db @ [a]\<rparr>"
    using assms by (auto simp: insert_attempt_def insert_row_Some split: if_splits option.splits)
  have "abs db' = (abs db)\<lparr>y_attempts := (y_attempts (abs db))(attempt_key a \<mapsto> attempt_view a)\<rparr>"
    using table_map_insert[OF n, of attempt_view] unfolding db' by (intro yard.equality) (simp_all add: abs_sel ready_counter_def)
  moreover have "keys_ok db'" if "keys_ok db"
    using that n unfolding db' by (auto simp: keys_ok_def lookup_None_iff)
  ultimately show ?thesis by (simp add: db')
qed

lemma lease_grant_moves:
  assumes start: "moves f db0 db" "db_inv db0" and row: "row \<in> set (jobs db0)"
    and cand: "lookup lc_job (g_job_id g) (sp_candidates plan) = Some (lease_candidate row)"
    and run: "lease_grant plan w now ttl g (ls, ent, db) = Inr (ls', ent', db')"
  shows "moves f db db'"
proof -
  let ?i = "j_id row" let ?n = "j_attempt_no row + 1" let ?k = "j_lease_generation row + 1" let ?sv = "j_state_version row + 1"
  let ?p = "\<lambda>j. j_id j = ?i \<and> j_state j = StatePending \<and> j_ready_seq j > 0 \<and> j_state_version j = j_state_version row"
  let ?g = "\<lambda>j. j\<lparr>j_state := StateScheduled, j_attempt_no := ?n, j_lease_generation := ?k, j_state_version := ?sv, j_ready_seq := 0,
    jr_recovery_pending := False, j_updated_at := timeToDB now\<rparr>"
  have inv: "db_inv db" using moves_inv start by blast
  then have k: "keys_ok db" by (simp add: db_inv_def)
  obtain db1 tok where res: "reserveSlots (j_tenant row) (j_queue row) (j_slot_cost row) now db = Inr (True, db1)"
    and aff: "affected ?p (jobs db1) = 1"
    and rest: "\<exists>db3 pl. insert_attempt (new_attempt (lease_candidate row) w tok now (now + ttl)) (db1\<lparr>jobs := update_where ?p ?g (jobs db1)\<rparr>) = Inr db3 \<and>
      appendEvent ?i ''lease_acquired'' StateScheduled ?sv now pl db3 = Inr db'"
    using run cand by (fastforce simp: lease_grant_def lease_candidate_def bindE_Inr_iff Let_def split: if_split_asm sum.splits)
  then obtain db3 pl where ins: "insert_attempt (new_attempt (lease_candidate row) w tok now (now + ttl)) (db1\<lparr>jobs := update_where ?p ?g (jobs db1)\<rparr>) = Inr db3"
    and ev: "appendEvent ?i ''lease_acquired'' StateScheduled ?sv now pl db3 = Inr db'" by blast
  note s = reserveSlots_view[OF res k]
  obtain r where r: "lookup j_id ?i (jobs db1) = Some r" "?p r"
    and a: "abs (db1\<lparr>jobs := update_where ?p ?g (jobs db1)\<rparr>) = put_job ?i (view (?g r)) (abs db1)"
    and k2: "keys_ok (db1\<lparr>jobs := update_where ?p ?g (jobs db1)\<rparr>)"
    using update_job_view[OF conjunct1[OF s] aff, of ?i ?g] by auto
  have vr: "view r = view row" using stale_row[OF moves_refines[OF start(1)] start(2) row] r s by simp
  have st: "j_state row = StatePending" "0 < j_ready_seq row"
    using r(2) arg_cong[OF vr, of v_state] arg_cong[OF vr, of v_ready] by auto
  have v': "view (?g r) = (view row)\<lparr>v_state := StateScheduled, v_version := ?sv, v_attempt := ?n, v_generation := ?k, v_ready := 0\<rparr>"
    using vr by (auto intro: jview.equality simp: view_def)
  have w: "weight (view row) = 0" "weight (view (?g r)) = j_slot_cost row"
    using st(1) v' by (auto simp: weight_def active_state_def)
  let ?A = "(y_attempts (abs db))((?i, ?n) \<mapsto> (?k, True))"
  have key: "attempt_key (new_attempt (lease_candidate row) w tok now (now + ttl)) = (?i, ?n)"
      "attempt_view (new_attempt (lease_candidate row) w tok now (now + ttl)) = (?k, True)"
    by (simp_all add: new_attempt_def attempt_key_def attempt_view_def open_attempt_def lease_candidate_def)
  show ?thesis
  proof (rule moveI[where i = ?i and v = "view row" and v' = "view (?g r)" and A' = ?A])
    show "legal f (parents_succeeded (abs db) ?i) (y_ready (abs db) + 1) (view row) (view (?g r))"
      using legal.lease[of "view row"] st unfolding v' by simp
    show "attempts_follow ?i (view (?g r)) (y_attempts (abs db)) ?A"
      by (rule attempts_follow_open) (simp_all add: v' active_state_def)
    show "abs db' = put_outcome ?i (view (?g r)) (put_job ?i (view (?g r)) (add_slots (v_tenant (view row)) (v_queue (view row))
      (weight (view (?g r)) - weight (view row)) ((abs db)\<lparr>y_attempts := ?A, y_ready := if v_ready (view (?g r)) = y_ready (abs db) + 1
        then y_ready (abs db) + 1 else y_ready (abs db)\<rparr>)))"
      unfolding w using appendEvent_view[OF ev] insert_attempt_view[OF ins] a s ready_nonneg[OF inv] v' key
      by (simp add: put_outcome_def Terminal_def put_job_def add_slots_def)
  qed (use appendEvent_view[OF ev] appendEvent_Inr[OF ev] insert_attempt_view[OF ins] s k2 r vr w abs_job[of ?i db] in auto)
qed

lemma scheduler_rows_jobs: "row \<in> set (scheduler_rows db now limit) \<Longrightarrow> row \<in> set (jobs db)"
  by (auto simp: scheduler_rows_def Let_def)

lemma lease_grants_moves:
  assumes "foldE (lease_grant plan w now ttl) gs (ls, ent, db) = Inr (ls', ent', db')" and "db_inv db"
    and "set (sp_candidates plan) \<subseteq> lease_candidate ` set (jobs db)"
  shows "moves f db db'"
proof -
  have "(\<lambda>(_, _, u). moves f db u) (ls', ent', db')"
  proof (rule foldE_invariant[OF assms(1)])
    fix x s s' assume "(\<lambda>(_, _, u). moves f db u) s" and "lease_grant plan w now ttl x s = Inr s'"
    then obtain l e u l' e' u' where s: "moves f db u" "lease_grant plan w now ttl x (l, e, u) = Inr (l', e', u')" "s' = (l', e', u')"
      by (cases s; cases s') auto
    then obtain c where c: "lookup lc_job (g_job_id x) (sp_candidates plan) = Some c"
      by (auto simp: lease_grant_def split: option.splits)
    with assms(3) lookup_Some_in[OF c] obtain row where "row \<in> set (jobs db)" "c = lease_candidate row" by blast
    then show "(\<lambda>(_, _, u). moves f db u) s'"
      using moves_trans[OF s(1) lease_grant_moves[OF s(1) assms(2) _ _ s(2)]] c s(3) by simp
  qed simp
  then show ?thesis by simp
qed

lemma acquire_tx_refines:
  assumes "acquire_tx w slots limit ttl reserve ent now db = Inr (ls, db')"
  shows "refines f db db'"
proof (rule refines_if_inv)
  assume inv: "db_inv db"
  obtain plan db1 where plan: "buildSchedulePlan now slots limit reserve db = Inr (plan, db1)"
    using assms by (auto simp: acquire_tx_def bindE_Inr_iff)
  show "refines f db db'"
  proof (cases "sp_candidates plan = []")
    case True
    then show ?thesis using assms plan by (simp add: acquire_tx_def)
  next
    case False
    note b = buildSchedulePlan_view[OF plan]
    obtain ent' db2 where fold: "foldE (lease_grant plan w now ttl) (de_grants (sp_decision plan)) ([], ent, db1) = Inr (ls, ent', db2)"
      and per: "persistSchedulePlan plan now db2 = Inr db'"
      using assms plan False by (auto simp: acquire_tx_def bindE_Inr_iff)
    have inv1: "db_inv db1" using inv b by (simp add: db_inv_def)
    have "refines f db1 db2"
      using b False by (intro moves_refines[OF lease_grants_moves[OF fold inv1]]) (auto dest: scheduler_rows_jobs)
    then show ?thesis using b persistSchedulePlan_view[OF per] inv by (auto simp: refines_def db_inv_def)
  qed
qed

section \<open>Starts and heartbeats\<close>

lemma fenced_attempt_Some:
  "fenced_attempt db w ref = Some (a, j) \<Longrightarrow>
   lookup attempt_key (r_job_id ref, r_attempt_no ref) (attempts db) = Some a \<and> lookup j_id (r_job_id ref) (jobs db) = Some j \<and>
   at_worker a = w \<and> at_generation a = r_generation ref \<and> at_token_hash a = TokenHash (r_token ref) \<and>
   j_attempt_no j = r_attempt_no ref \<and> j_lease_generation j = at_generation a"
  by (auto simp: fenced_attempt_def attempt_key_def dest!: lookup_Some_in split: option.splits if_splits)

lemma markRunningTx_moves:
  assumes inv: "db_inv db" and run: "markRunningTx w ref now db = Inr db'"
  shows "moves f db db'"
proof -
  obtain a j where fa: "fenced_attempt db w ref = Some (a, j)" using run by (auto simp: markRunningTx_def split: option.splits)
  note fen = fenced_attempt_Some[OF fa]
  show ?thesis
  proof (cases "at_state a = AttemptRunning \<and> j_state j = StateRunning")
    case True
    then show ?thesis using run fa by (auto simp: markRunningTx_def split: if_splits)
  next
    case False
    let ?i = "r_job_id ref"
    let ?pa = "\<lambda>r. attempt_key r = (?i, r_attempt_no ref)" let ?ga = "\<lambda>r. r\<lparr>at_state := AttemptRunning, at_started_at := Some (timeToDB now)\<rparr>"
    let ?p = "\<lambda>r. j_id r = ?i \<and> j_state_version r = j_state_version j"
    let ?g = "\<lambda>r. r\<lparr>j_state := StateRunning, j_state_version := j_state_version r + 1, j_updated_at := timeToDB now\<rparr>"
    define db1 where "db1 = db\<lparr>attempts := update_where ?pa ?ga (attempts db)\<rparr>"
    have st: "at_state a = AttemptLeased" "j_state j = StateScheduled"
      and ev: "appendEvent ?i ''attempt_started'' StateRunning (j_state_version j + 1) now (start_event ref)
        (db1\<lparr>jobs := update_where ?p ?g (jobs db1)\<rparr>) = Inr db'"
      using run fa False by (auto simp: markRunningTx_def Let_def db1_def split: if_split_asm)
    have k: "keys_ok db" using inv by (simp add: db_inv_def)
    have a1: "abs db1 = (abs db)\<lparr>y_attempts := (y_attempts (abs db))((?i, r_attempt_no ref) \<mapsto> (at_generation a, True))\<rparr> \<and> keys_ok db1"
      using update_attempt_view[OF k conjunct1[OF fen], of ?pa ?ga] fen lookup_Some_in[OF conjunct1[OF fen]]
      by (simp add: attempt_view_def open_attempt_def db1_def)
    have same: "jobs db1 = jobs db" "job_dependencies db1 = job_dependencies db" by (simp_all add: db1_def)
    have j: "lookup j_id ?i (jobs db) = Some j" "j_id j = ?i" "distinct (map j_id (jobs db))"
      using fen lookup_Some_in[of j_id ?i "jobs db" j] k by (simp_all add: keys_ok_def)
    have "affected ?p (jobs db) = 1" by (rule affected_oneI[OF j(3,1)]) (simp_all add: j(2))
    then have aff: "affected ?p (jobs db1) = 1" unfolding same .
    obtain r where r: "lookup j_id ?i (jobs db1) = Some r"
      and a2: "abs (db1\<lparr>jobs := update_where ?p ?g (jobs db1)\<rparr>) = put_job ?i (view (?g r)) (abs db1)"
      and k2: "keys_ok (db1\<lparr>jobs := update_where ?p ?g (jobs db1)\<rparr>)"
      by (rule update_job_view[OF conjunct2[OF a1] aff, of ?i ?g]) (simp, simp, rule that)
    have rj: "r = j" using r j same by simp
    have v': "view (?g j) = (view j)\<lparr>v_state := StateRunning, v_version := v_version (view j) + 1\<rparr>"
      by (auto intro: jview.equality)
    have w: "weight (view (?g j)) = weight (view j)" using st by (simp add: weight_view active_state_def)
    show ?thesis
    proof (rule moveI[where i = ?i and v = "view j" and v' = "view (?g j)" and A' = "y_attempts (abs db1)"])
      show "legal f (parents_succeeded (abs db) ?i) (y_ready (abs db) + 1) (view j) (view (?g j))"
        unfolding v' by (rule legal.start) (simp add: st)
      show "attempts_follow ?i (view (?g j)) (y_attempts (abs db)) (y_attempts (abs db1))"
        unfolding conjunct1[OF a1] using fen by (auto intro!: attempts_follow_open simp: v' active_state_def)
      show "y_jobs (abs db) ?i = Some (view j)" using fen by (intro abs_job) simp
      have "v_ready (view j) \<le> y_ready (abs db)" using abs_job_inv[OF inv] fen by (fastforce simp: job_inv_def)
      then show "abs db' = put_outcome ?i (view (?g j)) (put_job ?i (view (?g j)) (add_slots (v_tenant (view j)) (v_queue (view j))
        (weight (view (?g j)) - weight (view j)) ((abs db)\<lparr>y_attempts := y_attempts (abs db1),
          y_ready := if v_ready (view (?g j)) = y_ready (abs db) + 1 then y_ready (abs db) + 1 else y_ready (abs db)\<rparr>)))"
        unfolding w using appendEvent_view[OF ev] a1 a2 rj by (simp add: put_outcome_def Terminal_def v')
    qed (use appendEvent_view[OF ev] appendEvent_Inr[OF ev] k2 w same in auto)
  qed
qed

lemma mark_batch_moves:
  "mark_batch w refs now db = Inr (rs, db') \<Longrightarrow> db_inv db \<Longrightarrow> moves f db db'"
proof (induction refs arbitrary: db rs)
  case (Cons ref refs)
  show ?case
  proof (cases "markRunningTx w ref now db")
    case (Inl e)
    then show ?thesis using Cons by (auto simp: bindE_Inr_iff split: if_splits)
  next
    case (Inr db1)
    have m: "moves f db db1" by (rule markRunningTx_moves[OF Cons.prems(2) Inr])
    show ?thesis
      using moves_trans[OF m] Cons.IH[OF _ moves_inv[OF m Cons.prems(2)]] Cons.prems(1) Inr by (auto simp: bindE_Inr_iff)
  qed
qed simp

lemma heartbeat_one_view:
  assumes "heartbeat_one w now ttl ref (rs, db) = Inr (rs', db')"
  shows "abs db' = abs db \<and> (keys_ok db \<longrightarrow> keys_ok db')"
proof -
  have db': "db' = db\<lparr>attempts := update_where (beating db w ref now) (\<lambda>a. a\<lparr>at_heartbeat_at := timeToDB now,
      at_expires_at := max (at_expires_at a) (timeToDB (now + ttl))\<rparr>) (attempts db)\<rparr>"
    using assms by (auto simp: heartbeat_one_def Let_def split: if_splits option.splits)
  show ?thesis
  proof
    show "abs db' = abs db"
      unfolding db' using table_map_invisible[where g = attempt_view and key = attempt_key]
      by (intro yard.equality) (simp_all add: abs_sel ready_counter_def attempt_view_def)
    show "keys_ok db \<longrightarrow> keys_ok db'"
      unfolding db' by (simp add: keys_ok_def distinct_update_where)
  qed
qed

lemma heartbeats_refine:
  assumes "foldE (heartbeat_one w now ttl) refs (rs, db) = Inr (rs', db')"
  shows "refines f db db'"
proof -
  have "(\<lambda>(_, u). abs u = abs db \<and> (keys_ok db \<longrightarrow> keys_ok u)) (rs', db')"
    by (rule foldE_invariant[OF assms]) (auto dest!: heartbeat_one_view)
  then show ?thesis by (intro refines_same) auto
qed

section \<open>Completions\<close>

lemma completion_plan_cases:
  "completion_plan c pol now = Inr (st, ast, av) \<Longrightarrow> (Terminal st \<longleftrightarrow> st \<noteq> StateRetrying) \<and> \<not> open_attempt ast"
  by (auto simp: completion_plan_def bindE_Inr_iff Terminal_def open_attempt_def split: if_splits)

lemma outcome_view_of:
  assumes "(if st \<noteq> StateRetrying then bindE (insertCanonicalCompletion i st n k out fl now db) (\<lambda>db3.
      if st = StateDeadLetter then insertDeadLetter i fl now db3 else Inr db3) else Inr db) = Inr db'"
    and "Terminal st \<longleftrightarrow> st \<noteq> StateRetrying" and "v_state v = st" and "v_version v = n"
  shows "abs db' = put_outcome i v (abs db) \<and> (keys_ok db \<longrightarrow> keys_ok db') \<and> jobs db' = jobs db \<and> attempts db' = attempts db \<and>
    job_dependencies db' = job_dependencies db"
proof (cases "st = StateRetrying")
  case True
  then show ?thesis using assms by (simp add: put_outcome_def)
next
  case False
  then obtain db3 where 1: "insertCanonicalCompletion i st n k out fl now db = Inr db3"
    and 2: "(if st = StateDeadLetter then insertDeadLetter i fl now db3 else Inr db3) = Inr db'"
    using assms(1) by (auto simp: bindE_Inr_iff)
  note c = insertCanonicalCompletion_view[OF 1]
  show ?thesis
  proof (cases "st = StateDeadLetter")
    case True
    then have "insertDeadLetter i fl now db3 = Inr db'" using 2 by simp
    from insertDeadLetter_view[OF this] c True assms(3,4) show ?thesis by (simp add: put_outcome_def)
  next
    case False
    then show ?thesis using 2 c assms(3,4) by (simp add: put_outcome_def)
  qed
qed

lemma close_attempt_view:
  assumes "keys_ok db" and "lookup attempt_key (r_job_id c, r_attempt_no c) (attempts db) = Some a" and "at_digest a = None"
    and "\<not> open_attempt ast"
  shows "abs (close_attempt c ast st n now db) =
      (abs db)\<lparr>y_attempts := (y_attempts (abs db))((r_job_id c, r_attempt_no c) \<mapsto> (at_generation a, False))\<rparr> \<and>
    keys_ok (close_attempt c ast st n now db) \<and> jobs (close_attempt c ast st n now db) = jobs db \<and>
    job_dependencies (close_attempt c ast st n now db) = job_dependencies db"
  unfolding close_attempt_def
  using update_attempt_view[OF assms(1,2), of "\<lambda>a. attempt_key a = (r_job_id c, r_attempt_no c) \<and> at_digest a = None"
    "\<lambda>a. a\<lparr>at_state := ast, at_completed_at := Some (timeToDB now), at_failure := completion_failure c,
              at_digest := Some (completionDigest c), at_receipt_state := Some st,
              at_receipt_version := Some n, at_receipt_committed := Some (timeToDB now)\<rparr>"]
    assms(3,4) lookup_Some_in[OF assms(2)] by (simp add: attempt_view_def)

lemma commit_completion_core:
  assumes inv: "db_inv db" and j: "lookup j_id (r_job_id c) (jobs db) = Some j"
    and a: "lookup attempt_key (r_job_id c, r_attempt_no c) (attempts db) = Some a" "at_digest a = None"
    and plan: "completion_plan c pol now = Inr (st, ast, av)"
    and p: "affected (completed_row c (j_state_version j)) (jobs db) = 1"
    and g: "\<And>x. j_id (g x) = j_id x" "\<And>x. view (g x) = (view x)\<lparr>v_state := st, v_version := j_state_version j + 1, v_ready := 0\<rparr>"
    and rel: "releaseSlots (j_tenant j) (j_queue j) (j_slot_cost j) now
      (db\<lparr>jobs := update_where (completed_row c (j_state_version j)) g (jobs db)\<rparr>) = Inr db2"
    and out: "(if st \<noteq> StateRetrying then bindE (insertCanonicalCompletion (r_job_id c) st (j_state_version j + 1) k od fl now db2) (\<lambda>db3.
      if st = StateDeadLetter then insertDeadLetter (r_job_id c) fl now db3 else Inr db3) else Inr db2) = Inr db4"
    and ev: "appendEvent (r_job_id c) ty st n now pl (close_attempt c ast st (j_state_version j + 1) now db4) = Inr db6"
  shows "moves f db db6"
proof -
  have k: "keys_ok db" using inv by (simp add: db_inv_def)
  obtain r where r: "lookup j_id (r_job_id c) (jobs db) = Some r" "completed_row c (j_state_version j) r"
    and a1: "abs (db\<lparr>jobs := update_where (completed_row c (j_state_version j)) g (jobs db)\<rparr>) = put_job (r_job_id c) (view (g r)) (abs db)"
    and k1: "keys_ok (db\<lparr>jobs := update_where (completed_row c (j_state_version j)) g (jobs db)\<rparr>)"
    by (rule update_job_view[OF k p, of "r_job_id c" g]) (simp add: completed_row_def, simp add: g(1), rule that)
  have rj: "r = j" using r(1) j by simp
  have act: "active_state (j_state j)" using r(2) rj by (simp add: completed_row_def)
  note pl = completion_plan_cases[OF plan]
  note s = releaseSlots_view[OF rel k1]
  note o = outcome_view_of[OF out, of "view (g j)"]
  have k4: "keys_ok db4" using o s pl g(2) by simp
  have at4: "attempts db4 = attempts db" using o s pl g(2) by simp
  note cl = close_attempt_view[OF k4, of c a ast st "j_state_version j + 1" now, unfolded at4, OF a conjunct2[OF pl]]
  let ?A = "(y_attempts (abs db))((r_job_id c, r_attempt_no c) \<mapsto> (at_generation a, False))"
  have y: "y_attempts (abs db4) = y_attempts (abs db)" using at4 by (simp add: abs_sel)
  show ?thesis
  proof (rule settleI[OF inv, where i = "r_job_id c" and v = "view j" and v' = "view (g j)" and A' = ?A and s = st])
    show "attempts_follow (r_job_id c) (view (g j)) (y_attempts (abs db)) ?A"
      by (rule attempts_follow_close[where g = "at_generation a" and b = "open_attempt (at_state a)"])
        (use pl terminal_inactive in \<open>auto simp: g(2) abs_sel a attempt_view_def active_state_def Terminal_def\<close>)
    show "\<not> Terminal (v_state (view j)) \<and> Terminal st \<or> active_state (v_state (view j)) \<and> st = StateRetrying"
      using pl act terminal_inactive by auto
    show "abs db6 = put_outcome (r_job_id c) (view (g j)) (put_job (r_job_id c) (view (g j))
        (add_slots (v_tenant (view j)) (v_queue (view j)) (- weight (view j)) ((abs db)\<lparr>y_attempts := ?A\<rparr>)))"
      using appendEvent_view[OF ev] cl y o s a1 pl rj act g(2)
      by (simp add: put_outcome_def put_job_def add_slots_def weight_view)
  qed (use appendEvent_view[OF ev] appendEvent_Inr[OF ev] cl o s k1 pl abs_job[OF j] g(2) in auto)
qed

lemma commit_completion_moves:
  assumes inv: "db_inv db" and j: "lookup j_id (r_job_id c) (jobs db) = Some j"
    and a: "lookup attempt_key (r_job_id c, r_attempt_no c) (attempts db) = Some a" "at_digest a = None"
    and run: "commit_completion c j now db = Inr (r, db')"
  shows "moves f db db'"
proof -
  let ?v = "j_state_version j"
  obtain st ast av where plan: "completion_plan c (j_retry j) now = Inr (st, ast, av)"
    using run by (auto simp: commit_completion_def bindE_Inr_iff)
  define g where "g = (\<lambda>r :: job_row. r\<lparr>j_state := st, j_state_version := ?v + 1, j_available_at := timeToDB av, j_ready_seq := 0,
    j_updated_at := timeToDB now, j_terminal_at := nullableTime now (st \<noteq> StateRetrying), j_failure := completion_failure c\<rparr>)"
  have g: "\<And>x. j_id (g x) = j_id x" "\<And>x. view (g x) = (view x)\<lparr>v_state := st, v_version := ?v + 1, v_ready := 0\<rparr>"
    by (auto simp: g_def intro: jview.equality)
  obtain db2 db4 ty pl db6 where p: "affected (completed_row c ?v) (jobs db) = 1"
    and rel: "releaseSlots (j_tenant j) (j_queue j) (j_slot_cost j) now (db\<lparr>jobs := update_where (completed_row c ?v) g (jobs db)\<rparr>) = Inr db2"
    and out: "(if st \<noteq> StateRetrying then bindE (insertCanonicalCompletion (r_job_id c) st (?v + 1) (r_attempt_no c) (c_output_digest c) (completion_failure c) now db2) (\<lambda>db3.
      if st = StateDeadLetter then insertDeadLetter (r_job_id c) (completion_failure c) now db3 else Inr db3) else Inr db2) = Inr db4"
    and ev: "appendEvent (r_job_id c) ty st (?v + 1) now pl (close_attempt c ast st (?v + 1) now db4) = Inr db6"
    and rest: "(if st = StateSucceeded then activateChildren (r_job_id c) now db6
       else if st \<noteq> StateRetrying then failDescendants (r_job_id c) now db6 else Inr db6) = Inr db'"
    using run unfolding commit_completion_def plan g_def by (auto simp: bindE_Inr_iff Let_def split: if_split_asm)
  have m: "moves f db db6" by (rule commit_completion_core[OF inv j a plan p g rel out ev])
  have i6: "db_inv db6" by (rule moves_inv[OF m inv])
  have "moves f db6 db'"
    using rest activateChildren_moves[OF _ i6] failDescendants_moves[OF _ i6] by (auto split: if_split_asm)
  then show ?thesis by (rule moves_trans[OF m])
qed

lemma applyCompletionTx_moves:
  assumes inv: "db_inv db" and run: "applyCompletionTx c now db = Inr (r, db')"
  shows "moves f db db'"
proof -
  obtain a j where rec: "readCompletionRecord db (r_job_id c) (r_attempt_no c) = Some (a, j)"
    using run by (auto simp: applyCompletionTx_def split: option.splits)
  then have a: "lookup attempt_key (r_job_id c, r_attempt_no c) (attempts db) = Some a" and j: "lookup j_id (r_job_id c) (jobs db) = Some j"
    by (auto simp: readCompletionRecord_def split: option.splits)
  show ?thesis
  proof (cases "at_digest a")
    case None
    then have "commit_completion c j now db = Inr (r, db')"
      using run rec by (auto simp: applyCompletionTx_def split: if_split_asm)
    from commit_completion_moves[OF inv j a None this] show ?thesis .
  next
    case (Some d)
    then have "db' = db" using run rec by (auto simp: applyCompletionTx_def split: if_split_asm option.splits)
    then show ?thesis by simp
  qed
qed

lemma complete_batch_moves:
  "complete_batch cs now db = Inr (rs, db') \<Longrightarrow> db_inv db \<Longrightarrow> moves f db db'"
proof (induction cs arbitrary: db rs)
  case (Cons c cs)
  show ?case
  proof (cases "applyCompletionTx c now db")
    case (Inl e)
    then show ?thesis using Cons by (auto simp: bindE_Inr_iff split: if_splits)
  next
    case (Inr x)
    then obtain r db1 where x: "applyCompletionTx c now db = Inr (r, db1)" by (cases x) auto
    have m: "moves f db db1" by (rule applyCompletionTx_moves[OF Cons.prems(2) x])
    show ?thesis
      using moves_trans[OF m] Cons.IH[OF _ moves_inv[OF m Cons.prems(2)]] Cons.prems(1) x by (auto simp: bindE_Inr_iff)
  qed
qed simp

end
