(* ===== verification/Refine_Operations.thy ===== *)
theory Refine_Operations
  imports Store_Triggers Refine_Leases
begin

text \<open>
  Operator control, redrives, retries and the submissions of the operations interface refine the yard; the audit
  trail, the stored responses, the triggers and the worker registry are invisible to it.
\<close>

section \<open>Invisible tables\<close>

lemma refines_unseen: "abs db' = abs db \<Longrightarrow> keys_ok db' = keys_ok db \<Longrightarrow> refines f db db'"
  by (auto intro: refines_same)

lemma insertControlAction_view:
  "insertControlAction a db = Inr db' \<Longrightarrow> abs db' = abs db \<and> keys_ok db' = keys_ok db \<and> job_dependencies db' = job_dependencies db"
  by (auto simp: insertControlAction_def insertControlActionWithEvent_def Let_def split: option.splits if_splits)

lemma record_idempotency_view:
  "record_idempotency m r db = Inr db' \<Longrightarrow> abs db' = abs db \<and> keys_ok db' = keys_ok db"
  by (auto simp: record_idempotency_def split: option.splits if_splits)

lemma insert_dag_run_view:
  "insert_dag_run d t k g now db = Inr db' \<Longrightarrow> abs db' = abs db \<and> keys_ok db' = keys_ok db"
  by (auto simp: insert_dag_run_def split: if_splits)

lemma insert_dag_jobs_view:
  assumes "foldE (insert_dag_job d) ns db = Inr db'"
  shows "abs db' = abs db \<and> keys_ok db' = keys_ok db"
  by (rule foldE_invariant[OF assms]) (auto simp: insert_dag_job_def split: if_splits prod.splits)

lemma link_redrive_view:
  assumes "link_redrive i c db = Inr db'"
  shows "abs db' = abs db \<and> keys_ok db' = keys_ok db"
proof -
  let ?p = "\<lambda>d. dl_job d = i \<and> dl_redriven d = None" let ?f = "\<lambda>d. d\<lparr>dl_redriven := Some c\<rparr>"
  have db': "db' = db\<lparr>dead_letters := update_where ?p ?f (dead_letters db)\<rparr>"
    using assms by (auto simp: link_redrive_def Let_def split: if_splits)
  have "map dl_job (update_where ?p ?f (dead_letters db)) = map dl_job (dead_letters db)"
    by (simp add: update_where_def)
  moreover from arg_cong[OF this, of set] have "dl_job ` set (update_where ?p ?f (dead_letters db)) = dl_job ` set (dead_letters db)"
    by simp
  ultimately show ?thesis
    unfolding db' by (auto simp: abs_def ready_counter_def keys_ok_def)
qed

lemma attribute_admission_view:
  "attribute_admission a i db = Inr db' \<Longrightarrow> abs db' = abs db \<and> keys_ok db' = keys_ok db"
  by (auto simp: attribute_admission_def Let_def split: if_splits)

section \<open>Operator control\<close>

lemma fence_attempts_view:
  assumes "fence_attempts c n now db = Inr db'" and "keys_ok db"
  shows "keys_ok db' \<and> jobs db' = jobs db \<and> job_dependencies db' = job_dependencies db \<and>
    (\<exists>g b. y_attempts (abs db) (jc_job c, n) = Some (g, b) \<and>
       abs db' = (abs db)\<lparr>y_attempts := (y_attempts (abs db))((jc_job c, n) \<mapsto> (g, False))\<rparr>)"
proof -
  let ?p = "\<lambda>a. attempt_key a = (jc_job c, n) \<and> open_attempt (at_state a)"
  let ?f = "\<lambda>a. a\<lparr>at_state := AttemptExpired, at_completed_at := Some (timeToDB now),
             at_failure := (case at_failure a of None \<Rightarrow> Some (failureJSON (jc_receipt_action c) (jc_reason c)) | Some f \<Rightarrow> Some f)\<rparr>"
  have aff: "affected ?p (attempts db) = 1" and db': "db' = db\<lparr>attempts := update_where ?p ?f (attempts db)\<rparr>"
    using assms(1) by (auto simp: fence_attempts_def Let_def split: if_splits)
  have d: "distinct (map attempt_key (attempts db))" using assms(2) by (simp add: keys_ok_def)
  obtain a where a: "lookup attempt_key (jc_job c, n) (attempts db) = Some a" "?p a"
    by (rule affected_one[OF d aff, of "(jc_job c, n)"]) (simp, rule that)
  show ?thesis
    using update_attempt_view[OF assms(2) a(1), of ?p ?f] a
    unfolding db' by (auto simp: attempt_view_def open_attempt_def abs_sel)
qed

text \<open>The fencing of an active job's attempt and the return of its slots, for active and inactive jobs alike.\<close>

lemma fence_view:
  assumes inv: "db_inv db" and j: "lookup j_id (jc_job c) (jobs db) = Some j"
    and run: "(if active_state (j_state j) then bindE (fence_attempts c (j_attempt_no j) now db)
                 (releaseSlots (j_tenant j) (j_queue j) (j_slot_cost j) now) else Inr db) = Inr db1"
  shows "keys_ok db1 \<and> jobs db1 = jobs db \<and> job_dependencies db1 = job_dependencies db \<and>
    (\<exists>A'. abs db1 = add_slots (v_tenant (view j)) (v_queue (view j)) (- weight (view j)) ((abs db)\<lparr>y_attempts := A'\<rparr>) \<and>
      (\<forall>v'. \<not> active_state (v_state v') \<longrightarrow> attempts_follow (jc_job c) v' (y_attempts (abs db)) A'))"
proof -
  have k: "keys_ok db" using inv by (simp add: db_inv_def)
  show ?thesis
  proof (cases "active_state (j_state j)")
    case True
    then obtain db0 where 0: "fence_attempts c (j_attempt_no j) now db = Inr db0"
      and 1: "releaseSlots (j_tenant j) (j_queue j) (j_slot_cost j) now db0 = Inr db1"
      using run by (auto simp: bindE_Inr_iff)
    note f = fence_attempts_view[OF 0 k]
    note s = releaseSlots_view[OF 1 conjunct1[OF f]]
    obtain g b where a: "y_attempts (abs db) (jc_job c, j_attempt_no j) = Some (g, b)"
        "abs db0 = (abs db)\<lparr>y_attempts := (y_attempts (abs db))((jc_job c, j_attempt_no j) \<mapsto> (g, False))\<rparr>"
      using f by blast
    show ?thesis using s f a True attempts_follow_close[of _ "y_attempts (abs db)" "jc_job c" "j_attempt_no j" g b] by (auto simp: weight_view)
  next
    case False
    then have "db1 = db" using run by simp
    then show ?thesis
      using False k attempts_follow_same by (auto simp: weight_view intro!: exI[of _ "y_attempts (abs db)"])
  qed
qed

lemma control_job_core:
  assumes inv: "db_inv db" and j: "lookup j_id (jc_job c) (jobs db) = Some j" "\<not> Terminal (j_state j)"
    and cmd: "jc_release c \<longrightarrow> jc_next_state c = StatePending" "jc_release c \<longrightarrow> f"
    and fence: "(if active_state (j_state j) then bindE (fence_attempts c (j_attempt_no j) now db)
                 (releaseSlots (j_tenant j) (j_queue j) (j_slot_cost j) now) else Inr db) = Inr db1"
    and seq: "(if jc_release c then nextReadySeq db1 else Inr (0, db1)) = Inr (q, db2)"
    and g: "\<And>x. j_id (g x) = j_id x" "\<And>x. view (g x) = (view x)\<lparr>v_state := jc_next_state c, v_version := j_state_version j + 1, v_ready := q\<rparr>"
    and p: "p = (\<lambda>r. j_id r = jc_job c \<and> j_state_version r = j_state_version j \<and> \<not> Terminal (j_state r))" "affected p (jobs db2) = 1"
    and out: "(if jc_release c then Inr (db2\<lparr>jobs := update_where p g (jobs db2)\<rparr>)
        else bindE (insertCanonicalCompletion (jc_job c) (jc_next_state c) (j_state_version j + 1) k '''' fl now (db2\<lparr>jobs := update_where p g (jobs db2)\<rparr>)) (\<lambda>db4.
          if jc_next_state c = StateDeadLetter then insertDeadLetter (jc_job c) fl now db4 else Inr db4)) = Inr db5"
    and ev: "appendEvent (jc_job c) ty st n now pl db5 = Inr db6"
  shows "moves f db db6"
proof -
  let ?i = "jc_job c" let ?db3 = "db2\<lparr>jobs := update_where p g (jobs db2)\<rparr>"
  note fe = fence_view[OF inv j(1) fence]
  obtain A' where A': "abs db1 = add_slots (v_tenant (view j)) (v_queue (view j)) (- weight (view j)) ((abs db)\<lparr>y_attempts := A'\<rparr>)"
      "\<And>v'. \<not> active_state (v_state v') \<Longrightarrow> attempts_follow ?i v' (y_attempts (abs db)) A'" using fe by blast
  have y1: "y_ready (abs db1) = y_ready (abs db)" using A' by (simp add: add_slots_def)
  have q: "keys_ok db2 \<and> jobs db2 = jobs db1 \<and> job_dependencies db2 = job_dependencies db1 \<and>
      (if jc_release c then q = y_ready (abs db) + 1 \<and> abs db2 = (abs db1)\<lparr>y_ready := q\<rparr> else q = 0 \<and> db2 = db1)"
    using seq fe nextReadySeq_view[of db1 q db2] y1 by (auto simp: abs_sel split: if_splits)
  obtain r where r: "lookup j_id ?i (jobs db2) = Some r"
    and a: "abs ?db3 = put_job ?i (view (g r)) (abs db2)" and k3: "keys_ok ?db3"
    by (rule update_job_view[OF conjunct1[OF q] p(2), of ?i g]) (simp add: p(1), simp add: g(1), rule that)
  have rj: "r = j" using r q fe j by simp
  note same = appendEvent_view[OF ev] appendEvent_Inr[OF ev]
  show ?thesis
  proof (cases "jc_release c")
    case True
    show ?thesis
    proof (rule requeueI[OF inv, where i = ?i and v = "view j" and A' = A'])
      show "attempts_follow ?i ((view j)\<lparr>v_state := StatePending, v_version := v_version (view j) + 1, v_ready := y_ready (abs db) + 1\<rparr>)
          (y_attempts (abs db)) A'" by (rule A'(2)) (simp add: active_state_def)
    qed (use True same out a k3 q fe A'(1) rj cmd j abs_job[OF j(1)] in \<open>auto simp: g(2)\<close>)
  next
    case False
    then have q0: "q = 0" "db2 = db1" using q by auto
    have o: "bindE (insertCanonicalCompletion ?i (jc_next_state c) (j_state_version j + 1) k '''' fl now ?db3) (\<lambda>db4.
          if jc_next_state c = StateDeadLetter then insertDeadLetter ?i fl now db4 else Inr db4) = Inr db5"
      using out False by simp
    then have t: "Terminal (jc_next_state c)"
      by (auto simp: bindE_Inr_iff dest!: insertCanonicalCompletion_view)
    then have nr: "jc_next_state c \<noteq> StateRetrying" by (auto simp: Terminal_def)
    have ov: "abs db5 = put_outcome ?i (view (g j)) (abs ?db3) \<and> (keys_ok ?db3 \<longrightarrow> keys_ok db5) \<and> job_dependencies db5 = job_dependencies ?db3"
      using outcome_view_of[of "jc_next_state c" ?i "j_state_version j + 1" k "''''" fl now ?db3 db5 "view (g j)"] o t nr
      by (simp add: g(2))
    show ?thesis
    proof (rule settleI[OF inv, where i = ?i and v = "view j" and v' = "view (g j)" and A' = A' and s = "jc_next_state c"])
      show "attempts_follow ?i (view (g j)) (y_attempts (abs db)) A'"
        by (rule A'(2)) (use t terminal_inactive in \<open>simp add: g(2)\<close>)
      show "\<not> Terminal (v_state (view j)) \<and> Terminal (jc_next_state c) \<or> active_state (v_state (view j)) \<and> jc_next_state c = StateRetrying"
        using j(2) t by simp
    qed (use same ov a k3 q0 fe A'(1) rj abs_job[OF j(1)] in \<open>auto simp: g(2)\<close>)
  qed
qed

lemma controlled_row_view:
  "view (controlled_row c n q act now x) = (view x)\<lparr>v_state := jc_next_state c, v_version := n, v_ready := q\<rparr>"
  "j_id (controlled_row c n q act now x) = j_id x"
  by (auto simp: controlled_row_def intro: jview.equality)

lemma control_job_moves:
  assumes inv: "db_inv db" and j: "lookup j_id (jc_job c) (jobs db) = Some j" "\<not> Terminal (j_state j)"
    and cmd: "jc_release c \<longrightarrow> jc_next_state c = StatePending" "jc_release c \<longrightarrow> f"
    and run: "control_job c j now db = Inr db'"
  shows "moves f db db'"
proof -
  let ?n = "j_state_version j + 1"
  define p where "p = (\<lambda>r :: job_row. j_id r = jc_job c \<and> j_state_version r = j_state_version j \<and> \<not> Terminal (j_state r))"
  define F where "F = (if active_state (j_state j) then bindE (fence_attempts c (j_attempt_no j) now db)
                 (releaseSlots (j_tenant j) (j_queue j) (j_slot_cost j) now) else Inr db)"
  define O' where "O' q db2 = (if jc_release c then Inr (db2\<lparr>jobs := update_where p (controlled_row c ?n q (active_state (j_state j)) now) (jobs db2)\<rparr>)
        else bindE (insertCanonicalCompletion (jc_job c) (jc_next_state c) ?n (j_attempt_no j) '''' (Some (failureJSON (jc_receipt_action c) (jc_reason c))) now
          (db2\<lparr>jobs := update_where p (controlled_row c ?n q (active_state (j_state j)) now) (jobs db2)\<rparr>)) (\<lambda>db4.
          if jc_next_state c = StateDeadLetter then insertDeadLetter (jc_job c) (Some (failureJSON (jc_receipt_action c) (jc_reason c))) now db4 else Inr db4))" for q db2
  obtain db1 q db2 db5 db6 where 1: "F = Inr db1"
    and 2: "(if jc_release c then nextReadySeq db1 else Inr (0, db1)) = Inr (q, db2)"
    and 3: "affected p (jobs db2) = 1"
    and 4: "O' q db2 = Inr db5"
    and 5: "appendEvent (jc_job c) (''operator_'' @ jc_receipt_action c) (jc_next_state c) ?n now (control_event c) db5 = Inr db6"
    and 6: "(if jc_release c then Inr db6 else failDescendants (jc_job c) now db6) = Inr db'"
    using run unfolding control_job_def Let_def F_def[symmetric] p_def[symmetric] O'_def[symmetric]
    by (cases "jc_release c") (auto simp: bindE_Inr_iff split: if_split_asm simp del: One_nat_def)
  have m: "moves f db db6"
    by (rule control_job_core[OF inv j cmd 1[unfolded F_def] 2 controlled_row_view(2,1) p_def 3 4[unfolded O'_def] 5])
  have "moves f db6 db'"
    using 6 failDescendants_moves[OF _ moves_inv[OF m inv]] by (auto split: if_split_asm)
  then show ?thesis by (rule moves_trans[OF m])
qed

lemma ApplyJobControl_refines:
  assumes "ApplyJobControl_tx c now db = Inr (r, db')" and "jc_release c \<longrightarrow> jc_next_state c = StatePending" "jc_release c \<longrightarrow> f"
  shows "refines f db db'"
proof (rule refines_if_inv)
  assume inv: "db_inv db"
  obtain j stored where j: "lookup j_id (jc_job c) (jobs db) = Some j"
    and st: "readControlAction db (j_tenant j) (jc_key c) (jc_audit_action c) (jc_digest c) = Inr stored"
    using assms(1) unfolding ApplyJobControl_tx_def by (auto simp: bindE_Inr_iff split: option.split_asm)
  show "refines f db db'"
  proof (cases stored)
    case None
    then obtain db1 where t: "\<not> Terminal (j_state j)" and 1: "control_job c j now db = Inr db1" and 2: "\<exists>a. insertControlAction a db1 = Inr db'"
      using assms(1) j st by (auto simp: ApplyJobControl_tx_def bindE_Inr_iff Let_def split: if_split_asm)
    show ?thesis
      using refines_trans[OF moves_refines[OF control_job_moves[OF inv j t assms(2,3) 1]]] insertControlAction_view 2 refines_unseen by blast
  next
    case (Some x)
    then show ?thesis using assms(1) j st by (cases x) (auto simp: ApplyJobControl_tx_def)
  qed
qed

section \<open>Clones\<close>

lemma cloneJob_refines:
  assumes "cloneJob s original ent now db = Inr (job, db')" and "0 \<le> s_default_slots s"
  shows "refines f db db'"
proof (rule refines_if_inv)
  assume inv: "db_inv db"
  obtain db1 db2 i e q db3 db4 ty st n pl where
    1: "ensureAdmission s (j_tenant original) 1 db = Inr db1" and 2: "ensureQueue (j_tenant original) (j_queue original) now db1 = Inr db2"
    and 3: "nextReadySeq db2 = Inr (q, db3)" and 4: "insertJob (newJob i (clone_spec original) now q now) db3 = Inr db4"
    and 5: "appendEvent i ty st n now pl db4 = Inr db'"
    using assms(1) by (fastforce simp: cloneJob_def bindE_Inr_iff Let_def newJob_def)
  note r1 = ensureAdmission_refines[OF 1 assms(2), where f = f] and r2 = ensureQueue_refines[OF 2, where f = f]
  have r3: "refines f db db3"
    using refines_trans[OF conjunct1[OF r1] refines_trans[OF conjunct1[OF r2] nextReadySeq_refines[OF 3]]] .
  have i2: "db_inv db2" using refines_inv[OF conjunct1[OF r2] refines_inv[OF conjunct1[OF r1] inv]] .
  then have "keys_ok db2" by (simp add: db_inv_def)
  note q = nextReadySeq_view[OF 3 this]
  have "refines f db3 db4"
  proof (rule insert_job_step[OF refines_inv[OF r3 inv] 4])
    show "0 \<le> q" "q \<le> y_ready (abs db3)" using q ready_nonneg[OF i2] by (simp_all add: abs_sel)
  qed (use q conjunct2[OF r2] in \<open>auto simp: clone_spec_def\<close>)
  moreover have "refines f db4 db'" using appendEvent_view[OF 5] by (intro refines_unseen) auto
  ultimately show "refines f db db'" using refines_trans[OF r3 refines_trans[of f db3 db4 db']] by simp
qed

text \<open>An operation that clones a job first looks for a stored response, then clones and records.\<close>

lemmas response_unseen = attribute_admission_view link_redrive_view appendEvent_view insertControlAction_view

lemma clone_refines:
  assumes "cloneJob s original ent now db = Inr (created, db1)" and "0 \<le> s_default_slots s" and "abs db' = abs db1" and "keys_ok db' = keys_ok db1"
  shows "refines f db db'"
  using refines_trans[OF cloneJob_refines[OF assms(1,2)] refines_unseen[OF assms(3,4)]] .

lemma RedriveDeadLetter_refines:
  assumes run: "RedriveDeadLetter_tx s actor i key digest ent now db = Inr (r, db')" and slots: "0 \<le> s_default_slots s"
  shows "refines f db db'"
proof -
  obtain row dl stored where rows: "lookup j_id i (jobs db) = Some row" "lookup dl_job i (dead_letters db) = Some dl"
    and st: "readControlAction db (j_tenant (scanJob row)) key ''dead_letter.redrive'' digest = Inr stored"
    using run unfolding RedriveDeadLetter_tx_def Let_def by (auto simp: bindE_Inr_iff split: option.split_asm)
  show ?thesis
  proof (cases stored)
    case None
    then obtain created db1 where 1: "cloneJob s (scanJob row) ent now db = Inr (created, db1)"
      and 2: "abs db' = abs db1" "keys_ok db' = keys_ok db1"
      using run rows st unfolding RedriveDeadLetter_tx_def Let_def appendActorEvent_def
      by (auto simp: bindE_Inr_iff split: if_split_asm dest!: response_unseen)
    show ?thesis by (rule clone_refines[OF 1 slots 2])
  next
    case (Some x)
    then show ?thesis using run rows st by (cases x) (auto simp: RedriveDeadLetter_tx_def)
  qed
qed

lemma RedriveDeadLetterControl_refines:
  assumes run: "RedriveDeadLetterControl_tx s c ent now db = Inr (r, db')" and slots: "0 \<le> s_default_slots s"
  shows "refines f db db'"
proof -
  obtain row dl stored where rows: "lookup j_id (rc_job c) (jobs db) = Some row" "lookup dl_job (rc_job c) (dead_letters db) = Some dl"
    and st: "readControlAction db (j_tenant (scanJob row)) (rc_key c) ''dead_letter.redrive'' (rc_digest c) = Inr stored"
    using run unfolding RedriveDeadLetterControl_tx_def Let_def by (auto simp: bindE_Inr_iff split: option.split_asm)
  show ?thesis
  proof (cases stored)
    case None
    then obtain created db1 where 1: "cloneJob s (scanJob row) ent now db = Inr (created, db1)"
      and 2: "abs db' = abs db1" "keys_ok db' = keys_ok db1"
      using run rows st unfolding RedriveDeadLetterControl_tx_def Let_def
      by (auto simp: bindE_Inr_iff split: if_split_asm dest!: response_unseen)
    show ?thesis by (rule clone_refines[OF 1 slots 2])
  next
    case (Some x)
    then show ?thesis using run rows st by (cases x) (auto simp: RedriveDeadLetterControl_tx_def)
  qed
qed

lemma RetryJobControl_refines:
  assumes run: "RetryJobControl_tx s c ent now db = Inr (r, db')" and slots: "0 \<le> s_default_slots s"
  shows "refines f db db'"
proof -
  obtain row stored where rows: "lookup j_id (rc_job c) (jobs db) = Some row"
    and st: "readControlAction db (j_tenant (scanJob row)) (rc_key c) ''job.retry'' (rc_digest c) = Inr stored"
    using run unfolding RetryJobControl_tx_def Let_def by (auto simp: bindE_Inr_iff split: option.split_asm)
  show ?thesis
  proof (cases stored)
    case None
    then obtain created db1 where 1: "cloneJob s (scanJob row) ent now db = Inr (created, db1)"
      and 2: "abs db' = abs db1" "keys_ok db' = keys_ok db1"
      using run rows st unfolding RetryJobControl_tx_def Let_def
      by (auto simp: bindE_Inr_iff split: if_split_asm dest!: response_unseen)
    show ?thesis by (rule clone_refines[OF 1 slots 2])
  next
    case (Some x)
    then show ?thesis using run rows st by (cases x) (auto simp: RetryJobControl_tx_def)
  qed
qed

section \<open>Submissions\<close>

lemma refines_then_unseen: "refines f db db1 \<Longrightarrow> abs db' = abs db1 \<Longrightarrow> keys_ok db' = keys_ok db1 \<Longrightarrow> refines f db db'"
  using refines_trans[of f db db1 db'] refines_unseen[of db' db1 f] by simp

lemma SubmitJob_refines:
  assumes run: "SubmitJob_tx s sub ent now db = Inr (r, db')" and slots: "0 \<le> s_default_slots s"
  shows "refines f db db'"
proof -
  obtain found where fd: "readIdempotency db (s_tenant (Normalize (sub_job sub))) (sub_key sub) ''job'' (sub_digest sub) = Inr found"
      "validateIdempotency (sub_key sub) (sub_digest sub) = Inr ()"
    using run unfolding SubmitJob_tx_def Let_def by (auto simp: bindE_Inr_iff)
  show ?thesis
  proof (cases found)
    case None
    then obtain job db1 where 1: "admit_job s (Normalize (sub_job sub)) (sub_actor sub) ent now db = Inr (job, db1)"
      and 2: "abs db' = abs db1" "keys_ok db' = keys_ok db1"
      using run fd unfolding SubmitJob_tx_def Let_def by (auto simp: bindE_Inr_iff dest!: record_idempotency_view)
    show ?thesis by (rule refines_then_unseen[OF admit_job_refines[OF 1 slots] 2])
  next
    case (Some x)
    then show ?thesis using run fd by (cases x) (auto simp: SubmitJob_tx_def)
  qed
qed

lemma SubmitJobOperation_refines:
  assumes run: "SubmitJobOperation_tx s c ent now db = Inr (r, db')" and slots: "0 \<le> s_default_slots s"
  shows "refines f db db'"
proof -
  obtain found where fd: "readControlAction db (s_tenant (Normalize (sj_job c))) (sj_key c) ''job.submit'' (sj_digest c) = Inr found"
      "validateIdempotency (sj_key c) (sj_digest c) = Inr ()"
    using run unfolding SubmitJobOperation_tx_def Let_def by (auto simp: bindE_Inr_iff)
  show ?thesis
  proof (cases found)
    case None
    then obtain job db1 where 1: "admit_job s (Normalize (sj_job c)) (sj_actor c) ent now db = Inr (job, db1)"
      and 2: "abs db' = abs db1" "keys_ok db' = keys_ok db1"
      using run fd unfolding SubmitJobOperation_tx_def Let_def by (auto simp: bindE_Inr_iff dest!: insertControlAction_view)
    show ?thesis by (rule refines_then_unseen[OF admit_job_refines[OF 1 slots] 2])
  next
    case (Some x)
    then show ?thesis using run fd by (cases x) (auto simp: SubmitJobOperation_tx_def)
  qed
qed

lemma SubmitWorkflow_refines:
  assumes run: "SubmitWorkflow_tx s sub ent now db = Inr (r, db')" and slots: "0 \<le> s_default_slots s"
  shows "refines f db db'"
proof -
  define t where "t = (if ws_tenant sub = '''' then ''default'' else ws_tenant sub)"
  have t: "t \<noteq> ''''" by (simp add: t_def)
  obtain found where fd: "readIdempotency db t (ws_key sub) ''workflow'' (ws_digest sub) = Inr found"
      "validateIdempotency (ws_key sub) (ws_digest sub) = Inr ()"
    using run unfolding SubmitWorkflow_tx_def Let_def t_def[symmetric] by (auto simp: bindE_Inr_iff)
  show ?thesis
  proof (cases found)
    case None
    then obtain js db1 where 1: "admit_workflow s sub t ent now db = Inr (js, db1)"
      and 2: "abs db' = abs db1" "keys_ok db' = keys_ok db1"
      using run fd unfolding SubmitWorkflow_tx_def Let_def t_def[symmetric] by (auto simp: bindE_Inr_iff dest!: record_idempotency_view)
    show ?thesis by (rule refines_then_unseen[OF admit_workflow_refines[OF 1 slots t] 2])
  next
    case (Some x)
    then show ?thesis using run fd unfolding SubmitWorkflow_tx_def Let_def t_def[symmetric] by (cases x) auto
  qed
qed

lemma SubmitDAGOperation_refines:
  assumes run: "SubmitDAGOperation_tx s d c ent now db = Inr (r, db')" and slots: "0 \<le> s_default_slots s"
  shows "refines f db db'"
proof -
  define t where "t = (if ws_tenant c = '''' then ''default'' else ws_tenant c)"
  have t: "t \<noteq> ''''" by (simp add: t_def)
  obtain found where fd: "readControlAction db t (ws_key c) ''dag.submit'' (ws_digest c) = Inr found"
      "validateIdempotency (ws_key c) (ws_digest c) = Inr ()"
    using run unfolding SubmitDAGOperation_tx_def Let_def t_def[symmetric] by (auto simp: bindE_Inr_iff)
  show ?thesis
  proof (cases found)
    case None
    then obtain js db1 where 1: "admit_workflow s c t ent now db = Inr (js, db1)"
      and 2: "abs db' = abs db1" "keys_ok db' = keys_ok db1"
      using run fd unfolding SubmitDAGOperation_tx_def Let_def t_def[symmetric]
      by (auto simp: bindE_Inr_iff dest!: insert_dag_run_view insert_dag_jobs_view insertControlAction_view)
    show ?thesis by (rule refines_then_unseen[OF admit_workflow_refines[OF 1 slots t] 2])
  next
    case (Some x)
    then show ?thesis using run fd unfolding SubmitDAGOperation_tx_def Let_def t_def[symmetric] by (cases x) auto
  qed
qed

lemma SaveDAG_refines: "SaveDAG_tx d t k g ns now db = Inr (r, db') \<Longrightarrow> refines f db db'"
  by (rule refines_unseen)
    (auto simp: SaveDAG_tx_def bindE_Inr_iff split: option.splits if_splits dest!: insert_dag_run_view insert_dag_jobs_view)

section \<open>Triggers and workers\<close>

lemma CreateCronTrigger_refines:
  assumes run: "CreateCronTrigger_tx parse s sub ent now db = Inr (r, db')"
  shows "refines f db db'"
proof -
  define v where "v = (if t_tenant (cs_trigger sub) = '''' then (cs_trigger sub)\<lparr>t_tenant := ''default''\<rparr> else cs_trigger sub)"
  define w where "w = v\<lparr>t_job := Normalize ((t_job v)\<lparr>s_tenant := t_tenant v\<rparr>)\<rparr>"
  obtain found schedule where fd: "readIdempotency db (t_tenant w) (cs_key sub) ''cron'' (cs_digest sub) = Inr found"
      "JobSpec_Validate (t_job w) (s_max_slot_cost s) (s_allow_shell s) = Inr ()" "ParseCron parse (t_expression w) = Inr schedule"
      "validateIdempotency (cs_key sub) (cs_digest sub) = Inr ()"
    using run unfolding CreateCronTrigger_tx_def Let_def v_def[symmetric] w_def[symmetric] by (auto simp: bindE_Inr_iff)
  note run' = run[unfolded CreateCronTrigger_tx_def Let_def v_def[symmetric] w_def[symmetric]]
  show ?thesis
  proof (cases found)
    case None
    then have "abs db' = abs db \<and> keys_ok db' = keys_ok db"
      using run' fd by (auto simp: bindE_Inr_iff split: option.split_asm dest!: record_idempotency_view)
    then show ?thesis by (intro refines_unseen) simp_all
  next
    case (Some x)
    then show ?thesis using run' fd by (cases x) auto
  qed
qed

lemma record_occurrence_view: "record_occurrence v i t now db = Inr db' \<Longrightarrow> abs db' = abs db \<and> keys_ok db' = keys_ok db"
  by (auto simp: record_occurrence_def Let_def split: option.splits if_splits)

lemma record_delivery_view: "record_delivery d i now db = Inr db' \<Longrightarrow> abs db' = abs db \<and> keys_ok db' = keys_ok db"
  by (auto simp: record_delivery_def Let_def split: option.splits if_splits)

lemma RegisterWorker_view: "RegisterWorker_tx w c now db = Inr (u, db') \<Longrightarrow> abs db' = abs db \<and> keys_ok db' = keys_ok db"
  by (auto simp: RegisterWorker_tx_def split: option.splits if_splits)

end
