(* ===== verification/Store_Contract.thy ===== *)
theory Store_Contract
  imports Refine_Operations
begin

text \<open>
  The contract of a writing operation of the store, as a locale: it keeps the configuration, never turns the
  logical clock back, and refines the yard. An \<open>atomic_op\<close> moreover leaves the database alone when it fails. The
  consequences are proved once; every operation of \<^verbatim>\<open>internal/store/sqlite\<close> that writes is an interpretation.
\<close>

section \<open>Definitions\<close>

definition store_ok :: "store \<Rightarrow> bool" where
  "store_ok s \<longleftrightarrow> db_inv (s_db s) \<and> 0 \<le> s_default_slots s"

locale store_op =
  fixes run :: "store \<Rightarrow> 'a result \<times> store" and forced :: bool
  assumes keeps_slots: "s_default_slots (snd (run s)) = s_default_slots s"
    and clock: "s_last_time s \<le> s_last_time (snd (run s))"
    and refine: "0 \<le> s_default_slots s \<Longrightarrow> refines forced (s_db s) (s_db (snd (run s)))"
begin

lemma keeps_ok: "store_ok s \<Longrightarrow> store_ok (snd (run s))"
  using refines_inv[OF refine] keeps_slots by (simp add: store_ok_def)

lemma run_evolves: "store_ok s \<Longrightarrow> evolves (abs (s_db s)) (abs (s_db (snd (run s))))"
  using refines_evolves[OF refine] by (simp add: store_ok_def)

lemma job_kept:
  assumes "store_ok s" and "r \<in> set (jobs (s_db s))"
  shows "\<exists>r' \<in> set (jobs (s_db (snd (run s)))). j_id r' = j_id r \<and> same_static (view r) (view r') \<and>
    (view r' = view r \<or> j_state_version r < j_state_version r' \<and> \<not> Terminal (j_state r))"
proof -
  have "y_jobs (abs (s_db s)) (j_id r) = Some (view r)"
    using assms by (intro abs_job lookup_keys) (auto simp: store_ok_def db_inv_def)
  from evolvesD[OF run_evolves[OF assms(1)] this] show ?thesis
    by (fastforce simp: abs_sel dest!: lookup_Some_in)
qed

lemma outcome_kept:
  assumes "store_ok s" and "c \<in> set (job_completions (s_db s))"
  shows "\<exists>c' \<in> set (job_completions (s_db (snd (run s)))). cp_job c' = cp_job c \<and> outcome_view c' = outcome_view c"
proof -
  have "lookup cp_job (cp_job c) (job_completions (s_db s)) = Some c"
    using assms by (intro lookup_distinct) (auto simp: store_ok_def db_inv_def keys_ok_def)
  then have "y_ledger (abs (s_db s)) (cp_job c) = Some (outcome_view c)" by (simp add: abs_sel)
  from evolves_ledger[OF run_evolves[OF assms(1)] _ _ this] show ?thesis
    using assms(1) keeps_ok[OF assms(1)] by (fastforce simp: store_ok_def db_inv_def abs_sel dest!: lookup_Some_in)
qed

end

locale atomic_op = store_op +
  assumes rollback: "fst (run s) = Inl e \<Longrightarrow> s_db (snd (run s)) = s_db s"
begin

lemma change_succeeded: "s_db (snd (run s)) \<noteq> s_db s \<Longrightarrow> \<exists>x. fst (run s) = Inr x"
  using rollback[of s] by (cases "fst (run s)") auto

end

section \<open>Transactions\<close>

lemma writeTime_facts:
  "s_db (snd (writeTime s r e)) = s_db s" "s_default_slots (snd (writeTime s r e)) = s_default_slots s"
  "s_last_time (snd (writeTime s r e)) = fst (writeTime s r e)" "s_last_time s \<le> fst (writeTime s r e)"
  by (auto simp: writeTime_def Let_def)

lemma transact_cases:
  obtains (failed) e where "body (fst (writeTime s r el)) (s_db s) = Inl e" and "transact body r el s = (Inl e, snd (writeTime s r el))"
  | (committed) x db' where "body (fst (writeTime s r el)) (s_db s) = Inr (x, db')"
      and "transact body r el s = (Inr x, (snd (writeTime s r el))\<lparr>s_db := db'\<rparr>)"
  using writeTime_facts(1)[of s r el]
  by (cases "body (fst (writeTime s r el)) (s_db s)") (auto simp: transact_def Let_def split_beta)

lemma transact_op:
  assumes "\<And>s now db x db'. body s now db = Inr (x, db') \<Longrightarrow> 0 \<le> s_default_slots s \<Longrightarrow> refines f db db'"
  shows "atomic_op (\<lambda>s. transact (body s) (r s) (el s) s) f"
proof
  fix s
  show "s_default_slots (snd (transact (body s) (r s) (el s) s)) = s_default_slots s"
    "s_last_time s \<le> s_last_time (snd (transact (body s) (r s) (el s) s))"
    by (cases rule: transact_cases[of "body s" s "r s" "el s"]; simp add: writeTime_facts)+
  show "refines f (s_db s) (s_db (snd (transact (body s) (r s) (el s) s)))" if "0 \<le> s_default_slots s"
    by (cases rule: transact_cases[of "body s" s "r s" "el s"]) (auto simp: writeTime_facts intro: assms[OF _ that])
  show "s_db (snd (transact (body s) (r s) (el s) s)) = s_db s" if "fst (transact (body s) (r s) (el s) s) = Inl e" for e
    using that by (cases rule: transact_cases[of "body s" s "r s" "el s"]) (auto simp: writeTime_facts)
qed

text \<open>Operations that reject a request before the transaction, and those that count their commits.\<close>

lemma wrapped_op:
  assumes "atomic_op run f"
    and "\<And>s. snd (run' s) = s \<or>
      s_db (snd (run' s)) = s_db (snd (run s)) \<and> s_default_slots (snd (run' s)) = s_default_slots (snd (run s)) \<and>
      s_last_time (snd (run' s)) = s_last_time (snd (run s)) \<and> (\<forall>e. fst (run' s) = Inl e \<longrightarrow> fst (run s) = Inl e)"
  shows "atomic_op run' f"
proof
  fix s
  note op = atomic_op.axioms(1)[OF assms(1)]
  show "s_default_slots (snd (run' s)) = s_default_slots s" "s_last_time s \<le> s_last_time (snd (run' s))"
    using assms(2)[of s] store_op.keeps_slots[OF op, of s] store_op.clock[OF op, of s] by auto
  show "refines f (s_db s) (s_db (snd (run' s)))" if "0 \<le> s_default_slots s"
    using assms(2)[of s] store_op.refine[OF op that] by auto
  show "s_db (snd (run' s)) = s_db s" if "fst (run' s) = Inl e" for e
    using assms(2)[of s] atomic_op.rollback[OF assms(1), of s e] that by auto
qed

section \<open>The operations\<close>

lemma mark_batch_refines: "mark_batch w refs now db = Inr (rs, db') \<Longrightarrow> refines f db db'"
  by (auto intro: refines_if_inv moves_refines mark_batch_moves)

lemma applyCompletionTx_refines: "applyCompletionTx c now db = Inr (r, db') \<Longrightarrow> refines f db db'"
  by (auto intro: refines_if_inv moves_refines applyCompletionTx_moves)

lemma complete_batch_refines: "complete_batch cs now db = Inr (rs, db') \<Longrightarrow> refines f db db'"
  by (auto intro: refines_if_inv moves_refines complete_batch_moves)

interpretation submit_job: atomic_op "SubmitJob sub ent requested elapsed" False for sub ent requested elapsed
  by (rule wrapped_op[OF transact_op[where body = "\<lambda>s. SubmitJob_tx s sub ent" and r = "\<lambda>_. requested" and el = "\<lambda>_. elapsed" and f = "False"]])
    (auto simp: SubmitJob_def intro: SubmitJob_refines split: sum.split prod.split)

interpretation submit_workflow: atomic_op "SubmitWorkflow sub ent requested elapsed" False for sub ent requested elapsed
  by (rule wrapped_op[OF transact_op[where body = "\<lambda>s. SubmitWorkflow_tx s sub ent" and r = "\<lambda>_. requested" and el = "\<lambda>_. elapsed" and f = "False"]])
    (auto simp: SubmitWorkflow_def intro: SubmitWorkflow_refines split: sum.split prod.split)

interpretation submit_job_operation: atomic_op "SubmitJobOperation c ent elapsed" False for c ent elapsed
  by (rule wrapped_op[OF transact_op[where body = "\<lambda>s. SubmitJobOperation_tx s c ent" and r = "\<lambda>_. sj_requested_at c" and el = "\<lambda>_. elapsed" and f = "False"]])
    (auto simp: SubmitJobOperation_def commitOperation_def intro: SubmitJobOperation_refines split: sum.split prod.split)

interpretation submit_dag: atomic_op "SubmitDAGOperation d c ent requested elapsed" False for d c ent requested elapsed
  by (rule wrapped_op[OF transact_op[where body = "\<lambda>s. SubmitDAGOperation_tx s d c ent" and r = "\<lambda>_. requested" and el = "\<lambda>_. elapsed" and f = "False"]])
    (auto simp: SubmitDAGOperation_def commitOperation_def intro: SubmitDAGOperation_refines split: sum.split prod.split)

interpretation save_dag: atomic_op "SaveDAG d t k g ns requested elapsed" False for d t k g ns requested elapsed
  by (rule wrapped_op[OF transact_op[where body = "\<lambda>_. SaveDAG_tx d t k g ns" and r = "\<lambda>_. requested" and el = "\<lambda>_. elapsed" and f = "False"]])
    (auto simp: SaveDAG_def intro: SaveDAG_refines split: sum.split prod.split)

interpretation cancel_job: atomic_op "ApplyJobControl (CancelJob c) elapsed" False for c elapsed
  by (rule wrapped_op[OF transact_op[where body = "\<lambda>_. ApplyJobControl_tx (CancelJob c)" and r = "\<lambda>_. cj_requested_at c" and el = "\<lambda>_. elapsed" and f = "False"]])
    (auto simp: ApplyJobControl_def CancelJob_def intro: ApplyJobControl_refines split: sum.split prod.split)

interpretation force_job: atomic_op "ApplyJobControl (ForceJobAction a c) elapsed" "a = ForceRelease" for a c elapsed
  by (rule wrapped_op[OF transact_op[where body = "\<lambda>_. ApplyJobControl_tx (ForceJobAction a c)" and r = "\<lambda>_. cj_requested_at c" and el = "\<lambda>_. elapsed" and f = "a = ForceRelease"]])
    (auto simp: ApplyJobControl_def ForceJobAction_def intro: ApplyJobControl_refines split: sum.split prod.split)

interpretation redrive: atomic_op "RedriveDeadLetter actor i key digest ent requested elapsed" False for actor i key digest ent requested elapsed
  by (rule wrapped_op[OF transact_op[where body = "\<lambda>s. RedriveDeadLetter_tx s (if actor = '''' then ''api'' else actor) i key digest ent" and r = "\<lambda>_. requested" and el = "\<lambda>_. elapsed" and f = "False"]])
    (auto simp: RedriveDeadLetter_def Let_def intro: RedriveDeadLetter_refines split: sum.split prod.split)

interpretation redrive_control: atomic_op "RedriveDeadLetterControl c ent elapsed" False for c ent elapsed
  by (rule wrapped_op[OF transact_op[where body = "\<lambda>s. RedriveDeadLetterControl_tx s c ent" and r = "\<lambda>_. rc_requested_at c" and el = "\<lambda>_. elapsed" and f = "False"]])
    (auto simp: RedriveDeadLetterControl_def intro: RedriveDeadLetterControl_refines split: sum.split prod.split)

interpretation retry_control: atomic_op "RetryJobControl c ent elapsed" False for c ent elapsed
  by (rule wrapped_op[OF transact_op[where body = "\<lambda>s. RetryJobControl_tx s c ent" and r = "\<lambda>_. rc_requested_at c" and el = "\<lambda>_. elapsed" and f = "False"]])
    (auto simp: RetryJobControl_def intro: RetryJobControl_refines split: sum.split prod.split)

interpretation reap: atomic_op "ReapExpired requested limit elapsed" False for requested limit elapsed
  by (rule wrapped_op[OF transact_op[where body = "\<lambda>_. ReapExpired_tx limit" and r = "\<lambda>_. requested" and el = "\<lambda>_. elapsed" and f = "False"]])
    (auto simp: ReapExpired_def intro: ReapExpired_refines split: sum.split prod.split)

interpretation lease: atomic_op "acquire w slots limit requested ttl reserve ent elapsed" False for w slots limit requested ttl reserve ent elapsed
  by (rule wrapped_op[OF transact_op[where body = "\<lambda>_. acquire_tx w slots limit ttl reserve ent" and r = "\<lambda>_. requested" and el = "\<lambda>_. elapsed" and f = "False"]])
    (auto simp: acquire_def intro: acquire_tx_refines split: sum.split prod.split)

interpretation mark_all: atomic_op "MarkRunningBatch w refs requested elapsed" False for w refs requested elapsed
  by (rule wrapped_op[OF transact_op[where body = "\<lambda>_. mark_batch w refs" and r = "\<lambda>_. requested" and el = "\<lambda>_. elapsed" and f = "False"]])
    (auto simp: MarkRunningBatch_def intro: mark_batch_refines split: sum.split prod.split)

interpretation beat: atomic_op "Heartbeat w refs requested ttl elapsed" False for w refs requested ttl elapsed
  by (rule wrapped_op[OF transact_op[where body = "\<lambda>_ now db. foldE (heartbeat_one w now ttl) refs ([], db)" and r = "\<lambda>_. requested" and el = "\<lambda>_. elapsed" and f = "False"]])
    (auto simp: Heartbeat_def intro: heartbeats_refine split: sum.split prod.split)

interpretation complete: atomic_op "Complete c requested elapsed" False for c requested elapsed
  by (rule wrapped_op[OF transact_op[where body = "\<lambda>_. applyCompletionTx c" and r = "\<lambda>_. requested" and el = "\<lambda>_. elapsed" and f = "False"]])
    (auto simp: Complete_def intro: applyCompletionTx_refines split: sum.split prod.split)

interpretation complete_all: atomic_op "CompleteBatch cs requested elapsed" False for cs requested elapsed
  by (rule wrapped_op[OF transact_op[where body = "\<lambda>_. complete_batch cs" and r = "\<lambda>_. requested" and el = "\<lambda>_. elapsed" and f = "False"]])
    (auto simp: CompleteBatch_def intro: complete_batch_refines split: sum.split prod.split)

interpretation create_cron: atomic_op "CreateCronTrigger parse sub ent requested elapsed" False for parse sub ent requested elapsed
  by (rule wrapped_op[OF transact_op[where body = "\<lambda>s. CreateCronTrigger_tx parse s sub ent" and r = "\<lambda>_. requested" and el = "\<lambda>_. elapsed" and f = "False"]])
    (auto simp: CreateCronTrigger_def intro: CreateCronTrigger_refines split: sum.split prod.split)

lemma PromoteDue_body:
  "(let js = due_jobs db now limit in bindE (foldE (promote_job now) js db) (\<lambda>db'. Inr (int (length js), db'))) = Inr (n, db') \<Longrightarrow>
   refines f db db'"
  by (auto simp: Let_def bindE_Inr_iff intro: PromoteDue_refines)

interpretation promote: atomic_op "PromoteDue requested limit elapsed" False for requested limit elapsed
  by (rule wrapped_op[OF transact_op[where body = "\<lambda>_ now db. let js = due_jobs db now limit
      in bindE (foldE (promote_job now) js db) (\<lambda>db'. Inr (int (length js), db'))" and r = "\<lambda>_. requested" and el = "\<lambda>_. elapsed" and f = False]])
    (use PromoteDue_body in \<open>auto simp: PromoteDue_def\<close>)

lemma markRunningTx_body: "bindE (markRunningTx w ref now db) (\<lambda>db'. Inr ((), db')) = Inr (u, db') \<Longrightarrow> refines f db db'"
  by (auto simp: bindE_Inr_iff intro: refines_if_inv moves_refines markRunningTx_moves)

interpretation mark: atomic_op "MarkRunning w ref requested elapsed" False for w ref requested elapsed
  by (rule wrapped_op[OF transact_op[where body = "\<lambda>_ now db. bindE (markRunningTx w ref now db) (\<lambda>db'. Inr ((), db'))"
        and r = "\<lambda>_. requested" and el = "\<lambda>_. elapsed" and f = False]])
    (auto simp: MarkRunning_def intro: markRunningTx_body split: sum.split prod.split)

lemma RecordControlAction_body:
  "(let a = default_tenant (action\<lparr>ct_committed_at := now\<rparr>) in
    bindE (readControlAction db (ct_tenant a) (ct_key a) (ct_action a) (ct_digest a)) (\<lambda>stored.
    if stored \<noteq> None then Inr (True, db) else bindE (insertControlAction a db) (\<lambda>db'. Inr (False, db')))) = Inr (r, db') \<Longrightarrow>
   refines f db db'"
  by (rule refines_unseen) (auto simp: Let_def bindE_Inr_iff split: if_splits dest!: insertControlAction_view)

interpretation record_control: atomic_op "RecordControlAction action elapsed" False for action elapsed
  by (rule wrapped_op[OF transact_op[where body = "\<lambda>_ now db. let a = default_tenant (action\<lparr>ct_committed_at := now\<rparr>) in
       bindE (readControlAction db (ct_tenant a) (ct_key a) (ct_action a) (ct_digest a)) (\<lambda>stored.
       if stored \<noteq> None then Inr (True, db) else bindE (insertControlAction a db) (\<lambda>db'. Inr (False, db')))"
        and r = "\<lambda>_. ct_committed_at action" and el = "\<lambda>_. elapsed" and f = False]])
    (use RecordControlAction_body in \<open>auto simp: RecordControlAction_def\<close>)

lemma insertControlActionWithEvent_view:
  "insertControlActionWithEvent a e db = Inr db' \<Longrightarrow> abs db' = abs db \<and> keys_ok db' = keys_ok db"
  by (auto simp: insertControlActionWithEvent_def Let_def split: option.splits if_splits)

lemma RecordOperatorAction_body:
  assumes "(let a = default_tenant (action\<lparr>ct_committed_at := now\<rparr>) in
       bindE (readControlAction db (ct_tenant a) (ct_key a) (ct_action a) (ct_digest a)) (\<lambda>stored.
       case stored of
         Some (OpEvent e) \<Rightarrow> Inr ((e, True), db)
       | Some _ \<Rightarrow> Inl (ErrNew ''decode operator action response: %w'')
       | None \<Rightarrow>
           let event = newAuditEvent a in
           bindE (insertControlActionWithEvent (a\<lparr>ct_response := OpEvent event\<rparr>) event db) (\<lambda>db'.
           Inr ((event, False), db')))) = Inr (r, db')"
  shows "refines f db db'"
proof -
  let ?a = "default_tenant (action\<lparr>ct_committed_at := now\<rparr>)"
  obtain st where st: "readControlAction db (ct_tenant ?a) (ct_key ?a) (ct_action ?a) (ct_digest ?a) = Inr st"
    using assms by (auto simp: Let_def bindE_Inr_iff)
  show ?thesis
  proof (cases st)
    case None
    then have "abs db' = abs db \<and> keys_ok db' = keys_ok db"
      using assms st by (auto simp: Let_def bindE_Inr_iff dest!: insertControlActionWithEvent_view)
    then show ?thesis by (intro refines_unseen) simp_all
  next
    case (Some x)
    then show ?thesis using assms st by (cases x) (auto simp: Let_def)
  qed
qed

interpretation record_operator: atomic_op "RecordOperatorAction action elapsed" False for action elapsed
  by (rule wrapped_op[OF transact_op[where r = "\<lambda>_. ct_committed_at action" and el = "\<lambda>_. elapsed" and f = False,
        OF RecordOperatorAction_body[where action = action]]])
    (auto simp: RecordOperatorAction_def)

interpretation register: atomic_op "RegisterWorker w c requested elapsed" False for w c requested elapsed
  by (rule wrapped_op[OF transact_op[where body = "\<lambda>_. RegisterWorker_tx w c" and r = "\<lambda>_. requested" and el = "\<lambda>_. elapsed" and f = False]])
    (auto simp: RegisterWorker_def intro!: refines_unseen dest!: RegisterWorker_view)

lemma HeartbeatWorker_body:
  "(let p = (\<lambda>r. wk_id r = w) in if affected p (workers db) \<noteq> 1 then Inl ErrNotFound
    else Inr ((), db\<lparr>workers := update_where p (\<lambda>r. r\<lparr>wk_last_heartbeat_at := max (wk_last_heartbeat_at r) (timeToDB now)\<rparr>) (workers db)\<rparr>)) = Inr (u, db') \<Longrightarrow>
   refines f db db'"
  by (rule refines_unseen) (auto simp: Let_def split: if_splits)

interpretation worker_beat: atomic_op "HeartbeatWorker w requested elapsed" False for w requested elapsed
  by (rule wrapped_op[OF transact_op[where body = "\<lambda>_ now db. let p = (\<lambda>r. wk_id r = w) in if affected p (workers db) \<noteq> 1 then Inl ErrNotFound
      else Inr ((), db\<lparr>workers := update_where p (\<lambda>r. r\<lparr>wk_last_heartbeat_at := max (wk_last_heartbeat_at r) (timeToDB now)\<rparr>) (workers db)\<rparr>)"
        and r = "\<lambda>_. requested" and el = "\<lambda>_. elapsed" and f = False]])
    (use HeartbeatWorker_body in \<open>auto simp: HeartbeatWorker_def\<close>)

subsection \<open>Operations of several transactions\<close>

lemma fire_due_contract:
  "s_default_slots (snd (fire_due parse now ent elapsed i rows ids s)) = s_default_slots s \<and>
    s_last_time s \<le> s_last_time (snd (fire_due parse now ent elapsed i rows ids s)) \<and>
    (0 \<le> s_default_slots s \<longrightarrow> refines False (s_db s) (s_db (snd (fire_due parse now ent elapsed i rows ids s))))"
proof (induction parse now ent elapsed i rows ids s rule: fire_due.induct)
  case (2 parse now ent elapsed i row rest ids s)
  define key where "key = CronOccurrenceKey (cr_id row) (timeFromDB (cr_next_fire_at row))"
  define sub where "sub = \<lparr>sub_job = cr_job row, sub_actor = (if cr_actor row = '''' then ''system'' else cr_actor row),
    sub_key = key, sub_digest = sha256_hex key\<rparr>"
  obtain x s1 where run: "SubmitJob sub (ent i) now (elapsed i) s = (x, s1)" by (cases "SubmitJob sub (ent i) now (elapsed i) s") auto
  have s1: "s_default_slots s1 = s_default_slots s" "s_last_time s \<le> s_last_time s1" "0 \<le> s_default_slots s \<Longrightarrow> refines False (s_db s) (s_db s1)"
    using submit_job.keeps_slots[of sub "ent i" now "elapsed i" s] submit_job.clock[of s sub "ent i" now "elapsed i"]
      submit_job.refine[of s sub "ent i" now "elapsed i"] by (simp_all add: run)
  show ?case
  proof (cases x)
    case (Inr y)
    then obtain job dup where y: "x = Inr (job, dup)" by (cases y) auto
    show ?thesis
    proof (cases "ParseCron parse (cr_expression row)")
      case (Inr schedule)
      show ?thesis
      proof (cases "record_occurrence row (j_id job) (schedule now) now (s_db s1)")
        case rec: (Inr db')
        note v = record_occurrence_view[OF rec]
        have "refines False (s_db s1) db'" using v by (intro refines_unseen) simp_all
        then have r: "0 \<le> s_default_slots s \<Longrightarrow> refines False (s_db s) db'" using refines_trans[OF s1(3)] by simp
        note ih = "2.IH"[OF key_def sub_def run[symmetric] y refl Inr rec]
        show ?thesis
          using ih refines_trans[OF r] s1 run y Inr rec by (auto simp: Let_def key_def[symmetric] sub_def[symmetric])
      qed (use s1 run y Inr in \<open>auto simp: Let_def key_def[symmetric] sub_def[symmetric]\<close>)
    qed (use s1 run y in \<open>auto simp: Let_def key_def[symmetric] sub_def[symmetric]\<close>)
  qed (use s1 run in \<open>auto simp: Let_def key_def[symmetric] sub_def[symmetric]\<close>)
qed simp

interpretation fire_cron: store_op "FireDueCron parse now limit ent elapsed" False for parse now limit ent elapsed
  using fire_due_contract by unfold_locales (auto simp: FireDueCron_def)

lemma deliver_contract:
  "s_default_slots (snd (DeliverRedis d spec g ent now el s)) = s_default_slots s \<and>
   s_last_time s \<le> s_last_time (snd (DeliverRedis d spec g ent now el s)) \<and>
   (0 \<le> s_default_slots s \<longrightarrow> refines False (s_db s) (s_db (snd (DeliverRedis d spec g ent now el s))))"
proof -
  define sub where "sub = \<lparr>sub_job = spec, sub_actor = ''system'', sub_key = IdempotencyKey d, sub_digest = g\<rparr>"
  obtain x s1 where run: "SubmitJob sub ent now el s = (x, s1)" by (cases "SubmitJob sub ent now el s") auto
  have s1: "s_default_slots s1 = s_default_slots s" "s_last_time s \<le> s_last_time s1" "0 \<le> s_default_slots s \<Longrightarrow> refines False (s_db s) (s_db s1)"
    using submit_job.keeps_slots[of sub ent now el s] submit_job.clock[of s sub ent now el] submit_job.refine[of s sub ent now el]
    by (simp_all add: run)
  show ?thesis
  proof (cases x)
    case (Inr y)
    then obtain job dup where y: "x = Inr (job, dup)" by (cases y) auto
    show ?thesis
    proof (cases "record_delivery d (j_id job) now (s_db s1)")
      case rec: (Inr db')
      have "0 \<le> s_default_slots s \<Longrightarrow> refines False (s_db s) db'"
        by (rule refines_then_unseen[OF s1(3)]) (use record_delivery_view[OF rec] in simp_all)
      then show ?thesis using s1 run y rec by (simp add: DeliverRedis_def sub_def[symmetric])
    qed (use s1 run y in \<open>simp add: DeliverRedis_def sub_def[symmetric]\<close>)
  qed (use s1 run in \<open>simp add: DeliverRedis_def sub_def[symmetric]\<close>)
qed

interpretation deliver: store_op "DeliverRedis d spec g ent now elapsed" False for d spec g ent now elapsed
  using deliver_contract[of d spec g ent now elapsed] by unfold_locales auto

end
