(* ===== verification/Store_Machine.thy ===== *)
theory Store_Machine
  imports Store_Contract
begin

text \<open>
  The store as a machine: a request is a call of one writing operation of \<^verbatim>\<open>internal/store/sqlite\<close>, and
  the reachable stores are those that any sequence of calls, in any order and with any arguments, leads to from a
  fresh database file, with any number of restarts in between. The theorems state what holds in all of them.
\<close>

section \<open>Definitions\<close>

datatype request =
    ReqSubmitJob Submission entropy int int
  | ReqSubmitWorkflow WorkflowSubmission entropy int int
  | ReqSubmitJobOperation SubmitJobCommand entropy int
  | ReqSubmitDAG string WorkflowSubmission entropy int int
  | ReqSaveDAG string string string string "(string \<times> string \<times> string) list" int int
  | ReqAcquire string int int int int entropy int
  | ReqAcquireReserved string int int int int int entropy int
  | ReqMarkRunning string LeaseRef int int
  | ReqMarkRunningBatch string "LeaseRef list" int int
  | ReqHeartbeat string "LeaseRef list" int int int
  | ReqComplete Completion int int
  | ReqCompleteBatch "Completion list" int int
  | ReqPromoteDue int int int
  | ReqReapExpired int int int
  | ReqCancel CancelJobCommand int
  | ReqForce ForceAction CancelJobCommand int
  | ReqRedrive string string string string entropy int int
  | ReqRedriveControl RedriveControlCommand entropy int
  | ReqRetryControl RedriveControlCommand entropy int
  | ReqRecordControl ControlAction int
  | ReqRecordOperator ControlAction int
  | ReqCreateCron CronSubmission entropy int int
  | ReqFireDueCron int int "nat \<Rightarrow> entropy" "nat \<Rightarrow> int"
  | ReqDeliverRedis RedisDelivery JobSpec string entropy int int
  | ReqRegisterWorker string int int int
  | ReqHeartbeatWorker string int int

fun serve :: "cron_parser \<Rightarrow> request \<Rightarrow> store \<Rightarrow> store" where
  "serve parse (ReqSubmitJob sub ent t e) s = snd (SubmitJob sub ent t e s)"
| "serve parse (ReqSubmitWorkflow sub ent t e) s = snd (SubmitWorkflow sub ent t e s)"
| "serve parse (ReqSubmitJobOperation c ent e) s = snd (SubmitJobOperation c ent e s)"
| "serve parse (ReqSubmitDAG d c ent t e) s = snd (SubmitDAGOperation d c ent t e s)"
| "serve parse (ReqSaveDAG d tn k g ns t e) s = snd (SaveDAG d tn k g ns t e s)"
| "serve parse (ReqAcquire w slots limit t ttl ent e) s = snd (Acquire w slots limit t ttl ent e s)"
| "serve parse (ReqAcquireReserved w slots limit t ttl reserve ent e) s =
     snd (AcquireWithRecoveryReserve w slots limit t ttl reserve ent e s)"
| "serve parse (ReqMarkRunning w ref t e) s = snd (MarkRunning w ref t e s)"
| "serve parse (ReqMarkRunningBatch w refs t e) s = snd (MarkRunningBatch w refs t e s)"
| "serve parse (ReqHeartbeat w refs t ttl e) s = snd (Heartbeat w refs t ttl e s)"
| "serve parse (ReqComplete c t e) s = snd (Complete c t e s)"
| "serve parse (ReqCompleteBatch cs t e) s = snd (CompleteBatch cs t e s)"
| "serve parse (ReqPromoteDue t limit e) s = snd (PromoteDue t limit e s)"
| "serve parse (ReqReapExpired t limit e) s = snd (ReapExpired t limit e s)"
| "serve parse (ReqCancel c e) s = snd (ApplyJobControl (CancelJob c) e s)"
| "serve parse (ReqForce a c e) s = snd (ApplyJobControl (ForceJobAction a c) e s)"
| "serve parse (ReqRedrive actor i k g ent t e) s = snd (RedriveDeadLetter actor i k g ent t e s)"
| "serve parse (ReqRedriveControl c ent e) s = snd (RedriveDeadLetterControl c ent e s)"
| "serve parse (ReqRetryControl c ent e) s = snd (RetryJobControl c ent e s)"
| "serve parse (ReqRecordControl a e) s = snd (RecordControlAction a e s)"
| "serve parse (ReqRecordOperator a e) s = snd (RecordOperatorAction a e s)"
| "serve parse (ReqCreateCron sub ent t e) s = snd (CreateCronTrigger parse sub ent t e s)"
| "serve parse (ReqFireDueCron t limit ent e) s = snd (FireDueCron parse t limit ent e s)"
| "serve parse (ReqDeliverRedis d spec g ent t e) s = snd (DeliverRedis d spec g ent t e s)"
| "serve parse (ReqRegisterWorker w c t e) s = snd (RegisterWorker w c t e s)"
| "serve parse (ReqHeartbeatWorker w t e) s = snd (HeartbeatWorker w t e s)"

text \<open>Only an operator's forced release may make a job ready before its dependencies succeeded.\<close>

fun forces :: "request \<Rightarrow> bool" where
  "forces (ReqForce a c e) = (a = ForceRelease)"
| "forces _ = False"

inductive reachable :: "cron_parser \<Rightarrow> bool \<Rightarrow> store \<Rightarrow> bool" for parse forced where
  opened: "OpenWithOptions empty_db options = Inr s \<Longrightarrow> reachable parse forced s"
| reopened: "reachable parse forced s \<Longrightarrow> OpenWithOptions (s_db s) options = Inr s' \<Longrightarrow> reachable parse forced s'"
| served: "reachable parse forced s \<Longrightarrow> forces r \<longrightarrow> forced \<Longrightarrow> reachable parse forced (serve parse r s)"

section \<open>Lemmas\<close>

lemma store_op_snd: "store_op run f \<Longrightarrow> store_op (\<lambda>s. (Inr () :: unit result, snd (run s))) f"
  by (simp add: store_op_def)

lemma serve_op: "store_op (\<lambda>s. (Inr () :: unit result, serve parse r s)) (forces r)"
proof (cases r)
  case (ReqAcquire w slots limit t ttl ent e)
  then show ?thesis
    using store_op_snd[OF lease.store_op_axioms[of w slots limit t ttl 0 ent e]] by (simp add: Acquire_def)
next
  case (ReqAcquireReserved w slots limit t ttl reserve ent e)
  then show ?thesis
    using store_op_snd[OF lease.store_op_axioms[of w slots limit t ttl reserve ent e]] by (simp add: AcquireWithRecoveryReserve_def)
qed (simp_all add: store_op_snd submit_job.store_op_axioms submit_workflow.store_op_axioms submit_job_operation.store_op_axioms
  submit_dag.store_op_axioms save_dag.store_op_axioms mark.store_op_axioms mark_all.store_op_axioms beat.store_op_axioms
  complete.store_op_axioms complete_all.store_op_axioms promote.store_op_axioms reap.store_op_axioms cancel_job.store_op_axioms
  force_job.store_op_axioms redrive.store_op_axioms redrive_control.store_op_axioms retry_control.store_op_axioms
  record_control.store_op_axioms record_operator.store_op_axioms create_cron.store_op_axioms fire_cron.store_op_axioms
  deliver.store_op_axioms register.store_op_axioms worker_beat.store_op_axioms)

interpretation machine: store_op "\<lambda>s. (Inr () :: unit result, serve parse r s)" "forces r" for parse r
  by (rule serve_op)

lemma abs_empty_db: "abs empty_db = empty_yard"
  by (simp add: abs_def empty_db_def empty_yard_def ready_counter_def lookup_def)

lemma keys_ok_empty: "keys_ok empty_db"
  by (simp add: keys_ok_def empty_db_def lookup_def)

lemma OpenWithOptions_Inr: "OpenWithOptions db opts = Inr s \<Longrightarrow> s_db s = db \<and> 0 \<le> s_default_slots s"
  by (auto simp: OpenWithOptions_def initializeLogicalClock_def Let_def split: if_splits)

lemma reachable_ok: "reachable parse f s \<Longrightarrow> store_ok s"
proof (induction rule: reachable.induct)
  case (opened options s)
  then show ?case
    using OpenWithOptions_Inr[OF opened] by (simp add: store_ok_def db_inv_def abs_empty_db keys_ok_empty empty_yard_inv)
next
  case (reopened s options s')
  then show ?case using OpenWithOptions_Inr[OF reopened(2)] by (simp add: store_ok_def)
next
  case (served s r)
  then show ?case using machine.keeps_ok[OF served.IH, where parse = parse and r = r] by simp
qed

lemma reachable_gated: "reachable parse False s \<Longrightarrow> gated (abs (s_db s))"
proof (induction rule: reachable.induct)
  case (opened options s)
  then show ?case using OpenWithOptions_Inr[OF opened] by (simp add: abs_empty_db empty_yard_gated)
next
  case (reopened s options s')
  then show ?case using OpenWithOptions_Inr[OF reopened(2)] by simp
next
  case (served s r)
  have ok: "store_ok s" by (rule reachable_ok[OF served(1)])
  then have "refines False (s_db s) (s_db (serve parse r s))"
    using machine.refine[where s = s and parse = parse and r = r] served(2) by (simp add: store_ok_def)
  then show ?case using ok served(3) by (auto simp: store_ok_def refines_def db_inv_def intro: ysteps_gated)
qed

lemma reachable_db: "reachable parse f s \<Longrightarrow> db_inv (s_db s)"
  using reachable_ok by (auto simp: store_ok_def)

lemma row_inv: "db_inv db \<Longrightarrow> r \<in> set (jobs db) \<Longrightarrow> job_inv (abs db) (j_id r) (view r)"
  by (rule abs_job_inv) (auto simp: db_inv_def intro: lookup_keys)

lemma filter_key:
  "distinct (map key rows) \<Longrightarrow> filter (\<lambda>x. key x = k) rows = (case lookup key k rows of None \<Rightarrow> [] | Some r \<Rightarrow> [r])"
  by (induction rows) (auto simp: lookup_Cons lookup_None_iff[THEN iffD2])

lemma sum_weights:
  "sum_list (map (\<lambda>r. if P (view r) then weight (view r) else 0) rows) =
   sum_list (map j_slot_cost (filter (\<lambda>r. P (view r) \<and> active_state (j_state r)) rows))"
  by (induction rows) (auto simp: weight_view)

lemma usage_rows:
  assumes "keys_ok db"
  shows "usage (y_jobs (abs db)) P = sum_list (map j_slot_cost (filter (\<lambda>r. P (view r) \<and> active_state (j_state r)) (jobs db)))"
proof -
  have d: "distinct (map j_id (jobs db))" using assms by (simp add: keys_ok_def)
  have dom: "dom (y_jobs (abs db)) = j_id ` set (jobs db)"
    by (auto simp: abs_sel dom_def lookup_None_iff image_iff dest!: lookup_Some_in intro: lookup_distinct[OF d])
  have "usage (y_jobs (abs db)) P = (\<Sum>r \<in> set (jobs db). if P (view r) then weight (view r) else 0)"
    unfolding usage_def dom using d
    by (subst sum.reindex) (auto simp: distinct_map abs_job lookup_distinct intro!: sum.cong)
  then show ?thesis using d by (simp add: sum_list_distinct_conv_sum_set distinct_map sum_weights[symmetric])
qed

section \<open>Theorems\<close>

text \<open>C1: In every reachable store a job has exactly one row in the ledger of outcomes if it is in a terminal state,
  with the job's state and version, and none otherwise; it has a dead letter exactly if it is dead-lettered.\<close>

theorem one_outcome:
  assumes "reachable parse f s" and "r \<in> set (jobs (s_db s))"
  shows "length (filter (\<lambda>c. cp_job c = j_id r) (job_completions (s_db s))) = (if Terminal (j_state r) then 1 else 0) \<and>
    (\<forall>c \<in> set (job_completions (s_db s)). cp_job c = j_id r \<longrightarrow> cp_state c = j_state r \<and> cp_version c = j_state_version r) \<and>
    (j_id r \<in> dl_job ` set (dead_letters (s_db s)) \<longleftrightarrow> j_state r = StateDeadLetter)"
proof -
  have d: "distinct (map cp_job (job_completions (s_db s)))"
    using reachable_db[OF assms(1)] by (simp add: db_inv_def keys_ok_def)
  have inv: "map_option outcome_view (lookup cp_job (j_id r) (job_completions (s_db s))) =
      (if Terminal (j_state r) then Some (j_state r, j_state_version r) else None)"
      "j_id r \<in> dl_job ` set (dead_letters (s_db s)) \<longleftrightarrow> j_state r = StateDeadLetter"
    using row_inv[OF reachable_db[OF assms(1)] assms(2)] by (simp_all add: job_inv_def abs_sel)
  have "cp_state c = j_state r \<and> cp_version c = j_state_version r" if "c \<in> set (job_completions (s_db s))" "cp_job c = j_id r" for c
    using inv(1) lookup_distinct[OF d that(1)] that(2) by (auto simp: outcome_view_def split: if_splits)
  then show ?thesis
    using inv filter_key[OF d, of "j_id r"] by (auto split: if_splits option.splits)
qed

text \<open>C4: In every reachable store the slots a tenant row counts as in use are the slot costs of the tenant's scheduled
  and running jobs, and they stay within the tenant's limit; the same holds for the queue rows.\<close>

theorem slots_accounted:
  assumes "reachable parse f s"
  shows "(\<forall>t \<in> set (tenant_limits (s_db s)).
      te_active_slots t = sum_list (map j_slot_cost (filter (\<lambda>r. j_tenant r = te_id t \<and> active_state (j_state r)) (jobs (s_db s)))) \<and>
      (te_max_slots t = 0 \<or> te_active_slots t \<le> te_max_slots t)) \<and>
    (\<forall>q \<in> set (queue_state (s_db s)). qu_active_slots q = sum_list (map j_slot_cost
      (filter (\<lambda>r. j_tenant r = qu_tenant q \<and> j_queue r = qu_name q \<and> active_state (j_state r)) (jobs (s_db s)))))"
proof -
  let ?db = "s_db s"
  have k: "keys_ok ?db" and sl: "slots_inv (abs ?db)"
    using reachable_db[OF assms] yard_invD(3)[of "abs ?db"] by (auto simp: db_inv_def)
  show ?thesis
  proof (intro conjI ballI)
    fix t assume t: "t \<in> set (tenant_limits ?db)"
    then have l: "y_tenant (abs ?db) (te_id t) = Some (te_active_slots t)" "y_limit (abs ?db) (te_id t) = Some (te_max_slots t)"
      using k by (simp_all add: abs_sel keys_ok_def lookup_distinct)
    then show "te_active_slots t = sum_list (map j_slot_cost (filter (\<lambda>r. j_tenant r = te_id t \<and> active_state (j_state r)) (jobs ?db)))"
      "te_max_slots t = 0 \<or> te_active_slots t \<le> te_max_slots t"
      using sl usage_rows[OF k, of "\<lambda>v. v_tenant v = te_id t"] by (auto simp: slots_inv_def)
  next
    fix q assume q: "q \<in> set (queue_state ?db)"
    then have "lookup queue_row_key (queue_row_key q) (queue_state ?db) = Some q"
      using k by (intro lookup_distinct) (simp_all add: keys_ok_def)
    then have "y_queue (abs ?db) (qu_tenant q, qu_name q) = Some (qu_active_slots q)" by (simp add: abs_sel queue_row_key_def[of q])
    then show "qu_active_slots q = sum_list (map j_slot_cost
      (filter (\<lambda>r. j_tenant r = qu_tenant q \<and> j_queue r = qu_name q \<and> active_state (j_state r)) (jobs ?db)))"
      using sl usage_rows[OF k, of "\<lambda>v. v_tenant v = qu_tenant q \<and> v_queue v = qu_name q"] by (auto simp: slots_inv_def conj_assoc)
  qed
qed

text \<open>C3: In every reachable store the current lease of a scheduled or running job is held by exactly one attempt, which is
  open and carries the job's attempt number, and every attempt of a job is numbered by its own lease generation, which never
  exceeds the job's: an older lease can never be mistaken for the current one.\<close>

theorem current_lease:
  assumes "reachable parse f s" and "r \<in> set (jobs (s_db s))" and "active_state (j_state r)"
  shows "(\<exists>a. filter (\<lambda>a. at_job a = j_id r \<and> at_generation a = j_lease_generation r) (attempts (s_db s)) = [a] \<and>
      at_no a = j_attempt_no r \<and> open_attempt (at_state a)) \<and>
    (\<forall>a \<in> set (attempts (s_db s)). at_job a = j_id r \<longrightarrow>
      1 \<le> at_no a \<and> at_no a \<le> j_attempt_no r \<and> at_generation a = at_no a \<and> at_generation a \<le> j_lease_generation r)"
proof -
  let ?db = "s_db s"
  have d: "distinct (map attempt_key (attempts ?db))"
    using reachable_db[OF assms(1)] by (simp add: db_inv_def keys_ok_def)
  have inv: "job_inv (abs ?db) (j_id r) (view r)" by (rule row_inv[OF reachable_db[OF assms(1)] assms(2)])
  then have eq: "j_attempt_no r = j_lease_generation r" by (simp add: job_inv_def)
  have nums: "1 \<le> at_no a \<and> at_no a \<le> j_attempt_no r \<and> at_generation a = at_no a"
    if a: "a \<in> set (attempts ?db)" "at_job a = j_id r" for a
  proof -
    have "y_attempts (abs ?db) (attempt_key a) = Some (attempt_view a)"
      using lookup_distinct[OF d a(1)] by (simp add: abs_sel)
    then show ?thesis using inv a(2) by (auto simp: job_inv_def attempts_ok_def attempt_key_def attempt_view_def)
  qed
  then have "filter (\<lambda>a. at_job a = j_id r \<and> at_generation a = j_lease_generation r) (attempts ?db) =
      filter (\<lambda>a. attempt_key a = (j_id r, j_attempt_no r)) (attempts ?db)"
    using eq by (intro filter_cong) (auto simp: attempt_key_def)
  moreover obtain a where "lookup attempt_key (j_id r, j_attempt_no r) (attempts ?db) = Some a" "open_attempt (at_state a)"
    using inv assms(3) by (auto simp: job_inv_def attempts_ok_def abs_sel attempt_view_def)
  ultimately show ?thesis
    using filter_key[OF d, of "(j_id r, j_attempt_no r)"] nums eq lookup_Some_in[of attempt_key "(j_id r, j_attempt_no r)"]
    by (fastforce simp: attempt_key_def)
qed

text \<open>C6: As long as no operator forced a release, in every reachable store a job that is ready to be leased, or that has ever
  been leased, has only succeeded parents.\<close>

theorem dependency_gate:
  assumes "reachable parse False s" and "r \<in> set (jobs (s_db s))" and "0 < j_ready_seq r \<or> 0 < j_attempt_no r"
    and "(j_id r, p) \<in> set (job_dependencies (s_db s))"
  shows "\<exists>q \<in> set (jobs (s_db s)). j_id q = p \<and> j_state q = StateSucceeded"
proof -
  have "y_jobs (abs (s_db s)) (j_id r) = Some (view r)"
    using reachable_db[OF assms(1)] assms(2) by (intro abs_job lookup_keys) (auto simp: db_inv_def)
  then have "parents_succeeded (abs (s_db s)) (j_id r)"
    using gatedD[OF reachable_gated[OF assms(1)]] assms(3) by simp
  then obtain q where "lookup j_id p (jobs (s_db s)) = Some q" "j_state q = StateSucceeded"
    using assms(4) by (fastforce simp: parents_succeeded_def abs_sel)
  then show ?thesis using lookup_Some_in by metis
qed

text \<open>C7: In every reachable store the dependency table is acyclic and only relates existing jobs, so the waiting jobs of a
  workflow can always be worked off in some order.\<close>

theorem dependencies_acyclic:
  assumes "reachable parse f s"
  shows "acyclic (set (job_dependencies (s_db s))) \<and>
    (\<forall>(c, p) \<in> set (job_dependencies (s_db s)). c \<in> j_id ` set (jobs (s_db s)) \<and> p \<in> j_id ` set (jobs (s_db s)))"
  using reachable_db[OF assms] yard_invD(4)[of "abs (s_db s)"]
  by (auto simp: db_inv_def edges_inv_def abs_sel lookup_None_iff split: prod.splits dest!: bspec)

text \<open>C2: The store implements the specification of the yard: in every reachable store each operation acts on the abstraction of
  the database as a sequence of specified steps, in which a release against unmet dependencies occurs only for an operator's
  forced release, and the abstraction satisfies the specification's invariant.\<close>

theorem store_implements_yard:
  assumes "reachable parse f s"
  shows "(ystep (forces r))\<^sup>*\<^sup>* (abs (s_db s)) (abs (s_db (serve parse r s))) \<and> yard_inv (abs (s_db (serve parse r s)))"
proof -
  have ok: "store_ok s" by (rule reachable_ok[OF assms])
  have "refines (forces r) (s_db s) (s_db (serve parse r s))"
    using machine.refine[where s = s and parse = parse and r = r] ok by (simp add: store_ok_def)
  then show ?thesis using ok ysteps_inv by (auto simp: refines_def store_ok_def db_inv_def)
qed

lemma serve_evolves:
  "store_ok s \<Longrightarrow> evolves (abs (s_db s)) (abs (s_db (fold (serve parse) rs s))) \<and> store_ok (fold (serve parse) rs s)"
proof (induction rs arbitrary: s)
  case (Cons r rs)
  then show ?case
    using machine.run_evolves[where s = s and parse = parse and r = r] machine.keeps_ok[where s = s and parse = parse and r = r]
      Cons.IH[of "serve parse r s"] evolves_trans by auto
qed simp


end
