(* ===== verification/Store_Durability.thy ===== *)
theory Store_Durability
  imports Store_Machine "HOL-Library.Sublist"
begin

text \<open>
  What the store never forgets: the responses recorded under idempotency keys, the receipts of completed attempts and the
  decision log. \<open>durables\<close> are the tables that hold them; most operations leave these tables alone, and the others only
  append to them or write to attempts that are still open.
\<close>

section \<open>Definitions\<close>

definition scheduler_seq :: "db \<Rightarrow> int option" where
  "scheduler_seq db = map_option snd (lookup fst ''scheduler_seq'' (counters db))"

definition durables :: "db \<Rightarrow> attempt_row list \<times> idempotency_row list \<times> operation_row list \<times> decision_row list \<times> int option" where
  "durables db = (attempts db, idempotency_requests db, operation_requests db, decision_log db, scheduler_seq db)"

definition receipts_ok :: "attempt_row list \<Rightarrow> bool" where
  "receipts_ok rows \<longleftrightarrow> (\<forall>a \<in> set rows. at_digest a \<noteq> None \<longrightarrow> \<not> open_attempt (at_state a))"

definition log_ok :: "db \<Rightarrow> bool" where
  "log_ok db \<longleftrightarrow> chained [] 0 (map dr_record (decision_log db)) \<and> scheduler_seq db = Some (int (length (decision_log db))) \<and>
     (\<forall>r \<in> set (decision_log db). dr_sequence r = rec_sequence (dr_record r) \<and> dr_hash r = rec_hash (dr_record r) \<and>
        Decide (rec_input (dr_record r)) = Inr (rec_decision (dr_record r)))"

definition receipts_kept :: "attempt_row list \<Rightarrow> attempt_row list \<Rightarrow> bool" where
  "receipts_kept rows rows' \<longleftrightarrow>
     (receipts_ok rows \<longrightarrow> receipts_ok rows' \<and> {a \<in> set rows. at_digest a \<noteq> None} \<subseteq> set rows')"

definition durable :: "db \<Rightarrow> db \<Rightarrow> bool" where
  "durable db db' \<longleftrightarrow> prefix (idempotency_requests db) (idempotency_requests db') \<and>
     prefix (operation_requests db) (operation_requests db') \<and> receipts_kept (attempts db) (attempts db') \<and>
     (log_ok db \<longrightarrow> log_ok db' \<and> prefix (decision_log db) (decision_log db'))"

section \<open>Lemmas\<close>

lemma receipts_kept_refl [simp]: "receipts_kept rows rows"
  by (auto simp: receipts_kept_def)

lemma receipts_kept_trans: "receipts_kept a b \<Longrightarrow> receipts_kept b c \<Longrightarrow> receipts_kept a c"
  by (auto simp: receipts_kept_def)

lemma durable_refl [simp]: "durable db db"
  by (simp add: durable_def)

lemma durable_trans: "durable a b \<Longrightarrow> durable b c \<Longrightarrow> durable a c"
  unfolding durable_def by (meson prefix_order.trans receipts_kept_trans)

lemma log_ok_cong: "decision_log db' = decision_log db \<Longrightarrow> scheduler_seq db' = scheduler_seq db \<Longrightarrow> log_ok db' = log_ok db"
  by (simp add: log_ok_def)

lemma durables_durable: "durables db' = durables db \<Longrightarrow> durable db db'"
  using log_ok_cong[of db' db] by (simp add: durable_def durables_def)

lemma durable_foldE:
  assumes "foldE g xs db = Inr db'" and "\<And>x u v. g x u = Inr v \<Longrightarrow> durable u v"
  shows "durable db db'"
  by (rule foldE_invariant[OF assms(1)]) (auto intro: durable_trans assms(2))

lemma durables_foldE:
  assumes "foldE g xs db = Inr db'" and "\<And>x u v. g x u = Inr v \<Longrightarrow> durables v = durables u"
  shows "durables db' = durables db"
  by (rule foldE_invariant[OF assms(1)]) (auto dest: assms(2))

text \<open>An update that only touches open attempts, and leaves their digest alone, keeps the receipts.\<close>

lemma receipts_kept_open:
  assumes "\<And>a. p a \<Longrightarrow> a \<in> set rows \<Longrightarrow> open_attempt (at_state a)" and "\<And>a. at_digest (f a) = at_digest a"
  shows "receipts_kept rows (update_where p f rows)"
  using assms by (auto simp: receipts_kept_def receipts_ok_def update_where_def)

lemma receipts_kept_close:
  assumes "\<And>a. p a \<Longrightarrow> at_digest a = None" and "\<And>a. \<not> open_attempt (at_state (f a))"
  shows "receipts_kept rows (update_where p f rows)"
  using assms by (auto simp: receipts_kept_def receipts_ok_def update_where_def image_iff)

lemma receipts_kept_insert: "at_digest a = None \<Longrightarrow> receipts_kept rows (rows @ [a])"
  by (auto simp: receipts_kept_def receipts_ok_def)

lemma durable_attempts:
  assumes "durables (db'\<lparr>attempts := attempts db\<rparr>) = durables db" and "receipts_kept (attempts db) (attempts db')"
  shows "durable db db'"
  using assms log_ok_cong[of db' db] by (simp add: durable_def durables_def scheduler_seq_def)

subsection \<open>Operations that leave these tables alone\<close>

lemma scheduler_seq_simps [simp]:
  "scheduler_seq (db\<lparr>events := x1\<rparr>) = scheduler_seq db" "scheduler_seq (db\<lparr>tenant_limits := x2\<rparr>) = scheduler_seq db"
  "scheduler_seq (db\<lparr>queue_state := x3\<rparr>) = scheduler_seq db" "scheduler_seq (db\<lparr>jobs := x4\<rparr>) = scheduler_seq db"
  "scheduler_seq (db\<lparr>job_dependencies := x5\<rparr>) = scheduler_seq db" "scheduler_seq (db\<lparr>job_completions := x6\<rparr>) = scheduler_seq db"
  "scheduler_seq (db\<lparr>dead_letters := x7\<rparr>) = scheduler_seq db" "scheduler_seq (db\<lparr>dag_runs := x8\<rparr>) = scheduler_seq db"
  "scheduler_seq (db\<lparr>dag_jobs := x9\<rparr>) = scheduler_seq db" "scheduler_seq (db\<lparr>attempts := x10\<rparr>) = scheduler_seq db"
  "scheduler_seq (db\<lparr>idempotency_requests := x11\<rparr>) = scheduler_seq db" "scheduler_seq (db\<lparr>operation_requests := x12\<rparr>) = scheduler_seq db"
  "scheduler_seq (db\<lparr>audit_events := x13\<rparr>) = scheduler_seq db" "scheduler_seq (db\<lparr>cron_triggers := x14\<rparr>) = scheduler_seq db"
  "scheduler_seq (db\<lparr>cron_occurrences := x15\<rparr>) = scheduler_seq db" "scheduler_seq (db\<lparr>redis_deliveries := x16\<rparr>) = scheduler_seq db"
  "scheduler_seq (db\<lparr>workers := x17\<rparr>) = scheduler_seq db" "scheduler_seq (db\<lparr>decision_log := x18\<rparr>) = scheduler_seq db"
  by (simp_all add: scheduler_seq_def)

lemma scheduler_seq_other_counter:
  assumes "n \<noteq> ''scheduler_seq''" and "\<And>c. fst (f c) = fst c"
  shows "scheduler_seq (db\<lparr>counters := update_where (\<lambda>c. fst c = n) f (counters db)\<rparr>) = scheduler_seq db"
proof -
  have "lookup fst ''scheduler_seq'' (update_where (\<lambda>c. fst c = n) f (counters db)) = lookup fst ''scheduler_seq'' (counters db)"
    using assms lookup_Some_in[of fst "''scheduler_seq''" "counters db"]
    by (cases "lookup fst ''scheduler_seq'' (counters db)") (auto simp: lookup_update_where)
  then show ?thesis by (simp add: scheduler_seq_def)
qed

named_theorems durables_eq

lemma appendEvent_durables [durables_eq]: "appendEvent i t s n now p db = Inr db' \<Longrightarrow> durables db' = durables db"
  by (auto simp: appendEvent_def durables_def split: if_splits)

lemma appendActorEvent_durables [durables_eq]: "appendActorEvent i t s n now p db = Inr db' \<Longrightarrow> durables db' = durables db"
  by (simp add: appendActorEvent_def appendEvent_durables)

lemma nextReadySeq_durables [durables_eq]: "nextReadySeq db = Inr (n, db') \<Longrightarrow> durables db' = durables db"
  by (auto simp: nextReadySeq_def durables_def Let_def scheduler_seq_other_counter split: if_splits option.splits)

lemma ensureAdmission_durables [durables_eq]: "ensureAdmission s t n db = Inr db' \<Longrightarrow> durables db' = durables db"
  by (auto simp: ensureAdmission_def durables_def Let_def split: if_splits option.splits)

lemma ensureQueue_durables [durables_eq]: "ensureQueue t q now db = Inr db' \<Longrightarrow> durables db' = durables db"
  by (auto simp: ensureQueue_def durables_def Let_def split: if_splits option.splits)

lemma insertJob_durables [durables_eq]: "insertJob job db = Inr db' \<Longrightarrow> durables db' = durables db"
  by (auto simp: insertJob_def durables_def split: if_splits)

lemma insert_dependency_durables [durables_eq]: "insert_dependency m c p db = Inr db' \<Longrightarrow> durables db' = durables db"
  by (auto simp: insert_dependency_def durables_def split: if_splits)

lemma insertCanonicalCompletion_durables [durables_eq]:
  "insertCanonicalCompletion i st n k out fl now db = Inr db' \<Longrightarrow> durables db' = durables db"
  by (auto simp: insertCanonicalCompletion_def durables_def Let_def split: if_splits option.splits)

lemma insertDeadLetter_durables [durables_eq]: "insertDeadLetter i fl now db = Inr db' \<Longrightarrow> durables db' = durables db"
  by (auto simp: insertDeadLetter_def durables_def Let_def split: if_splits option.splits)

lemma releaseSlots_durables [durables_eq]: "releaseSlots t q c now db = Inr db' \<Longrightarrow> durables db' = durables db"
  by (auto simp: releaseSlots_def durables_def Let_def split: if_splits)

lemma reserveSlots_durables [durables_eq]: "reserveSlots t q c now db = Inr (b, db') \<Longrightarrow> durables db' = durables db"
  by (auto simp: reserveSlots_def durables_def Let_def split: if_splits)

lemma insert_dag_run_durables [durables_eq]: "insert_dag_run d t k g now db = Inr db' \<Longrightarrow> durables db' = durables db"
  by (auto simp: insert_dag_run_def durables_def split: if_splits)

lemma insert_dag_job_durables [durables_eq]: "insert_dag_job d n db = Inr db' \<Longrightarrow> durables db' = durables db"
  by (auto simp: insert_dag_job_def durables_def split: if_splits prod.splits)

lemma link_redrive_durables [durables_eq]: "link_redrive i c db = Inr db' \<Longrightarrow> durables db' = durables db"
  by (auto simp: link_redrive_def durables_def Let_def split: if_splits)

lemma attribute_admission_durables [durables_eq]: "attribute_admission a i db = Inr db' \<Longrightarrow> durables db' = durables db"
  by (auto simp: attribute_admission_def durables_def Let_def split: if_splits)

lemma update_jobs_durables [simp]: "durables (db\<lparr>jobs := x\<rparr>) = durables db"
  by (simp add: durables_def)

lemma insert_dependencies_durables [durables_eq]:
  "foldE (\<lambda>d. insert_dependency m i d) ds db = Inr db' \<Longrightarrow> durables db' = durables db"
  by (erule durables_foldE) (auto dest: durables_eq)

lemma dead_outcome_durables:
  "bindE (insertCanonicalCompletion i st n k out fl now db) (insertDeadLetter i fl' now) = Inr db' \<Longrightarrow> durables db' = durables db"
  by (auto simp: bindE_Inr_iff dest!: durables_eq)

lemma admit_job_durables [durables_eq]:
  assumes "admit_job s spec actor ent now db = Inr (job, db')"
  shows "durables db' = durables db"
  by (rule admit_job_Inr[OF assms]) (auto split: if_split_asm dest!: dead_outcome_durables durables_eq)

lemma insert_workflow_jobs_durables [durables_eq]:
  "insert_workflow_jobs t now xs db = Inr (js, db') \<Longrightarrow> durables db' = durables db"
proof (induction xs arbitrary: db js)
  case (Cons x xs)
  obtain i spec parents where x: "x = (i, spec, parents)" by (cases x) auto
  let ?at = "if s_available_at spec = zero_time then now else s_available_at spec"
  obtain db1 r db2 db3 js' where "ensureQueue t (s_queue spec) now db = Inr db1"
    "(if parents = [] \<and> ?at \<le> now then nextReadySeq db1 else Inr (0, db1)) = Inr (r, db2)"
    "insertJob (newJob i spec ?at r now) db2 = Inr db3" "insert_workflow_jobs t now xs db3 = Inr (js', db')"
    using Cons.prems by (auto simp: x bindE_Inr_iff Let_def)
  then show ?case using Cons.IH[of db3 js'] by (auto split: if_split_asm dest!: durables_eq)
qed simp

lemma admit_workflow_durables [durables_eq]:
  assumes "admit_workflow s sub t ent now db = Inr (js, db')"
  shows "durables db' = durables db"
proof -
  have edges: "foldE (\<lambda>(c, p). insert_dependency m c p) es u = Inr v \<Longrightarrow> durables v = durables u" for m es u v
    by (erule durables_foldE) (auto dest: durables_eq split: prod.splits)
  have events: "foldE (\<lambda>j. appendActorEvent (j_id j) ty (j_state j) (j_state_version j) now (pl j)) rows u = Inr v \<Longrightarrow> durables v = durables u"
    for ty pl rows u v by (erule durables_foldE) (auto dest: durables_eq)
  show ?thesis using assms unfolding admit_workflow_def by (auto simp: bindE_Inr_iff dest!: edges events durables_eq)
qed

lemma cloneJob_durables [durables_eq]: "cloneJob s original ent now db = Inr (job, db') \<Longrightarrow> durables db' = durables db"
  unfolding cloneJob_def Let_def by (auto simp: bindE_Inr_iff dest!: durables_eq)

lemma promote_job_durables [durables_eq]: "promote_job now job db = Inr db' \<Longrightarrow> durables db' = durables db"
  unfolding promote_job_def Let_def by (auto simp: bindE_Inr_iff split: if_split_asm dest!: durables_eq)

lemma activateChildren_durables [durables_eq]: "activateChildren p now db = Inr db' \<Longrightarrow> durables db' = durables db"
  unfolding activateChildren_def
  by (erule durables_foldE) (auto simp: activate_child_def Let_def bindE_Inr_iff split: if_split_asm dest!: durables_eq)

lemma failDescendants_durables [durables_eq]: "failDescendants p now db = Inr db' \<Longrightarrow> durables db' = durables db"
  unfolding failDescendants_def
  by (erule durables_foldE) (auto simp: fail_descendant_def Let_def bindE_Inr_iff split: if_split_asm dest!: durables_eq)

subsection \<open>Operations that append\<close>

lemma record_idempotency_durable: "record_idempotency m r db = Inr db' \<Longrightarrow> durable db db'"
  using log_ok_cong[of db' db] by (auto simp: record_idempotency_def durable_def insert_row_Some split: option.splits)

lemma insertControlActionWithEvent_durable: "insertControlActionWithEvent a e db = Inr db' \<Longrightarrow> durable db db'"
  using log_ok_cong[of db' db]
  by (auto simp: insertControlActionWithEvent_def durable_def insert_row_Some Let_def split: option.splits if_splits)

lemma insertControlAction_durable: "insertControlAction a db = Inr db' \<Longrightarrow> durable db db'"
  by (simp add: insertControlAction_def insertControlActionWithEvent_durable)

lemma durable_after: "durables db1 = durables db \<Longrightarrow> durable db1 db' \<Longrightarrow> durable db db'"
  using durable_trans durables_durable by blast

subsection \<open>Attempts\<close>

lemma attempts_update_durable: "receipts_kept (attempts db) rows \<Longrightarrow> durable db (db\<lparr>attempts := rows\<rparr>)"
  by (rule durable_attempts) simp_all

lemma insert_attempt_durable: "insert_attempt a db = Inr db' \<Longrightarrow> at_digest a = None \<Longrightarrow> durable db db'"
  by (auto simp: insert_attempt_def insert_row_Some split: if_splits option.splits intro: attempts_update_durable receipts_kept_insert)

lemma markRunningTx_durable:
  assumes "markRunningTx w ref now db = Inr db'" and "keys_ok db"
  shows "durable db db'"
proof -
  obtain a j where fa: "fenced_attempt db w ref = Some (a, j)" using assms(1) by (auto simp: markRunningTx_def split: option.splits)
  note fen = fenced_attempt_Some[OF fa]
  show ?thesis
  proof (cases "at_state a = AttemptRunning \<and> j_state j = StateRunning")
    case True
    then show ?thesis using assms fa by (auto simp: markRunningTx_def split: if_splits)
  next
    case False
    let ?rows = "update_where (\<lambda>r. attempt_key r = (r_job_id ref, r_attempt_no ref))
      (\<lambda>r. r\<lparr>at_state := AttemptRunning, at_started_at := Some (timeToDB now)\<rparr>) (attempts db)"
    have open_a: "at_state a = AttemptLeased" and d: "durables db' = durables (db\<lparr>attempts := ?rows\<rparr>)"
      using assms(1) fa False by (auto simp: markRunningTx_def Let_def split: if_split_asm dest!: durables_eq)
    have "open_attempt (at_state x)" if "attempt_key x = (r_job_id ref, r_attempt_no ref)" "x \<in> set (attempts db)" for x
      using lookup_distinct[of attempt_key "attempts db" x] assms(2) that fen open_a by (simp add: keys_ok_def open_attempt_def)
    then have "receipts_kept (attempts db) ?rows"
      by (intro receipts_kept_open) auto
    then show ?thesis using durable_trans[OF attempts_update_durable durables_durable[OF d]] by blast
  qed
qed

lemma mark_batch_durable: "mark_batch w refs now db = Inr (rs, db') \<Longrightarrow> db_inv db \<Longrightarrow> durable db db'"
proof (induction refs arbitrary: db rs)
  case (Cons ref refs)
  show ?case
  proof (cases "markRunningTx w ref now db")
    case (Inl e)
    then show ?thesis using Cons by (auto simp: bindE_Inr_iff split: if_splits)
  next
    case (Inr db1)
    have "durable db db1" using markRunningTx_durable[OF Inr] Cons.prems(2) by (simp add: db_inv_def)
    moreover have "db_inv db1" by (rule moves_inv[OF markRunningTx_moves[OF Cons.prems(2) Inr] Cons.prems(2)])
    ultimately show ?thesis
      using durable_trans Cons.IH Cons.prems(1) Inr by (fastforce simp: bindE_Inr_iff)
  qed
qed simp

lemma heartbeats_durable:
  assumes "foldE (heartbeat_one w now ttl) refs (rs, db) = Inr (rs', db')"
  shows "durable db db'"
proof -
  have step: "durable u v" if "heartbeat_one w now ttl ref (x, u) = Inr (y, v)" for ref x u y v
  proof -
    have v: "v = u\<lparr>attempts := update_where (beating u w ref now) (\<lambda>a. a\<lparr>at_heartbeat_at := timeToDB now,
        at_expires_at := max (at_expires_at a) (timeToDB (now + ttl))\<rparr>) (attempts u)\<rparr>"
      using that by (auto simp: heartbeat_one_def Let_def split: if_splits option.splits)
    show ?thesis unfolding v by (intro attempts_update_durable receipts_kept_open) (auto simp: beating_def)
  qed
  have "(\<lambda>(_, u). durable db u) (rs', db')"
    by (rule foldE_invariant[OF assms]) (auto intro: durable_trans step)
  then show ?thesis by simp
qed

lemma outcome_durables:
  assumes "(if st \<noteq> StateRetrying then bindE (insertCanonicalCompletion i st n k out fl now db) (\<lambda>db3.
      if st = StateDeadLetter then insertDeadLetter i fl now db3 else Inr db3) else Inr db) = Inr db'"
  shows "durables db' = durables db"
  using assms by (auto simp: bindE_Inr_iff split: if_split_asm dest!: durables_eq)

lemma close_attempt_durable: "\<not> open_attempt ast \<Longrightarrow> durable db (close_attempt c ast st n now db)"
  unfolding close_attempt_def by (intro attempts_update_durable receipts_kept_close) auto

lemma commit_completion_Inr:
  assumes run: "commit_completion c j now db = Inr (r, db')"
  obtains st ast av db4 where "completion_plan c (j_retry j) now = Inr (st, ast, av)" and "durables db4 = durables db"
    and "durables db' = durables (close_attempt c ast st (j_state_version j + 1) now db4)"
    and "r = \<lparr>cr_job_id = r_job_id c, cr_state = st, cr_state_version = j_state_version j + 1, cr_committed_at = now, cr_duplicate = False\<rparr>"
proof -
  obtain st ast av where plan: "completion_plan c (j_retry j) now = Inr (st, ast, av)"
    using run by (auto simp: commit_completion_def bindE_Inr_iff)
  obtain g db2 db4 ty pl db6 where
    1: "releaseSlots (j_tenant j) (j_queue j) (j_slot_cost j) now (db\<lparr>jobs := g\<rparr>) = Inr db2"
    and 2: "(if st \<noteq> StateRetrying then bindE (insertCanonicalCompletion (r_job_id c) st (j_state_version j + 1) (r_attempt_no c) (c_output_digest c) (completion_failure c) now db2) (\<lambda>db3.
      if st = StateDeadLetter then insertDeadLetter (r_job_id c) (completion_failure c) now db3 else Inr db3) else Inr db2) = Inr db4"
    and 3: "appendEvent (r_job_id c) ty st (j_state_version j + 1) now pl (close_attempt c ast st (j_state_version j + 1) now db4) = Inr db6"
    and 4: "(if st = StateSucceeded then activateChildren (r_job_id c) now db6
       else if st \<noteq> StateRetrying then failDescendants (r_job_id c) now db6 else Inr db6) = Inr db'"
    and r: "r = \<lparr>cr_job_id = r_job_id c, cr_state = st, cr_state_version = j_state_version j + 1, cr_committed_at = now, cr_duplicate = False\<rparr>"
    using run unfolding commit_completion_def plan by (auto simp: bindE_Inr_iff Let_def split: if_split_asm)
  have "durables db2 = durables db" using 1 by (auto dest!: durables_eq)
  then have "durables db4 = durables db" using outcome_durables[OF 2] by simp
  moreover have "durables db6 = durables (close_attempt c ast st (j_state_version j + 1) now db4)" using 3 by (auto dest: durables_eq)
  moreover have "durables db' = durables db6" using 4 by (auto split: if_split_asm dest!: durables_eq)
  ultimately show ?thesis using that plan r by simp
qed

lemma commit_completion_durable:
  assumes run: "commit_completion c j now db = Inr (r, db')"
  shows "durable db db'"
proof -
  obtain st ast av db4 where plan: "completion_plan c (j_retry j) now = Inr (st, ast, av)" and db4: "durables db4 = durables db"
    and db': "durables db' = durables (close_attempt c ast st (j_state_version j + 1) now db4)"
    by (rule commit_completion_Inr[OF run])
  have "durable db4 (close_attempt c ast st (j_state_version j + 1) now db4)"
    by (rule close_attempt_durable) (use completion_plan_cases[OF plan] in simp)
  then show ?thesis using db4 db' by (metis durable_after durable_trans durables_durable)
qed

lemma applyCompletionTx_durable: "applyCompletionTx c now db = Inr (r, db') \<Longrightarrow> durable db db'"
  by (auto simp: applyCompletionTx_def split: option.split_asm if_split_asm dest!: commit_completion_durable)

lemma complete_batch_durable: "complete_batch cs now db = Inr (rs, db') \<Longrightarrow> durable db db'"
proof (induction cs arbitrary: db rs)
  case (Cons c cs)
  then show ?case
    by (auto simp: bindE_Inr_iff split: sum.split_asm if_split_asm prod.split_asm intro: durable_trans dest!: applyCompletionTx_durable)
qed simp

lemma reapAttempt_durable:
  assumes "reapAttempt now a db = Inr db'"
  shows "durable db db'"
proof -
  have "durable db (db\<lparr>attempts := expire_attempt_rows now a (attempts db)\<rparr>)"
    unfolding expire_attempt_rows_def by (intro attempts_update_durable receipts_kept_open) auto
  moreover have "durables db' = durables (db\<lparr>attempts := expire_attempt_rows now a (attempts db)\<rparr>)"
    using assms unfolding reapAttempt_def Let_def by (auto simp: bindE_Inr_iff split: if_split_asm dest!: durables_eq)
  ultimately show ?thesis using durable_trans durables_durable by blast
qed

lemma fence_attempts_durable: "fence_attempts c n now db = Inr db' \<Longrightarrow> durable db db'"
  by (auto simp: fence_attempts_def Let_def split: if_splits intro!: attempts_update_durable receipts_kept_open)

lemma control_job_durable:
  assumes run: "control_job c j now db = Inr db'"
  shows "durable db db'"
proof -
  obtain db1 where f: "(if active_state (j_state j) then bindE (fence_attempts c (j_attempt_no j) now db)
       (releaseSlots (j_tenant j) (j_queue j) (j_slot_cost j) now) else Inr db) = Inr db1"
    using run by (auto simp: control_job_def Let_def bindE_Inr_iff)
  have "durable db db1"
    using f by (auto simp: bindE_Inr_iff split: if_split_asm dest!: fence_attempts_durable releaseSlots_durables intro: durable_trans durables_durable)
  moreover have "durables db' = durables db1"
    using run f unfolding control_job_def Let_def
    by (cases "jc_release c") (auto simp: bindE_Inr_iff split: if_split_asm dest!: durables_eq)
  ultimately show ?thesis using durable_trans durables_durable by blast
qed

section \<open>Transactions\<close>

lemma ApplyJobControl_durable:
  assumes "ApplyJobControl_tx c now db = Inr (r, db')"
  shows "durable db db'"
proof -
  obtain j stored where j: "lookup j_id (jc_job c) (jobs db) = Some j"
    and st: "readControlAction db (j_tenant j) (jc_key c) (jc_audit_action c) (jc_digest c) = Inr stored"
    using assms unfolding ApplyJobControl_tx_def by (auto simp: bindE_Inr_iff split: option.split_asm)
  show ?thesis
  proof (cases stored)
    case None
    then show ?thesis
      using assms j st by (auto simp: ApplyJobControl_tx_def bindE_Inr_iff Let_def split: if_split_asm
        dest!: control_job_durable insertControlAction_durable intro: durable_trans)
  next
    case (Some x)
    then show ?thesis using assms j st by (cases x) (auto simp: ApplyJobControl_tx_def)
  qed
qed

text \<open>The operations that answer a stored response, or else do their work and record the response.\<close>

lemma RedriveDeadLetter_durable:
  assumes run: "RedriveDeadLetter_tx s actor i key digest ent now db = Inr (r, db')"
  shows "durable db db'"
proof -
  obtain row dl stored where rows: "lookup j_id i (jobs db) = Some row" "lookup dl_job i (dead_letters db) = Some dl"
    and st: "readControlAction db (j_tenant (scanJob row)) key ''dead_letter.redrive'' digest = Inr stored"
    using run unfolding RedriveDeadLetter_tx_def Let_def by (auto simp: bindE_Inr_iff split: option.split_asm)
  show ?thesis
  proof (cases stored)
    case None
    then show ?thesis using run rows st unfolding RedriveDeadLetter_tx_def Let_def
      by (auto simp: bindE_Inr_iff split: if_split_asm intro: durable_after dest!: insertControlAction_durable durables_eq)
  next
    case (Some x)
    then show ?thesis using run rows st by (cases x) (auto simp: RedriveDeadLetter_tx_def)
  qed
qed

lemma RedriveDeadLetterControl_durable:
  assumes run: "RedriveDeadLetterControl_tx s c ent now db = Inr (r, db')"
  shows "durable db db'"
proof -
  obtain row dl stored where rows: "lookup j_id (rc_job c) (jobs db) = Some row" "lookup dl_job (rc_job c) (dead_letters db) = Some dl"
    and st: "readControlAction db (j_tenant (scanJob row)) (rc_key c) ''dead_letter.redrive'' (rc_digest c) = Inr stored"
    using run unfolding RedriveDeadLetterControl_tx_def Let_def by (auto simp: bindE_Inr_iff split: option.split_asm)
  show ?thesis
  proof (cases stored)
    case None
    then show ?thesis using run rows st unfolding RedriveDeadLetterControl_tx_def Let_def
      by (auto simp: bindE_Inr_iff split: if_split_asm intro: durable_after dest!: insertControlAction_durable durables_eq)
  next
    case (Some x)
    then show ?thesis using run rows st by (cases x) (auto simp: RedriveDeadLetterControl_tx_def)
  qed
qed

lemma RetryJobControl_durable:
  assumes run: "RetryJobControl_tx s c ent now db = Inr (r, db')"
  shows "durable db db'"
proof -
  obtain row stored where rows: "lookup j_id (rc_job c) (jobs db) = Some row"
    and st: "readControlAction db (j_tenant (scanJob row)) (rc_key c) ''job.retry'' (rc_digest c) = Inr stored"
    using run unfolding RetryJobControl_tx_def Let_def by (auto simp: bindE_Inr_iff split: option.split_asm)
  show ?thesis
  proof (cases stored)
    case None
    then show ?thesis using run rows st unfolding RetryJobControl_tx_def Let_def
      by (auto simp: bindE_Inr_iff split: if_split_asm intro: durable_after dest!: insertControlAction_durable durables_eq)
  next
    case (Some x)
    then show ?thesis using run rows st by (cases x) (auto simp: RetryJobControl_tx_def)
  qed
qed

lemma SubmitJob_durable:
  assumes run: "SubmitJob_tx s sub ent now db = Inr (r, db')"
  shows "durable db db'"
proof -
  obtain found where fd: "readIdempotency db (s_tenant (Normalize (sub_job sub))) (sub_key sub) ''job'' (sub_digest sub) = Inr found"
      "validateIdempotency (sub_key sub) (sub_digest sub) = Inr ()"
    using run unfolding SubmitJob_tx_def Let_def by (auto simp: bindE_Inr_iff)
  show ?thesis
  proof (cases found)
    case None
    then show ?thesis using run fd unfolding SubmitJob_tx_def Let_def
      by (auto simp: bindE_Inr_iff intro: durable_after dest!: record_idempotency_durable durables_eq)
  next
    case (Some x)
    then show ?thesis using run fd by (cases x) (auto simp: SubmitJob_tx_def)
  qed
qed

lemma SubmitJobOperation_durable:
  assumes run: "SubmitJobOperation_tx s c ent now db = Inr (r, db')"
  shows "durable db db'"
proof -
  obtain found where fd: "readControlAction db (s_tenant (Normalize (sj_job c))) (sj_key c) ''job.submit'' (sj_digest c) = Inr found"
      "validateIdempotency (sj_key c) (sj_digest c) = Inr ()"
    using run unfolding SubmitJobOperation_tx_def Let_def by (auto simp: bindE_Inr_iff)
  show ?thesis
  proof (cases found)
    case None
    then show ?thesis using run fd unfolding SubmitJobOperation_tx_def Let_def
      by (auto simp: bindE_Inr_iff intro: durable_after dest!: insertControlAction_durable durables_eq)
  next
    case (Some x)
    then show ?thesis using run fd by (cases x) (auto simp: SubmitJobOperation_tx_def)
  qed
qed

lemma SubmitWorkflow_durable:
  assumes run: "SubmitWorkflow_tx s sub ent now db = Inr (r, db')"
  shows "durable db db'"
proof -
  define t where "t = (if ws_tenant sub = '''' then ''default'' else ws_tenant sub)"
  note run' = run[unfolded SubmitWorkflow_tx_def Let_def t_def[symmetric]]
  obtain found where fd: "readIdempotency db t (ws_key sub) ''workflow'' (ws_digest sub) = Inr found"
      "validateIdempotency (ws_key sub) (ws_digest sub) = Inr ()"
    using run' by (auto simp: bindE_Inr_iff)
  show ?thesis
  proof (cases found)
    case None
    then show ?thesis using run' fd
      by (auto simp: bindE_Inr_iff intro: durable_after dest!: record_idempotency_durable durables_eq)
  next
    case (Some x)
    then show ?thesis using run' fd by (cases x) auto
  qed
qed

lemma insert_dag_jobs_durables [durables_eq]: "foldE (insert_dag_job d) ns db = Inr db' \<Longrightarrow> durables db' = durables db"
  by (erule durables_foldE) (rule insert_dag_job_durables)

lemma SubmitDAGOperation_durable:
  assumes run: "SubmitDAGOperation_tx s d c ent now db = Inr (r, db')"
  shows "durable db db'"
proof -
  define t where "t = (if ws_tenant c = '''' then ''default'' else ws_tenant c)"
  note run' = run[unfolded SubmitDAGOperation_tx_def Let_def t_def[symmetric]]
  obtain found where fd: "readControlAction db t (ws_key c) ''dag.submit'' (ws_digest c) = Inr found"
      "validateIdempotency (ws_key c) (ws_digest c) = Inr ()"
    using run' by (auto simp: bindE_Inr_iff)
  show ?thesis
  proof (cases found)
    case None
    then show ?thesis using run' fd
      by (auto simp: bindE_Inr_iff intro: durable_after dest!: insertControlAction_durable durables_eq)
  next
    case (Some x)
    then show ?thesis using run' fd by (cases x) auto
  qed
qed

lemma SaveDAG_durable: "SaveDAG_tx d t k g ns now db = Inr (r, db') \<Longrightarrow> durable db db'"
  by (rule durables_durable) (auto simp: SaveDAG_tx_def bindE_Inr_iff split: option.splits if_splits dest!: durables_eq)

lemma CreateCronTrigger_durable:
  assumes run: "CreateCronTrigger_tx parse s sub ent now db = Inr (r, db')"
  shows "durable db db'"
proof -
  define v where "v = (if t_tenant (cs_trigger sub) = '''' then (cs_trigger sub)\<lparr>t_tenant := ''default''\<rparr> else cs_trigger sub)"
  define w where "w = v\<lparr>t_job := Normalize ((t_job v)\<lparr>s_tenant := t_tenant v\<rparr>)\<rparr>"
  note run' = run[unfolded CreateCronTrigger_tx_def Let_def v_def[symmetric] w_def[symmetric]]
  obtain found schedule where fd: "readIdempotency db (t_tenant w) (cs_key sub) ''cron'' (cs_digest sub) = Inr found"
      "JobSpec_Validate (t_job w) (s_max_slot_cost s) (s_allow_shell s) = Inr ()" "ParseCron parse (t_expression w) = Inr schedule"
      "validateIdempotency (cs_key sub) (cs_digest sub) = Inr ()"
    using run' by (auto simp: bindE_Inr_iff)
  show ?thesis
  proof (cases found)
    case None
    have cron: "durables (db\<lparr>cron_triggers := rows\<rparr>) = durables db" for rows by (simp add: durables_def)
    show ?thesis using None run' fd
      by (auto simp: bindE_Inr_iff split: option.split_asm intro: durable_after[OF cron] dest!: record_idempotency_durable)
  next
    case (Some x)
    then show ?thesis using run' fd by (cases x) auto
  qed
qed

lemma record_occurrence_durables: "record_occurrence v i t now db = Inr db' \<Longrightarrow> durables db' = durables db"
  by (auto simp: record_occurrence_def durables_def Let_def split: option.splits if_splits)

lemma record_delivery_durables: "record_delivery d i now db = Inr db' \<Longrightarrow> durables db' = durables db"
  by (auto simp: record_delivery_def durables_def Let_def split: option.splits if_splits)

lemma RegisterWorker_durable: "RegisterWorker_tx w c now db = Inr (u, db') \<Longrightarrow> durable db db'"
  by (rule durables_durable) (auto simp: RegisterWorker_tx_def durables_def split: option.splits if_splits)

subsection \<open>The decision log\<close>

lemma chained_sequences: "chained h n rs \<Longrightarrow> sorted (map rec_sequence rs)"
proof (induction rs arbitrary: h n)
  case (Cons r rs)
  have "n + 1 \<le> rec_sequence x" if "x \<in> set rs" for x
  proof -
    obtain i where "i < length rs" "rs ! i = x" using \<open>x \<in> set rs\<close> by (auto simp: in_set_conv_nth)
    then show ?thesis using Cons.prems chained_nth[of "rec_hash r" "n + 1" rs] by auto
  qed
  then show ?case using Cons by auto
qed simp

lemma decision_head_hash: "log_ok db \<Longrightarrow> decision_head db = head_hash [] (map dr_record (decision_log db))"
proof -
  assume ok: "log_ok db"
  have eq: "map dr_sequence (decision_log db) = map rec_sequence (map dr_record (decision_log db))" using ok by (simp add: log_ok_def)
  have c: "chained [] 0 (map dr_record (decision_log db))" using ok by (simp add: log_ok_def)
  have "sorted (map dr_sequence (decision_log db))" unfolding eq by (rule chained_sequences[OF c])
  then have sort: "sort_key dr_sequence (decision_log db) = decision_log db" by (rule sort_key_id_if_sorted)
  show ?thesis
  proof (cases "decision_log db" rule: rev_cases)
    case (snoc rows r)
    then have "dr_hash r = rec_hash (dr_record r)" using ok by (simp add: log_ok_def)
    moreover have "decision_head db = dr_hash (last (sort_key dr_sequence (decision_log db)))"
      using snoc by (simp add: decision_head_def split: list.split)
    ultimately show ?thesis unfolding sort using snoc by simp
  qed (simp add: decision_head_def)
qed

lemma decision_head_cong: "decision_log a = decision_log b \<Longrightarrow> decision_head a = decision_head b"
  by (metis decision_head_def)

lemma nextCounter_seq:
  assumes "nextCounter ''scheduler_seq'' db = Inr (n, db')"
  shows "scheduler_seq db = Some (n - 1) \<and> scheduler_seq db' = Some n \<and> durables (db'\<lparr>counters := counters db\<rparr>) = durables db"
proof -
  let ?cs = "update_where (\<lambda>c. fst c = ''scheduler_seq'') (\<lambda>c. (fst c, snd c + 1)) (counters db)"
  have run: "map_option snd (lookup fst ''scheduler_seq'' ?cs) = Some n" "db' = db\<lparr>counters := ?cs\<rparr>"
    using assms by (auto simp: nextCounter_def readCounter_def bindE_Inr_iff Let_def split: option.splits)
  then obtain c where c: "lookup fst ''scheduler_seq'' (counters db) = Some c"
    by (cases "lookup fst ''scheduler_seq'' (counters db)") (auto simp: lookup_update_where)
  then have "lookup fst ''scheduler_seq'' ?cs = Some (fst c, snd c + 1)"
    using lookup_Some_in[OF c] by (simp add: lookup_update_where)
  then show ?thesis using run c by (auto simp: scheduler_seq_def durables_def)
qed

lemma persist_queues_durables: "durables (fold (persist_queue now) qs db) = durables db"
proof (induction qs arbitrary: db)
  case (Cons q qs)
  have "durables (persist_queue now q db) = durables db" by (simp add: persist_queue_def durables_def)
  then show ?case using Cons.IH[of "persist_queue now q db"] by simp
qed simp

lemma setCounter_durables: "setCounter n v db = Inr db' \<Longrightarrow> n \<noteq> ''scheduler_seq'' \<Longrightarrow> durables db' = durables db"
  by (auto simp: setCounter_def durables_def Let_def scheduler_seq_other_counter split: if_splits)

lemma lease_grant_durable:
  assumes "lease_grant plan w now ttl g (ls, ent, db) = Inr (ls', ent', db')"
  shows "receipts_kept (attempts db) (attempts db') \<and> durables (db'\<lparr>attempts := attempts db\<rparr>) = durables db"
proof -
  obtain c b db1 tok g' db3 where 1: "reserveSlots (lc_tenant c) (lc_queue c) (lc_slot_cost c) now db = Inr (b, db1)"
    and 3: "insert_attempt (new_attempt c w tok now (now + ttl)) (db1\<lparr>jobs := g'\<rparr>) = Inr db3"
    and 4: "durables db' = durables db3"
    using assms unfolding lease_grant_def Let_def
    by (auto simp: bindE_Inr_iff split: option.split_asm if_split_asm sum.split_asm prod.split_asm dest!: appendEvent_durables)
  have "durables db1 = durables db" using 1 by (auto dest: durables_eq)
  moreover have "db3 = db1\<lparr>jobs := g', attempts := attempts db1 @ [new_attempt c w tok now (now + ttl)]\<rparr>"
    using 3 by (auto simp: insert_attempt_def insert_row_Some split: if_splits option.splits)
  moreover have "at_digest (new_attempt c w tok now (now + ttl)) = None" by (simp add: new_attempt_def)
  ultimately show ?thesis
    using 4 receipts_kept_insert[of "new_attempt c w tok now (now + ttl)" "attempts db"] by (auto simp: durables_def)
qed

lemma lease_grants_durable:
  assumes "foldE (lease_grant plan w now ttl) gs (ls, ent, db) = Inr (ls', ent', db')"
  shows "receipts_kept (attempts db) (attempts db') \<and> durables (db'\<lparr>attempts := attempts db\<rparr>) = durables db"
proof -
  have "(\<lambda>(_, _, u). receipts_kept (attempts db) (attempts u) \<and> durables (u\<lparr>attempts := attempts db\<rparr>) = durables db) (ls', ent', db')"
    by (rule foldE_invariant[OF assms])
      (auto simp: durables_def dest!: lease_grant_durable intro: receipts_kept_trans)
  then show ?thesis by simp
qed

lemma buildSchedulePlan_seq:
  assumes "buildSchedulePlan now slots limit reserve db = Inr (plan, db')" and "sp_candidates plan \<noteq> []"
  shows "scheduler_seq db = Some (sn_sequence (sp_input plan) - 1) \<and> Decide (sp_input plan) = Inr (sp_decision plan) \<and>
    scheduler_seq db' = Some (sn_sequence (sp_input plan)) \<and>
    durables (db'\<lparr>counters := counters db\<rparr>) = durables db"
  using assms(1,2) nextCounter_seq
  by (fastforce simp: buildSchedulePlan_def Let_def bindE_Inr_iff empty_plan_def split: if_split_asm)

lemma persistSchedulePlan_log:
  assumes per: "persistSchedulePlan plan now db = Inr db'" and dec: "Decide (sp_input plan) = Inr (sp_decision plan)"
    and log: "log_ok (db0 :: db)" "decision_log db = decision_log db0" "scheduler_seq db = Some (int (length (decision_log db)) + 1)"
      "sn_sequence (sp_input plan) = int (length (decision_log db)) + 1"
  shows "log_ok db' \<and> (\<exists>r. decision_log db' = decision_log db @ [r]) \<and> attempts db' = attempts db \<and>
    idempotency_requests db' = idempotency_requests db \<and> operation_requests db' = operation_requests db"
proof -
  obtain db2 rec where 1: "setCounter ''scheduler_cursor'' (de_next_cursor (sp_decision plan))
        (fold (persist_queue now) (de_queues (sp_decision plan)) db) = Inr db2"
    and 2: "NewRecord (decision_head db2) (sp_input plan) (sp_decision plan) = Inr rec"
    and 3: "db' = db2\<lparr>decision_log := decision_log db2 @ [\<lparr>dr_sequence = rec_sequence rec, dr_previous_hash = rec_previous_hash rec,
        dr_hash = rec_hash rec, dr_record = rec, dr_created_at = timeToDB now\<rparr>]\<rparr>"
    using per by (auto simp: persistSchedulePlan_def Let_def bindE_Inr_iff split: if_split_asm)
  have d: "durables db2 = durables db"
    using setCounter_durables[OF 1] persist_queues_durables[of now "de_queues (sp_decision plan)" db] by simp
  have head: "decision_head db2 = head_hash [] (map dr_record (decision_log db2))"
    using decision_head_hash[OF log(1)] decision_head_cong[of db2 db0] d log(2) by (simp add: durables_def)
  note rec = NewRecord_Inr[OF 2]
  have "chained [] 0 (map dr_record (decision_log db2) @ [rec])"
    using log d rec head by (simp add: chained_snoc log_ok_def durables_def)
  moreover have "Decide (rec_input rec) = Inr (rec_decision rec)" using dec rec by simp
  ultimately show ?thesis
    using d log by (auto simp: 3 log_ok_def durables_def)
qed

lemma acquire_tx_durable:
  assumes run: "acquire_tx w slots limit ttl reserve ent now db = Inr (ls, db')"
  shows "durable db db'"
proof -
  obtain plan db1 where plan: "buildSchedulePlan now slots limit reserve db = Inr (plan, db1)"
    using run by (auto simp: acquire_tx_def bindE_Inr_iff)
  show ?thesis
  proof (cases "sp_candidates plan = []")
    case True
    then show ?thesis using run plan by (simp add: acquire_tx_def)
  next
    case False
    note b = buildSchedulePlan_seq[OF plan False]
    obtain ent' db2 where fold: "foldE (lease_grant plan w now ttl) (de_grants (sp_decision plan)) ([], ent, db1) = Inr (ls, ent', db2)"
      and per: "persistSchedulePlan plan now db2 = Inr db'"
      using run plan False by (auto simp: acquire_tx_def bindE_Inr_iff)
    note g = lease_grants_durable[OF fold]
    have log: "log_ok db' \<and> (\<exists>r. decision_log db' = decision_log db @ [r])" if ok: "log_ok db"
      using persistSchedulePlan_log[OF per _ ok] b g ok by (simp add: log_ok_def durables_def)
    obtain db2' rec where "setCounter ''scheduler_cursor'' (de_next_cursor (sp_decision plan))
        (fold (persist_queue now) (de_queues (sp_decision plan)) db2) = Inr db2'"
      "db' = db2'\<lparr>decision_log := rec\<rparr>"
      using per by (auto simp: persistSchedulePlan_def Let_def bindE_Inr_iff split: if_split_asm)
    then have "attempts db' = attempts db2" "idempotency_requests db' = idempotency_requests db2" "operation_requests db' = operation_requests db2"
      using setCounter_durables persist_queues_durables[of now "de_queues (sp_decision plan)" db2] by (fastforce simp: durables_def)+
    then show ?thesis using log b g by (auto simp: durable_def durables_def)
  qed
qed

section \<open>The store\<close>

lemma transact_durable:
  assumes "\<And>now x db'. body now (s_db s) = Inr (x, db') \<Longrightarrow> durable (s_db s) db'"
  shows "durable (s_db s) (s_db (snd (transact body r el s)))"
  by (cases rule: transact_cases[of body s r el]) (auto simp: writeTime_facts intro: assms)

lemma SubmitJob_run_durable: "durable (s_db s) (s_db (snd (SubmitJob sub ent t e s)))"
  unfolding SubmitJob_def by (rule transact_durable) (rule SubmitJob_durable)

lemma fire_due_durable: "durable (s_db s) (s_db (snd (fire_due parse now ent elapsed i rows ids s)))"
proof (induction parse now ent elapsed i rows ids s rule: fire_due.induct)
  case (2 parse now ent elapsed i row rest ids s)
  define key where "key = CronOccurrenceKey (cr_id row) (timeFromDB (cr_next_fire_at row))"
  define sub where "sub = \<lparr>sub_job = cr_job row, sub_actor = (if cr_actor row = '''' then ''system'' else cr_actor row),
    sub_key = key, sub_digest = sha256_hex key\<rparr>"
  obtain x s1 where run: "SubmitJob sub (ent i) now (elapsed i) s = (x, s1)" by (cases "SubmitJob sub (ent i) now (elapsed i) s") auto
  have s1: "durable (s_db s) (s_db s1)" using SubmitJob_run_durable[of s sub "ent i" now "elapsed i"] by (simp add: run)
  show ?case
  proof (cases x)
    case (Inr y)
    then obtain job dup where y: "x = Inr (job, dup)" by (cases y) auto
    show ?thesis
    proof (cases "ParseCron parse (cr_expression row)")
      case (Inr schedule)
      show ?thesis
      proof (cases "record_occurrence row (j_id job) (schedule now) now (s_db s1)")
        case rec: (Inr db')
        have "durable (s_db s) db'"
          using durable_trans[OF s1 durables_durable[OF record_occurrence_durables[OF rec]]] .
        then show ?thesis
          using "2.IH"[OF key_def sub_def run[symmetric] y refl Inr rec] durable_trans run y Inr rec
          by (fastforce simp: Let_def key_def[symmetric] sub_def[symmetric])
      qed (use s1 run y Inr in \<open>auto simp: Let_def key_def[symmetric] sub_def[symmetric]\<close>)
    qed (use s1 run y in \<open>auto simp: Let_def key_def[symmetric] sub_def[symmetric]\<close>)
  qed (use s1 run in \<open>auto simp: Let_def key_def[symmetric] sub_def[symmetric]\<close>)
qed simp

lemma deliver_durable: "durable (s_db s) (s_db (snd (DeliverRedis d spec g ent now el s)))"
proof -
  define sub where "sub = \<lparr>sub_job = spec, sub_actor = ''system'', sub_key = IdempotencyKey d, sub_digest = g\<rparr>"
  obtain x s1 where run: "SubmitJob sub ent now el s = (x, s1)" by (cases "SubmitJob sub ent now el s") auto
  have s1: "durable (s_db s) (s_db s1)" using SubmitJob_run_durable[of s sub ent now el] by (simp add: run)
  show ?thesis
    using s1 run durable_trans[OF s1 durables_durable[OF record_delivery_durables]]
    by (auto simp: DeliverRedis_def sub_def[symmetric] split: sum.split)
qed

lemma counted_durable:
  assumes "durable (s_db s) (s_db (snd (transact body r el s)))" and "\<And>s'. s_db (f s') = s_db s'"
  shows "durable (s_db s) (s_db (snd (case transact body r el s of (Inl e, s') \<Rightarrow> (Inl e, s') | (Inr x, s') \<Rightarrow> (Inr x, f s'))))"
  using assms by (cases "transact body r el s") (auto split: sum.split)

lemma record_operator_durable: "durable (s_db s) (s_db (snd (RecordOperatorAction a e s)))"
  unfolding RecordOperatorAction_def Let_def
proof (rule transact_durable)
  fix now x db'
  let ?a = "default_tenant (a\<lparr>ct_committed_at := now\<rparr>)"
  assume run: "bindE (readControlAction (s_db s) (ct_tenant ?a) (ct_key ?a) (ct_action ?a) (ct_digest ?a)) (\<lambda>stored.
       case stored of Some (OpEvent e) \<Rightarrow> Inr ((e, True), s_db s)
       | Some _ \<Rightarrow> Inl (ErrNew ''decode operator action response: %w'')
       | None \<Rightarrow> bindE (insertControlActionWithEvent (?a\<lparr>ct_response := OpEvent (newAuditEvent ?a)\<rparr>) (newAuditEvent ?a) (s_db s))
                   (\<lambda>db'. Inr ((newAuditEvent ?a, False), db'))) = Inr (x, db')"
  then obtain st where st: "readControlAction (s_db s) (ct_tenant ?a) (ct_key ?a) (ct_action ?a) (ct_digest ?a) = Inr st"
    by (auto simp: bindE_Inr_iff)
  show "durable (s_db s) db'"
  proof (cases st)
    case None
    then show ?thesis using run st by (auto simp: bindE_Inr_iff dest!: insertControlActionWithEvent_durable)
  next
    case (Some y)
    then show ?thesis using run st by (cases y) auto
  qed
qed

lemma promote_durable: "durable (s_db s) (s_db (snd (PromoteDue t limit e s)))"
proof -
  have "foldE (promote_job now) xs u = Inr v \<Longrightarrow> durable u v" for now xs u v
    by (rule durable_foldE) (auto intro: durables_durable dest: durables_eq)
  then show ?thesis by (auto simp: PromoteDue_def Let_def bindE_Inr_iff intro!: transact_durable)
qed

lemma reap_durable: "durable (s_db s) (s_db (snd (ReapExpired t limit e s)))"
proof -
  have "foldE (reapAttempt now) xs u = Inr v \<Longrightarrow> durable u v" for now xs u v
    by (rule durable_foldE) (auto intro: reapAttempt_durable)
  then show ?thesis by (auto simp: ReapExpired_def ReapExpired_tx_def Let_def bindE_Inr_iff intro!: transact_durable)
qed

lemma attempt_ops_durable:
  assumes "db_inv (s_db s)"
  shows "durable (s_db s) (s_db (snd (acquire w slots limit t ttl reserve ent e s)))"
    and "durable (s_db s) (s_db (snd (MarkRunning w ref t e s)))"
    and "durable (s_db s) (s_db (snd (MarkRunningBatch w refs t e s)))"
    and "durable (s_db s) (s_db (snd (Heartbeat w refs t ttl e s)))"
    and "durable (s_db s) (s_db (snd (Complete c t e s)))"
    and "durable (s_db s) (s_db (snd (CompleteBatch cs t e s)))"
proof -
  have "keys_ok (s_db s)" using assms by (simp add: db_inv_def)
  then show "durable (s_db s) (s_db (snd (MarkRunning w ref t e s)))"
    unfolding MarkRunning_def by (intro counted_durable transact_durable) (auto simp: bindE_Inr_iff intro: markRunningTx_durable)
  show "durable (s_db s) (s_db (snd (MarkRunningBatch w refs t e s)))"
    using assms unfolding MarkRunningBatch_def by (auto intro!: counted_durable transact_durable intro: mark_batch_durable)
  show "durable (s_db s) (s_db (snd (acquire w slots limit t ttl reserve ent e s)))"
    unfolding acquire_def by (auto intro!: transact_durable intro: acquire_tx_durable)
  show "durable (s_db s) (s_db (snd (Heartbeat w refs t ttl e s)))"
    unfolding Heartbeat_def by (auto intro!: transact_durable intro: heartbeats_durable)
  show "durable (s_db s) (s_db (snd (Complete c t e s)))"
    unfolding Complete_def by (intro counted_durable transact_durable) (auto intro: applyCompletionTx_durable)
  show "durable (s_db s) (s_db (snd (CompleteBatch cs t e s)))"
    unfolding CompleteBatch_def by (auto intro!: counted_durable transact_durable intro: complete_batch_durable)
qed

lemma durable_workers: "durable db (db\<lparr>workers := rows\<rparr>)"
  by (rule durables_durable) (simp add: durables_def)

lemma operator_ops_durable:
  "durable (s_db s) (s_db (snd (SubmitWorkflow wsub ent t e s)))"
  "durable (s_db s) (s_db (snd (SubmitJobOperation sj ent e s)))"
  "durable (s_db s) (s_db (snd (SubmitDAGOperation d wsub ent t e s)))"
  "durable (s_db s) (s_db (snd (SaveDAG d tn k g ns t e s)))"
  "durable (s_db s) (s_db (snd (ApplyJobControl jc e s)))"
  "durable (s_db s) (s_db (snd (RedriveDeadLetter actor i k g ent t e s)))"
  "durable (s_db s) (s_db (snd (RedriveDeadLetterControl rc ent e s)))"
  "durable (s_db s) (s_db (snd (RetryJobControl rc ent e s)))"
  "durable (s_db s) (s_db (snd (CreateCronTrigger parse cs ent t e s)))"
  "durable (s_db s) (s_db (snd (RegisterWorker w cap t e s)))"
  "durable (s_db s) (s_db (snd (HeartbeatWorker w t e s)))"
  "durable (s_db s) (s_db (snd (RecordControlAction a e s)))"
  unfolding SubmitWorkflow_def SubmitJobOperation_def SubmitDAGOperation_def SaveDAG_def ApplyJobControl_def RedriveDeadLetter_def
    RedriveDeadLetterControl_def RetryJobControl_def CreateCronTrigger_def RegisterWorker_def HeartbeatWorker_def
    RecordControlAction_def commitOperation_def Let_def
  by (auto intro!: transact_durable dest: SubmitWorkflow_durable SubmitJobOperation_durable SubmitDAGOperation_durable SaveDAG_durable
    ApplyJobControl_durable RedriveDeadLetter_durable RedriveDeadLetterControl_durable RetryJobControl_durable
    CreateCronTrigger_durable RegisterWorker_durable simp: durable_workers bindE_Inr_iff split: if_splits dest!: insertControlAction_durable)

lemma serve_durable: "store_ok s \<Longrightarrow> durable (s_db s) (s_db (serve parse r s))"
  by (cases r) (auto simp: store_ok_def SubmitJob_run_durable attempt_ops_durable operator_ops_durable promote_durable reap_durable
    record_operator_durable deliver_durable FireDueCron_def fire_due_durable Acquire_def AcquireWithRecoveryReserve_def)

locale durable_op = store_op +
  assumes records: "store_ok s \<Longrightarrow> durable (s_db s) (s_db (snd (run s)))"
begin

lemma receipt_stays:
  "store_ok s \<Longrightarrow> receipts_ok (attempts (s_db s)) \<Longrightarrow> a \<in> set (attempts (s_db s)) \<Longrightarrow> at_digest a \<noteq> None \<Longrightarrow>
   a \<in> set (attempts (s_db (snd (run s))))"
  using records by (auto simp: durable_def receipts_kept_def)

lemma invariants_stay:
  "store_ok s \<Longrightarrow> receipts_ok (attempts (s_db s)) \<Longrightarrow> log_ok (s_db s) \<Longrightarrow>
   receipts_ok (attempts (s_db (snd (run s)))) \<and> log_ok (s_db (snd (run s)))"
  using records by (auto simp: durable_def receipts_kept_def)

end

interpretation ledger: durable_op "\<lambda>s. (Inr () :: unit result, serve parse r s)" "forces r" for parse r
  by unfold_locales (simp add: serve_durable)

text \<open>The stores that can follow a store: more requests are served and the process may restart at any time.\<close>

inductive later :: "cron_parser \<Rightarrow> store \<Rightarrow> store \<Rightarrow> bool" for parse s where
  here: "later parse s s"
| request: "later parse s s' \<Longrightarrow> later parse s (serve parse r s')"
| restart: "later parse s s' \<Longrightarrow> OpenWithOptions (s_db s') options = Inr s'' \<Longrightarrow> later parse s s''"

lemma reachable_any: "reachable parse f s \<Longrightarrow> reachable parse True s"
  by (induction rule: reachable.induct) (auto intro: reachable.intros)

lemma reachable_records: "reachable parse f s \<Longrightarrow> receipts_ok (attempts (s_db s)) \<and> log_ok (s_db s)"
proof (induction rule: reachable.induct)
  case (opened options s)
  then show ?case
    by (auto dest!: OpenWithOptions_Inr simp: empty_db_def receipts_ok_def log_ok_def scheduler_seq_def lookup_def)
next
  case (reopened s options s')
  then show ?case by (auto dest!: OpenWithOptions_Inr)
next
  case (served s r)
  then show ?case
    using ledger.invariants_stay[where s = s and parse = parse and r = r] reachable_ok[OF served.hyps(1)] by simp
qed

lemma later_durable:
  assumes "reachable parse f s" "later parse s s'"
  shows "reachable parse True s' \<and> durable (s_db s) (s_db s')"
  using assms(2)
proof (induction rule: later.induct)
  case here
  then show ?case using assms(1) reachable_any by simp
next
  case (request s' r)
  then show ?case
    using durable_trans ledger.records[where s = s' and parse = parse and r = r] reachable_ok by (auto intro: reachable.served)
next
  case (restart s' options s'')
  then show ?case using OpenWithOptions_Inr[OF restart.hyps(2)] by (auto intro: reachable.reopened)
qed

lemma answer_kept:
  "prefix rows rows' \<Longrightarrow> lookup key k rows = Some r \<Longrightarrow> lookup key k rows' = Some r"
proof (elim prefixE)
  show "lookup key k rows = Some r \<Longrightarrow> rows' = rows @ zs \<Longrightarrow> lookup key k rows' = Some r" for zs
    by (induction rows arbitrary: rows') (auto simp: lookup_def)
qed

text \<open>The attempt row in which the receipt of a completion is stored.\<close>

definition receipt_for :: "Completion \<Rightarrow> CompletionReceipt \<Rightarrow> attempt_row \<Rightarrow> bool" where
  "receipt_for c r a \<longleftrightarrow> attempt_key a = (r_job_id c, r_attempt_no c) \<and> at_worker a = c_worker_id c \<and>
     at_generation a = r_generation c \<and> at_token_hash a = TokenHash (r_token c) \<and> at_digest a = Some (completionDigest c) \<and>
     at_receipt_state a = Some (cr_state r) \<and> at_receipt_version a = Some (cr_state_version r) \<and>
     at_receipt_committed a = Some (timeToDB (cr_committed_at r)) \<and> cr_job_id r = r_job_id c"

lemma applyCompletionTx_receipt:
  assumes run: "applyCompletionTx c now db = Inr (r, db')" and "\<not> cr_duplicate r"
  shows "\<exists>a \<in> set (attempts db'). receipt_for c r a"
proof -
  obtain a j where a: "lookup attempt_key (r_job_id c, r_attempt_no c) (attempts db) = Some a" "at_worker a = c_worker_id c"
      "at_generation a = r_generation c" "at_token_hash a = TokenHash (r_token c)" "at_digest a = None"
    and commit: "commit_completion c j now db = Inr (r, db')"
    using assms by (auto simp: applyCompletionTx_def readCompletionRecord_def split: option.split_asm if_split_asm)
  obtain st ast av db4 where db4: "durables db4 = durables db"
    and db': "durables db' = durables (close_attempt c ast st (j_state_version j + 1) now db4)"
    and r: "r = \<lparr>cr_job_id = r_job_id c, cr_state = st, cr_state_version = j_state_version j + 1, cr_committed_at = now, cr_duplicate = False\<rparr>"
    by (rule commit_completion_Inr[OF commit])
  have "a \<in> set (attempts db4)" "attempt_key a = (r_job_id c, r_attempt_no c)"
    using lookup_Some_in[OF a(1)] db4 by (auto simp: durables_def)
  moreover have "attempts db' = attempts (close_attempt c ast st (j_state_version j + 1) now db4)" using db' by (simp add: durables_def)
  ultimately show ?thesis
    unfolding close_attempt_def update_where_def using a
    by (auto simp: r receipt_for_def attempt_key_def bex_Un intro: bexI[of _ a])
qed

lemma receipt_answers:
  assumes "db_inv db" and "a \<in> set (attempts db)" and "receipt_for c r a"
  shows "applyCompletionTx c now db =
    Inr (r\<lparr>cr_committed_at := timeFromDB (timeToDB (cr_committed_at r)), cr_duplicate := True\<rparr>, db)"
proof -
  have key: "attempt_key a = (r_job_id c, r_attempt_no c)" using assms(3) by (simp add: receipt_for_def)
  have a: "lookup attempt_key (r_job_id c, r_attempt_no c) (attempts db) = Some a"
    using lookup_distinct[OF _ assms(2), of attempt_key] assms(1) key by (simp add: db_inv_def keys_ok_def)
  have "y_attempts (abs db) (r_job_id c, r_attempt_no c) \<noteq> None" using a by (simp add: abs_sel)
  moreover have "case y_jobs (abs db) (r_job_id c) of None \<Rightarrow> absent_inv (abs db) (r_job_id c) | Some v \<Rightarrow> job_inv (abs db) (r_job_id c) v"
    using assms(1) by (simp add: db_inv_def yard_inv_def)
  ultimately obtain v where "y_jobs (abs db) (r_job_id c) = Some v"
    by (cases "y_jobs (abs db) (r_job_id c)") (simp_all add: absent_inv_def)
  then obtain j where "lookup j_id (r_job_id c) (jobs db) = Some j" by (auto simp: abs_sel)
  then show ?thesis using a assms(3) by (simp add: applyCompletionTx_def readCompletionRecord_def receipt_for_def)
qed

text \<open>C8: An acknowledged completion is never forgotten: after a completion committed, whatever requests are served and however
  often the process restarts, reporting the same completion again returns the same receipt, marked as a duplicate, at any time,
  even after the lease has expired or the job has moved on, and leaves the database alone.\<close>

theorem completion_acknowledged_once:
  assumes "reachable parse f s" and "Complete c t e s = (Inr r, s1)" and "\<not> cr_duplicate r" and "later parse s1 s2"
  shows "fst (Complete c t' e' s2) = Inr (r\<lparr>cr_committed_at := timeFromDB (timeToDB (cr_committed_at r)), cr_duplicate := True\<rparr>) \<and>
         s_db (snd (Complete c t' e' s2)) = s_db s2"
proof -
  have s1: "s1 = serve parse (ReqComplete c t e) s" using assms(2) by simp
  have r1: "reachable parse f s1" unfolding s1 by (rule reachable.served[OF assms(1)]) simp
  obtain db' where "applyCompletionTx c (fst (writeTime s t e)) (s_db s) = Inr (r, db')" and db': "s_db s1 = db'"
    using assms(2) by (cases rule: transact_cases[of "applyCompletionTx c" s t e]) (auto simp: Complete_def)
  then obtain a where a: "a \<in> set (attempts (s_db s1))" "receipt_for c r a"
    using applyCompletionTx_receipt assms(3) by blast
  note l = later_durable[OF r1 assms(4)]
  have "a \<in> set (attempts (s_db s2))"
    using l a reachable_records[OF r1] by (auto simp: durable_def receipts_kept_def receipt_for_def)
  then have "applyCompletionTx c (fst (writeTime s2 t' e')) (s_db s2) =
      Inr (r\<lparr>cr_committed_at := timeFromDB (timeToDB (cr_committed_at r)), cr_duplicate := True\<rparr>, s_db s2)"
    using receipt_answers a(2) reachable_db l by blast
  then show ?thesis
    by (cases rule: transact_cases[of "applyCompletionTx c" s2 t' e']) (auto simp: Complete_def)
qed

lemma SubmitJob_tx_recorded:
  assumes run: "SubmitJob_tx s sub ent now db = Inr ((job, dup), db')"
  shows "\<exists>row. lookup idempotency_key (s_tenant (Normalize (sub_job sub)), sub_key sub) (idempotency_requests db') = Some row \<and>
    id_kind row = ''job'' \<and> id_digest row = sub_digest sub \<and> id_response row = RespJob job"
proof -
  let ?k = "(s_tenant (Normalize (sub_job sub)), sub_key sub)"
  obtain found where fd: "readIdempotency db (s_tenant (Normalize (sub_job sub))) (sub_key sub) ''job'' (sub_digest sub) = Inr found"
      "validateIdempotency (sub_key sub) (sub_digest sub) = Inr ()"
    using run unfolding SubmitJob_tx_def Let_def by (auto simp: bindE_Inr_iff)
  note run' = run[unfolded SubmitJob_tx_def Let_def fd bindE_simps]
  show ?thesis
  proof (cases found)
    case None
    then show ?thesis using run' by (auto simp: bindE_Inr_iff record_idempotency_def insert_row_Some lookup_snoc idempotency_key_def
      split: option.split_asm)
  next
    case (Some x)
    then show ?thesis using run' fd(1) by (cases x) (auto simp: readIdempotency_def split: option.split_asm if_split_asm)
  qed
qed

text \<open>C9: Submissions are idempotent for ever: once a submission under a tenant and a key was answered, whatever requests are
  served and however often the process restarts, submitting under that key again returns the recorded job as a duplicate when
  the digest is the same and is refused as a conflict when it differs; in both cases no job is created and the database is untouched.\<close>

theorem submission_idempotent:
  assumes "reachable parse f s" and "SubmitJob sub ent t e s = (Inr (job, dup), s1)" and "later parse s1 s2"
    and "s_tenant (Normalize (sub_job sub')) = s_tenant (Normalize (sub_job sub))" and "sub_key sub' = sub_key sub"
    and "validateIdempotency (sub_key sub') (sub_digest sub') = Inr ()"
  shows "fst (SubmitJob sub' ent' t' e' s2) =
           (if sub_digest sub' = sub_digest sub then Inr (job, True) else Inl ErrIdempotencyConflict) \<and>
         s_db (snd (SubmitJob sub' ent' t' e' s2)) = s_db s2"
proof -
  have s1: "s1 = serve parse (ReqSubmitJob sub ent t e) s" using assms(2) by simp
  have r1: "reachable parse f s1" unfolding s1 by (rule reachable.served[OF assms(1)]) simp
  obtain db' where run: "SubmitJob_tx s sub ent (fst (writeTime s t e)) (s_db s) = Inr ((job, dup), db')" and db': "s_db s1 = db'"
    using assms(2) by (cases rule: transact_cases[of "SubmitJob_tx s sub ent" s t e]) (auto simp: SubmitJob_def)
  from SubmitJob_tx_recorded[OF run] obtain row where
    row: "lookup idempotency_key (s_tenant (Normalize (sub_job sub)), sub_key sub) (idempotency_requests (s_db s1)) = Some row"
      "id_kind row = ''job''" "id_digest row = sub_digest sub" "id_response row = RespJob job"
    unfolding db' by blast
  have "prefix (idempotency_requests (s_db s1)) (idempotency_requests (s_db s2))"
    using later_durable[OF r1 assms(3)] by (simp add: durable_def)
  note kept = answer_kept[OF this row(1)]
  have "SubmitJob_tx s2 sub' ent' now (s_db s2) =
      (if sub_digest sub' = sub_digest sub then Inr ((job, True), s_db s2) else Inl ErrIdempotencyConflict)" for now
    using kept row assms(4-6) by (simp add: SubmitJob_tx_def readIdempotency_def Let_def)
  then show ?thesis
    by (cases rule: transact_cases[of "SubmitJob_tx s2 sub' ent'" s2 t' e']) (auto simp: SubmitJob_def writeTime_facts split: if_split_asm)
qed


end
