(* ===== verification/Store_Events.thy ===== *)
theory Store_Events
  imports Store_Durability
begin

text \<open>
  The event log of the store: every change of a job is told by exactly one event. \<open>story\<close> are the versions and states that
  the events of a job may list, \<open>owing\<close> is the state of the tables between the change of a job row and the insert of its
  event, and \<open>told\<close> holds between operations.
\<close>

section \<open>Definitions\<close>

inductive story :: "(int \<times> JobState) list \<Rightarrow> int \<Rightarrow> JobState \<Rightarrow> bool" where
  admitted: "story [(1, s)] 1 s"
| changed: "story es v s \<Longrightarrow> story (es @ [(v + 1, s')]) (v + 1) s'"
| noted: "story es v s \<Longrightarrow> story (es @ [(v, s)]) v s"

definition timeline :: "db \<Rightarrow> string \<Rightarrow> (int \<times> JobState) list" where
  "timeline db i = map (\<lambda>e. (ev_version e, ev_state e)) (filter (\<lambda>e. ev_job e = i) (events db))"

definition standing :: "db \<Rightarrow> string \<Rightarrow> (int \<times> JobState) option" where
  "standing db i = map_option (\<lambda>j. (j_state_version j, j_state j)) (lookup j_id i (jobs db))"

text \<open>What the events of a job list, given its version and state and the event it may still owe.\<close>

fun entry_ok :: "(int \<times> JobState) option \<Rightarrow> (int \<times> JobState) option \<Rightarrow> (int \<times> JobState) list \<Rightarrow> bool" where
  "entry_ok None d es \<longleftrightarrow> d = None \<and> es = []"
| "entry_ok (Some (v, s)) None es \<longleftrightarrow> story es v s"
| "entry_ok (Some (v, s)) (Some d) es \<longleftrightarrow> d = (v, s) \<and> (if es = [] then v = 1 else \<exists>s0. story es (v - 1) s0)"

definition owing :: "(string \<Rightarrow> (int \<times> JobState) option) \<Rightarrow> db \<Rightarrow> bool" where
  "owing D db \<longleftrightarrow> distinct (map j_id (jobs db)) \<and> map ev_seq (events db) = [1..int (length (events db))] \<and>
     (\<forall>i. entry_ok (standing db i) (D i) (timeline db i))"

definition told :: "db \<Rightarrow> bool" where
  "told db \<longleftrightarrow> owing Map.empty db"

section \<open>Lemmas\<close>

lemma story_not_empty: "story es v s \<Longrightarrow> es \<noteq> []"
  by (induction rule: story.induct) auto

definition log_part :: "db \<Rightarrow> job_row list \<times> event_row list" where
  "log_part db = (jobs db, events db)"

lemma owing_cong: "log_part db' = log_part db \<Longrightarrow> owing D db' = owing D db"
  by (simp add: log_part_def owing_def timeline_def standing_def)

lemma told_cong: "log_part db' = log_part db \<Longrightarrow> told db' = told db"
  using owing_cong[of db' db] by (simp add: told_def)

lemma owing_change:
  assumes "owing D db" "D i = None" "lookup j_id i (jobs db) = Some r" "p r" "\<And>x. p x \<Longrightarrow> j_id x = i" "\<And>x. j_id (f x) = j_id x"
    and "j_state_version (f r) = j_state_version r + 1"
  shows "owing (D(i \<mapsto> (j_state_version (f r), j_state (f r)))) (db\<lparr>jobs := update_where p f (jobs db)\<rparr>)"
proof -
  let ?db = "db\<lparr>jobs := update_where p f (jobs db)\<rparr>"
  have look: "lookup j_id k (update_where p f (jobs db)) = map_option (\<lambda>x. if p x then f x else x) (lookup j_id k (jobs db))" for k
    by (rule lookup_update_where) (rule assms(6))
  have other: "standing ?db k = standing db k" if "k \<noteq> i" for k
    using that assms(5) lookup_Some_in[of j_id k "jobs db"] by (cases "lookup j_id k (jobs db)") (auto simp: look standing_def)
  have own: "standing ?db i = Some (j_state_version (f r), j_state (f r))" using assms(3,4) by (simp add: look standing_def)
  have "entry_ok (standing db i) (D i) (timeline db i)" using assms(1) by (simp add: owing_def)
  then have "story (timeline db i) (j_state_version r) (j_state r)" using assms(2,3) by (simp add: standing_def)
  then have "entry_ok (standing ?db i) (Some (j_state_version (f r), j_state (f r))) (timeline db i)"
    using story_not_empty by (auto simp: own assms(7))
  moreover have "timeline ?db k = timeline db k" for k by (simp add: timeline_def)
  moreover have "map j_id (update_where p f (jobs db)) = map j_id (jobs db)" by (simp add: update_where_def assms(6))
  ultimately show ?thesis
    using assms(1) other unfolding owing_def by auto
qed

text \<open>The same for an update that names the row by its key and its version and affects one row.\<close>

lemma owing_update:
  assumes "owing D db" "D i = None" "affected p (jobs db) = 1" "\<And>x. p x \<Longrightarrow> j_id x = i \<and> j_state_version x = v" "\<And>x. j_id (f x) = j_id x"
    and "\<And>x. j_state_version (f x) = v + 1" "\<And>x. j_state_version x = v \<Longrightarrow> p x \<Longrightarrow> j_state (f x) = s"
  shows "owing (D(i \<mapsto> (v + 1, s))) (db\<lparr>jobs := update_where p f (jobs db)\<rparr>)"
proof -
  have "distinct (map j_id (jobs db))" using assms(1) by (simp add: owing_def)
  then obtain r where r: "lookup j_id i (jobs db) = Some r" "p r"
    using affected_one[of j_id "jobs db" p i] assms(3,4) by blast
  have "j_state_version r = v" "j_state (f r) = s" using assms(4,7) r(2) by auto
  then show ?thesis
    using owing_change[OF assms(1,2) r(1), of p f] r(2) assms(4,5,6) by simp
qed

lemma owing_insert:
  assumes "owing D db" "insertJob job db = Inr db'" "j_state_version job = 1"
  shows "owing (D(j_id job \<mapsto> (1, j_state job))) db' \<and> D (j_id job) = None"
proof -
  have new: "\<not> job_exists db (j_id job)" "db' = db\<lparr>jobs := jobs db @ [job_row_of job]\<rparr>"
    using assms(2) by (auto simp: insertJob_def split: if_split_asm)
  have none: "lookup j_id (j_id job) (jobs db) = None" using new(1) by (auto simp: job_exists_def lookup_None_iff)
  have row: "j_id (job_row_of job) = j_id job" "j_state_version (job_row_of job) = j_state_version job" "j_state (job_row_of job) = j_state job"
    by (simp_all add: job_row_of_def Job.defs)
  have "entry_ok (standing db (j_id job)) (D (j_id job)) (timeline db (j_id job))" using assms(1) by (simp add: owing_def)
  then have empty: "D (j_id job) = None" "timeline db (j_id job) = []" by (simp_all add: standing_def none)
  have "standing db' k = (if k = j_id job then Some (1, j_state job) else standing db k)" for k
    using none assms(3) by (auto simp: standing_def new(2) lookup_snoc row split: option.split)
  moreover have "timeline db' k = timeline db k" for k by (simp add: timeline_def new(2))
  moreover have "distinct (map j_id (jobs db'))" using assms(1) none by (auto simp: owing_def new(2) row lookup_None_iff)
  ultimately show ?thesis using assms(1) empty unfolding owing_def by (simp add: new(2))
qed

lemma timeline_append:
  "appendEvent i ty s v now pl db = Inr db' \<Longrightarrow> jobs db' = jobs db \<and> timeline db' k = (if k = i then timeline db k @ [(v, s)] else timeline db k) \<and>
    map ev_seq (events db') = map ev_seq (events db) @ [int (length (events db)) + 1] \<and> length (events db') = Suc (length (events db))"
  by (auto simp: appendEvent_def timeline_def split: if_split_asm)

lemma upto_Suc: "[1..1 + int n] = [1..int n] @ [int n + 1]"
  by (subst upto_rec2) simp_all

lemma owing_event:
  assumes "owing D db" "appendEvent i ty s v now pl db = Inr db'" "D i = Some (v, s)"
  shows "owing (D(i := None)) db'"
proof -
  note a = timeline_append[OF assms(2)]
  have st: "standing db' k = standing db k" for k using a by (simp add: standing_def)
  have "entry_ok (standing db i) (D i) (timeline db i)" using assms(1) by (simp add: owing_def)
  then have "standing db i = Some (v, s)" "if timeline db i = [] then v = 1 else \<exists>s0. story (timeline db i) (v - 1) s0"
    using assms(3) by (cases "standing db i"; force)+
  then have "entry_ok (standing db' i) None (timeline db i @ [(v, s)])"
    using story.admitted[of s] story.changed[of "timeline db i" "v - 1" _ s] by (auto simp: st split: if_split_asm)
  then show ?thesis using assms(1) a unfolding owing_def st by (auto simp: upto_Suc)
qed

lemma told_note:
  assumes "told db" "appendEvent i ty s v now pl db = Inr db'" "standing db i = Some (v, s)"
  shows "told db'"
proof -
  note a = timeline_append[OF assms(2)]
  have st: "standing db' k = standing db k" for k using a by (simp add: standing_def)
  have "entry_ok (standing db i) None (timeline db i)" using assms(1) by (simp add: told_def owing_def)
  then have "entry_ok (standing db' i) None (timeline db i @ [(v, s)])" using story.noted[of "timeline db i" v s] assms(3) by (simp add: st)
  then show ?thesis using assms(1) a unfolding told_def owing_def st by (auto simp: upto_Suc)
qed

lemma told_step:
  assumes "told db" "log_part db1 = log_part db" "affected p (jobs db1) = 1" "\<And>x. p x \<Longrightarrow> j_id x = i \<and> j_state_version x = v"
    and "\<And>x. j_id (f x) = j_id x" "\<And>x. j_state_version (f x) = v + 1" "\<And>x. p x \<Longrightarrow> j_state (f x) = s"
    and "log_part db2 = log_part (db1\<lparr>jobs := update_where p f (jobs db1)\<rparr>)" "appendEvent i ty s (v + 1) now pl db2 = Inr db3"
  shows "told db3"
proof -
  have "owing Map.empty db1" using assms(1) owing_cong[OF assms(2)] by (simp add: told_def)
  then have "owing [i \<mapsto> (v + 1, s)] (db1\<lparr>jobs := update_where p f (jobs db1)\<rparr>)"
    using owing_update[of Map.empty db1 i p v f s] assms(3-7) by simp
  then have "owing [i \<mapsto> (v + 1, s)] db2" using owing_cong[OF assms(8)] by simp
  then have "owing ([i \<mapsto> (v + 1, s)](i := None)) db3" by (rule owing_event[OF _ assms(9)]) simp
  then show ?thesis by (simp add: told_def fun_upd_idem)
qed

subsection \<open>Operations that leave jobs and events alone\<close>

named_theorems logs_eq

lemma log_part_simps [simp]:
  "log_part (db\<lparr>tenant_limits := x2\<rparr>) = log_part db"
  "log_part (db\<lparr>queue_state := x3\<rparr>) = log_part db" "log_part (db\<lparr>counters := x4\<rparr>) = log_part db"
  "log_part (db\<lparr>job_dependencies := x5\<rparr>) = log_part db" "log_part (db\<lparr>job_completions := x6\<rparr>) = log_part db"
  "log_part (db\<lparr>dead_letters := x7\<rparr>) = log_part db" "log_part (db\<lparr>dag_runs := x8\<rparr>) = log_part db"
  "log_part (db\<lparr>dag_jobs := x9\<rparr>) = log_part db" "log_part (db\<lparr>attempts := x10\<rparr>) = log_part db"
  "log_part (db\<lparr>idempotency_requests := x11\<rparr>) = log_part db" "log_part (db\<lparr>operation_requests := x12\<rparr>) = log_part db"
  "log_part (db\<lparr>audit_events := x13\<rparr>) = log_part db" "log_part (db\<lparr>cron_triggers := x14\<rparr>) = log_part db"
  "log_part (db\<lparr>cron_occurrences := x15\<rparr>) = log_part db" "log_part (db\<lparr>redis_deliveries := x16\<rparr>) = log_part db"
  "log_part (db\<lparr>workers := x17\<rparr>) = log_part db" "log_part (db\<lparr>decision_log := x18\<rparr>) = log_part db"
  by (simp_all add: log_part_def)

lemma nextReadySeq_logs [logs_eq]: "nextReadySeq db = Inr (n, db') \<Longrightarrow> log_part db' = log_part db"
  by (auto simp: nextReadySeq_def Let_def split: if_splits option.splits)

lemma ensureAdmission_logs [logs_eq]: "ensureAdmission s t n db = Inr db' \<Longrightarrow> log_part db' = log_part db"
  by (auto simp: ensureAdmission_def Let_def split: if_splits option.splits)

lemma ensureQueue_logs [logs_eq]: "ensureQueue t q now db = Inr db' \<Longrightarrow> log_part db' = log_part db"
  by (auto simp: ensureQueue_def Let_def split: if_splits option.splits)

lemma insert_dependency_logs [logs_eq]: "insert_dependency m c p db = Inr db' \<Longrightarrow> log_part db' = log_part db"
  by (auto simp: insert_dependency_def split: if_splits)

lemma insertCanonicalCompletion_logs [logs_eq]: "insertCanonicalCompletion i st n k out fl now db = Inr db' \<Longrightarrow> log_part db' = log_part db"
  by (auto simp: insertCanonicalCompletion_def Let_def split: if_splits option.splits)

lemma insertDeadLetter_logs [logs_eq]: "insertDeadLetter i fl now db = Inr db' \<Longrightarrow> log_part db' = log_part db"
  by (auto simp: insertDeadLetter_def Let_def split: if_splits option.splits)

lemma releaseSlots_logs [logs_eq]: "releaseSlots t q c now db = Inr db' \<Longrightarrow> log_part db' = log_part db"
  by (auto simp: releaseSlots_def Let_def split: if_splits)

lemma reserveSlots_logs [logs_eq]: "reserveSlots t q c now db = Inr (b, db') \<Longrightarrow> log_part db' = log_part db"
  by (auto simp: reserveSlots_def Let_def split: if_splits)

lemma insert_dag_run_logs [logs_eq]: "insert_dag_run d t k g now db = Inr db' \<Longrightarrow> log_part db' = log_part db"
  by (auto simp: insert_dag_run_def split: if_splits)

lemma insert_dag_job_logs: "insert_dag_job d n db = Inr db' \<Longrightarrow> log_part db' = log_part db"
  by (auto simp: insert_dag_job_def split: if_splits prod.splits)

lemma link_redrive_logs [logs_eq]: "link_redrive i c db = Inr db' \<Longrightarrow> log_part db' = log_part db"
  by (auto simp: link_redrive_def Let_def split: if_splits)

lemma insert_attempt_logs [logs_eq]: "insert_attempt a db = Inr db' \<Longrightarrow> log_part db' = log_part db"
  by (auto simp: insert_attempt_def split: if_splits option.splits)

lemma fence_attempts_logs [logs_eq]: "fence_attempts c n now db = Inr db' \<Longrightarrow> log_part db' = log_part db"
  by (auto simp: fence_attempts_def Let_def split: if_splits)

lemma record_idempotency_logs [logs_eq]: "record_idempotency m r db = Inr db' \<Longrightarrow> log_part db' = log_part db"
  by (auto simp: record_idempotency_def split: option.splits)

lemma insertControlActionWithEvent_logs [logs_eq]: "insertControlActionWithEvent a e db = Inr db' \<Longrightarrow> log_part db' = log_part db"
  by (auto simp: insertControlActionWithEvent_def Let_def split: option.splits if_splits)

lemma insertControlAction_logs [logs_eq]: "insertControlAction a db = Inr db' \<Longrightarrow> log_part db' = log_part db"
  by (simp add: insertControlAction_def insertControlActionWithEvent_logs)

lemma logs_foldE:
  assumes "foldE g xs db = Inr db'" and "\<And>x u v. g x u = Inr v \<Longrightarrow> log_part v = log_part u"
  shows "log_part db' = log_part db"
  by (rule foldE_invariant[OF assms(1)]) (auto dest: assms(2))

lemma insert_dependencies_logs [logs_eq]: "foldE (\<lambda>d. insert_dependency m i d) ds db = Inr db' \<Longrightarrow> log_part db' = log_part db"
  by (erule logs_foldE) (auto dest: logs_eq)

lemma insert_edges_logs [logs_eq]: "foldE (\<lambda>(c, p). insert_dependency m c p) es db = Inr db' \<Longrightarrow> log_part db' = log_part db"
  by (erule logs_foldE) (auto dest: logs_eq split: prod.splits)

lemma insert_dag_jobs_logs [logs_eq]: "foldE (insert_dag_job d) ns db = Inr db' \<Longrightarrow> log_part db' = log_part db"
  by (erule logs_foldE) (rule insert_dag_job_logs)

lemma told_foldE:
  assumes "foldE g xs db = Inr db'" "told db" and "\<And>x u v. g x u = Inr v \<Longrightarrow> told u \<Longrightarrow> told v"
  shows "told db'"
  by (rule foldE_invariant[where P = told, OF assms(1,2)]) (rule assms(3))

subsection \<open>Operations that change a job\<close>

lemma promote_job_told:
  assumes "promote_job now job db = Inr db'" "told db"
  shows "told db'"
proof -
  let ?p = "\<lambda>j. j_id j = j_id job \<and> j_state j = j_state job \<and> j_state_version j = j_state_version job \<and> j_ready_seq j = 0"
  let ?f = "\<lambda>n (j::job_row). j\<lparr>j_state := StatePending, j_state_version := j_state_version job + 1, j_ready_seq := n, j_updated_at := timeToDB now\<rparr>"
  obtain n db1 where 1: "nextReadySeq db = Inr (n, db1)" "affected ?p (jobs db1) = 1"
    "appendEvent (j_id job) ''job_promoted'' StatePending (j_state_version job + 1) now (JObj [(''ready_seq'', JInt n)])
       (db1\<lparr>jobs := update_where ?p (?f n) (jobs db1)\<rparr>) = Inr db'"
    using assms(1) by (auto simp: promote_job_def Let_def bindE_Inr_iff split: if_split_asm)
  show ?thesis by (rule told_step[OF assms(2) nextReadySeq_logs[OF 1(1)] 1(2) _ _ _ _ refl 1(3)]) auto
qed

lemma activate_child_told:
  assumes "activate_child parent now job db = Inr db'" "told db"
  shows "told db'"
proof -
  let ?p = "\<lambda>j. j_id j = j_id job \<and> j_state j = StatePending \<and> j_ready_seq j = 0 \<and> j_state_version j = j_state_version job"
  let ?f = "\<lambda>n (j::job_row). j\<lparr>j_ready_seq := n, j_state_version := j_state_version job + 1, j_updated_at := timeToDB now\<rparr>"
  obtain n db1 where 1: "nextReadySeq db = Inr (n, db1)" "affected ?p (jobs db1) = 1"
    "appendEvent (j_id job) ''dependency_released'' StatePending (j_state_version job + 1) now
       (JObj [(''parent_id'', JStr parent), (''ready_seq'', JInt n)]) (db1\<lparr>jobs := update_where ?p (?f n) (jobs db1)\<rparr>) = Inr db'"
    using assms(1) by (auto simp: activate_child_def Let_def bindE_Inr_iff split: if_split_asm)
  show ?thesis by (rule told_step[OF assms(2) nextReadySeq_logs[OF 1(1)] 1(2) _ _ _ _ refl 1(3)]) auto
qed

lemma fail_descendant_told:
  assumes "fail_descendant parent now job db = Inr db'" "told db"
  shows "told db'"
proof -
  let ?p = "\<lambda>j. j_id j = j_id job \<and> j_state_version j = j_state_version job \<and> \<not> Terminal (j_state j)"
  let ?f = "dead_letter_row now (j_state_version job + 1) upstream_failed"
  obtain db1 db3 db4 where 1: "(if active_state (j_state job) then releaseSlots (j_tenant job) (j_queue job) (j_slot_cost job) now db else Inr db) = Inr db1"
    "affected ?p (jobs db1) = 1" and 2: "insertCanonicalCompletion (j_id job) StateDeadLetter (j_state_version job + 1) (j_attempt_no job) ''''
       (Some upstream_failed) now (db1\<lparr>jobs := update_where ?p ?f (jobs db1)\<rparr>) = Inr db3"
    "insertDeadLetter (j_id job) (Some upstream_failed) now db3 = Inr db4"
    and 3: "appendEvent (j_id job) ''upstream_failed'' StateDeadLetter (j_state_version job + 1) now (JObj [(''root_job_id'', JStr parent)]) db4 = Inr db'"
    using assms(1) by (auto simp: fail_descendant_def Let_def bindE_Inr_iff split: if_split_asm)
  have same: "log_part db1 = log_part db" using 1(1) by (auto split: if_split_asm dest: logs_eq)
  have eq: "log_part db4 = log_part (db1\<lparr>jobs := update_where ?p ?f (jobs db1)\<rparr>)" using 2 by (auto dest!: logs_eq)
  show ?thesis by (rule told_step[OF assms(2) same 1(2) _ _ _ _ eq 3]) (auto simp: dead_letter_row_def)
qed

lemma activateChildren_told: "activateChildren p now db = Inr db' \<Longrightarrow> told db \<Longrightarrow> told db'"
  unfolding activateChildren_def by (erule told_foldE) (auto dest: activate_child_told)

lemma failDescendants_told: "failDescendants p now db = Inr db' \<Longrightarrow> told db \<Longrightarrow> told db'"
  unfolding failDescendants_def by (erule told_foldE) (auto dest: fail_descendant_told)

lemma lease_grant_told:
  assumes "lease_grant plan w now ttl g (ls, ent, db) = Inr (ls', ent', db')" "told db"
  shows "told db'"
proof -
  obtain c where c: "lookup lc_job (g_job_id g) (sp_candidates plan) = Some c"
    using assms(1) by (auto simp: lease_grant_def split: option.split_asm)
  let ?p = "\<lambda>j. j_id j = lc_job c \<and> j_state j = StatePending \<and> j_ready_seq j > 0 \<and> j_state_version j = lc_state_version c"
  let ?f = "\<lambda>j::job_row. j\<lparr>j_state := StateScheduled, j_attempt_no := lc_attempt_no c + 1, j_lease_generation := lc_generation c + 1,
    j_state_version := lc_state_version c + 1, j_ready_seq := 0, jr_recovery_pending := False, j_updated_at := timeToDB now\<rparr>"
  obtain b db1 a db3 pl where 1: "reserveSlots (lc_tenant c) (lc_queue c) (lc_slot_cost c) now db = Inr (b, db1)" "affected ?p (jobs db1) = 1"
    and 2: "insert_attempt a (db1\<lparr>jobs := update_where ?p ?f (jobs db1)\<rparr>) = Inr db3"
    and 3: "appendEvent (lc_job c) ''lease_acquired'' StateScheduled (lc_state_version c + 1) now pl db3 = Inr db'"
    using assms(1) unfolding lease_grant_def Let_def
    by (auto simp: c bindE_Inr_iff split: if_split_asm sum.split_asm prod.split_asm)
  have eq: "log_part db3 = log_part (db1\<lparr>jobs := update_where ?p ?f (jobs db1)\<rparr>)" using 2 by (auto dest!: logs_eq)
  show ?thesis by (rule told_step[OF assms(2) reserveSlots_logs[OF 1(1)] 1(2) _ _ _ _ eq 3]) auto
qed

lemma markRunningTx_told:
  assumes "markRunningTx w ref now db = Inr db'" "told db"
  shows "told db'"
proof -
  obtain a j where fa: "fenced_attempt db w ref = Some (a, j)" using assms(1) by (auto simp: markRunningTx_def split: option.splits)
  have j: "lookup j_id (r_job_id ref) (jobs db) = Some j" using fa by (auto simp: fenced_attempt_def split: option.split_asm if_split_asm)
  let ?p = "\<lambda>r. j_id r = r_job_id ref \<and> j_state_version r = j_state_version j"
  let ?f = "\<lambda>r::job_row. r\<lparr>j_state := StateRunning, j_state_version := j_state_version r + 1, j_updated_at := timeToDB now\<rparr>"
  show ?thesis
  proof (cases "at_state a = AttemptRunning \<and> j_state j = StateRunning")
    case True
    then show ?thesis using assms fa by (auto simp: markRunningTx_def split: if_splits)
  next
    case False
    obtain rows pl where 1: "appendEvent (r_job_id ref) ''attempt_started'' StateRunning (j_state_version j + 1) now pl
        (db\<lparr>attempts := rows, jobs := update_where ?p ?f (jobs db)\<rparr>) = Inr db'"
      using assms(1) fa False by (auto simp: markRunningTx_def Let_def split: if_split_asm)
    have "owing ([r_job_id ref \<mapsto> (j_state_version (?f j), j_state (?f j))]) (db\<lparr>jobs := update_where ?p ?f (jobs db)\<rparr>)"
      by (rule owing_change) (use assms(2) j lookup_Some_in[OF j] in \<open>auto simp: told_def\<close>)
    then have "owing ([r_job_id ref \<mapsto> (j_state_version j + 1, StateRunning)]) (db\<lparr>attempts := rows, jobs := update_where ?p ?f (jobs db)\<rparr>)"
      using owing_cong[of "db\<lparr>attempts := rows, jobs := update_where ?p ?f (jobs db)\<rparr>" "db\<lparr>jobs := update_where ?p ?f (jobs db)\<rparr>"]
      by (simp add: log_part_def)
    then have "owing ([r_job_id ref \<mapsto> (j_state_version j + 1, StateRunning)](r_job_id ref := None)) db'" by (rule owing_event[OF _ 1]) simp
    then show ?thesis by (simp add: told_def fun_upd_idem)
  qed
qed

lemma close_attempt_logs [simp]: "log_part (close_attempt c ast st n now db) = log_part db"
  by (simp add: close_attempt_def)

lemma commit_completion_told:
  assumes run: "commit_completion c j now db = Inr (r, db')" and "told db"
  shows "told db'"
proof -
  obtain st ast av where plan: "completion_plan c (j_retry j) now = Inr (st, ast, av)"
    using run by (auto simp: commit_completion_def bindE_Inr_iff)
  let ?p = "completed_row c (j_state_version j)"
  let ?f = "\<lambda>r::job_row. r\<lparr>j_state := st, j_state_version := j_state_version j + 1, j_available_at := timeToDB av, j_ready_seq := 0,
    j_updated_at := timeToDB now, j_terminal_at := nullableTime now (st \<noteq> StateRetrying), j_failure := completion_failure c\<rparr>"
  obtain db2 db4 ty pl db6 where 0: "affected ?p (jobs db) = 1"
    and 1: "releaseSlots (j_tenant j) (j_queue j) (j_slot_cost j) now (db\<lparr>jobs := update_where ?p ?f (jobs db)\<rparr>) = Inr db2"
    and 2: "(if st \<noteq> StateRetrying then bindE (insertCanonicalCompletion (r_job_id c) st (j_state_version j + 1) (r_attempt_no c) (c_output_digest c) (completion_failure c) now db2) (\<lambda>db3.
      if st = StateDeadLetter then insertDeadLetter (r_job_id c) (completion_failure c) now db3 else Inr db3) else Inr db2) = Inr db4"
    and 3: "appendEvent (r_job_id c) ty st (j_state_version j + 1) now pl (close_attempt c ast st (j_state_version j + 1) now db4) = Inr db6"
    and 4: "(if st = StateSucceeded then activateChildren (r_job_id c) now db6
       else if st \<noteq> StateRetrying then failDescendants (r_job_id c) now db6 else Inr db6) = Inr db'"
    using run unfolding commit_completion_def plan by (auto simp: bindE_Inr_iff Let_def split: if_split_asm)
  have "log_part db4 = log_part db2" using 2 by (auto simp: bindE_Inr_iff split: if_split_asm dest!: logs_eq)
  then have eq: "log_part (close_attempt c ast st (j_state_version j + 1) now db4) = log_part (db\<lparr>jobs := update_where ?p ?f (jobs db)\<rparr>)"
    using releaseSlots_logs[OF 1] by simp
  have "told db6" by (rule told_step[OF assms(2) refl 0 _ _ _ _ eq 3]) (auto simp: completed_row_def)
  then show ?thesis using 4 by (auto split: if_split_asm dest: activateChildren_told failDescendants_told)
qed

lemma applyCompletionTx_told: "applyCompletionTx c now db = Inr (r, db') \<Longrightarrow> told db \<Longrightarrow> told db'"
  by (auto simp: applyCompletionTx_def split: option.split_asm if_split_asm dest: commit_completion_told)

lemma complete_batch_told: "complete_batch cs now db = Inr (rs, db') \<Longrightarrow> told db \<Longrightarrow> told db'"
proof (induction cs arbitrary: db rs)
  case (Cons c cs)
  then show ?case
    by (auto simp: bindE_Inr_iff split: sum.split_asm if_split_asm prod.split_asm dest: applyCompletionTx_told)
qed simp

lemma mark_batch_told: "mark_batch w refs now db = Inr (rs, db') \<Longrightarrow> told db \<Longrightarrow> told db'"
proof (induction refs arbitrary: db rs)
  case (Cons c cs)
  then show ?case by (auto simp: bindE_Inr_iff split: sum.split_asm if_split_asm dest: markRunningTx_told)
qed simp

lemma reapAttempt_told:
  assumes "reapAttempt now a db = Inr db'" "told db"
  shows "told db'"
proof -
  let ?v = "ea_version a + 1" and ?db1 = "db\<lparr>attempts := expire_attempt_rows now a (attempts db)\<rparr>" and ?p = "leased_row a"
  obtain db2 where 1: "releaseSlots (ea_tenant a) (ea_queue a) (ea_slot_cost a) now ?db1 = Inr db2"
    using assms(1) by (auto simp: reapAttempt_def Let_def bindE_Inr_iff)
  have same: "log_part db2 = log_part db" using releaseSlots_logs[OF 1] by simp
  show ?thesis
  proof (cases "ea_attempt_no a < max_attempts (ea_retry a)")
    case True
    let ?f = "\<lambda>n (j::job_row). j\<lparr>j_state := StatePending, j_state_version := ?v, j_available_at := timeToDB now, j_ready_seq := n,
      jr_recovery_pending := True, j_updated_at := timeToDB now, j_failure := Some lease_expired\<rparr>"
    obtain n db3 pl where 2: "nextReadySeq db2 = Inr (n, db3)" "affected ?p (jobs db3) = 1"
      "appendEvent (ea_job a) ''lease_reaped'' StatePending ?v now pl (db3\<lparr>jobs := update_where ?p (?f n) (jobs db3)\<rparr>) = Inr db'"
      using assms(1) 1 True by (auto simp: reapAttempt_def Let_def bindE_Inr_iff split: if_split_asm)
    have "log_part db3 = log_part db" using nextReadySeq_logs[OF 2(1)] same by simp
    then show ?thesis using told_step[OF assms(2) _ 2(2) _ _ _ _ refl 2(3)] by (auto simp: leased_row_def)
  next
    case False
    let ?f = "dead_letter_row now ?v lease_expired"
    obtain db4 db5 db6 pl where 2: "affected ?p (jobs db2) = 1"
      and 3: "insertCanonicalCompletion (ea_job a) StateDeadLetter ?v (ea_attempt_no a) '''' (Some lease_expired) now
        (db2\<lparr>jobs := update_where ?p ?f (jobs db2)\<rparr>) = Inr db4" "insertDeadLetter (ea_job a) (Some lease_expired) now db4 = Inr db5"
      and 4: "appendEvent (ea_job a) ''lease_reaped'' StateDeadLetter ?v now pl db5 = Inr db6" "failDescendants (ea_job a) now db6 = Inr db'"
      using assms(1) 1 False by (auto simp: reapAttempt_def Let_def bindE_Inr_iff split: if_split_asm)
    have eq: "log_part db5 = log_part (db2\<lparr>jobs := update_where ?p ?f (jobs db2)\<rparr>)" using 3 by (auto dest!: logs_eq)
    have "told db6" by (rule told_step[OF assms(2) same 2 _ _ _ _ eq 4(1)]) (auto simp: leased_row_def dead_letter_row_def)
    then show ?thesis using failDescendants_told[OF 4(2)] by simp
  qed
qed

lemma control_job_told:
  assumes run: "control_job c j now db = Inr db'" and "told db"
  shows "told db'"
proof -
  let ?v = "j_state_version j + 1"
  let ?p = "\<lambda>r. j_id r = jc_job c \<and> j_state_version r = j_state_version j \<and> \<not> Terminal (j_state r)"
  let ?f = "\<lambda>n. controlled_row c ?v n (active_state (j_state j)) now"
  obtain db1 n db2 db5 ty pl db6 where 1: "(if active_state (j_state j) then bindE (fence_attempts c (j_attempt_no j) now db)
       (releaseSlots (j_tenant j) (j_queue j) (j_slot_cost j) now) else Inr db) = Inr db1"
    and 2: "(if jc_release c then nextReadySeq db1 else Inr (0, db1)) = Inr (n, db2)" "affected ?p (jobs db2) = 1"
    and 3: "log_part db5 = log_part (db2\<lparr>jobs := update_where ?p (?f n) (jobs db2)\<rparr>)"
    and 4: "appendEvent (jc_job c) ty (jc_next_state c) ?v now pl db5 = Inr db6"
    and 5: "(if jc_release c then Inr db6 else failDescendants (jc_job c) now db6) = Inr db'"
    using run unfolding control_job_def Let_def
    by (cases "jc_release c") (auto simp: bindE_Inr_iff split: if_split_asm dest!: insertCanonicalCompletion_logs insertDeadLetter_logs)
  have "log_part db1 = log_part db" using 1 by (auto simp: bindE_Inr_iff split: if_split_asm dest!: logs_eq)
  then have same: "log_part db2 = log_part db" using 2(1) by (auto split: if_split_asm dest: logs_eq)
  have "told db6" by (rule told_step[OF assms(2) same 2(2) _ _ _ _ 3 4]) (auto simp: controlled_row_def)
  then show ?thesis using 5 by (auto split: if_split_asm dest: failDescendants_told)
qed

subsection \<open>Admissions\<close>

lemma owing_admitted:
  assumes "owing D db" "appendActorEvent i ty s v now pl db = Inr db'" "D i = Some (v, s)"
  shows "owing (D(i := None)) db'"
  using owing_event[OF assms(1)] assms(2,3) by (simp add: appendActorEvent_def)

lemma newJob_version [simp]: "j_state_version (newJob i spec at r now) = 1" "j_id (newJob i spec at r now) = i"
    "j_state_version (dead_on_arrival now job) = j_state_version job" "j_id (dead_on_arrival now job) = j_id job"
  by (simp_all add: newJob_def dead_on_arrival_def)

lemma insert_told:
  assumes "told db" "insertJob job db1 = Inr db2" "j_state_version job = 1" "log_part db1 = log_part db"
    and "log_part db3 = log_part db2" "appendEvent (j_id job) ty (j_state job) (j_state_version job) now pl db3 = Inr db4"
  shows "told db4"
proof -
  have "owing Map.empty db1" using assms(1) owing_cong[OF assms(4)] by (simp add: told_def)
  then have "owing [j_id job \<mapsto> (1, j_state job)] db2" using owing_insert[OF _ assms(2,3)] by blast
  then have "owing [j_id job \<mapsto> (1, j_state job)] db3" using owing_cong[OF assms(5)] by simp
  then have "owing ([j_id job \<mapsto> (1, j_state job)](j_id job := None)) db4" by (rule owing_event[OF _ assms(6)]) (simp add: assms(3))
  then show ?thesis by (simp add: told_def fun_upd_idem)
qed

lemma admit_job_told:
  assumes "admit_job s spec actor ent now db = Inr (job, db')" "told db"
  shows "told db'"
proof (rule admit_job_Inr[OF assms(1)])
  fix deps ok failed db1 db2 db3 db4 db5 db6 i r
  assume 1: "ensureAdmission s (s_tenant spec) 1 db = Inr db1" "ensureQueue (s_tenant spec) (s_queue spec) now db1 = Inr db2"
    "(if ok \<and> (if s_available_at spec = zero_time then now else s_available_at spec) \<le> now then nextReadySeq db2 else Inr (0, db2)) = Inr (r, db3)"
    and job: "job = (if failed then dead_on_arrival now (newJob i spec (if s_available_at spec = zero_time then now else s_available_at spec) r now)
      else newJob i spec (if s_available_at spec = zero_time then now else s_available_at spec) r now)"
    and 2: "insertJob job db3 = Inr db4" "foldE (\<lambda>d. insert_dependency ''insert job dependency: %w'' (j_id job) d) deps db4 = Inr db5"
    and 3: "appendActorEvent (j_id job) ''job_admitted'' (j_state job) (j_state_version job) now (admitted_payload actor job) db5 = Inr db6"
    and 4: "(if failed then bindE (insertCanonicalCompletion (j_id job) (j_state job) (j_state_version job) 0 '''' (j_failure job) now db6)
           (insertDeadLetter (j_id job) (j_failure job) now) else Inr db6) = Inr db'"
  have "log_part db3 = log_part db" using 1 by (auto split: if_split_asm dest!: logs_eq)
  moreover have "j_state_version job = 1" by (simp add: job)
  ultimately have "told db6"
    using insert_told[OF assms(2) 2(1) _ _ _ 3[unfolded appendActorEvent_def]] insert_dependencies_logs[OF 2(2)] by simp
  moreover have "log_part db' = log_part db6" using 4 by (auto simp: bindE_Inr_iff split: if_split_asm dest!: logs_eq)
  ultimately show ?thesis using told_cong[of db' db6] by simp
qed

text \<open>A workflow's jobs are all inserted before the first of its events is appended: each of them
  owes the event of its admission.\<close>

primrec admits :: "Job list \<Rightarrow> (string \<Rightarrow> (int \<times> JobState) option) \<Rightarrow> string \<Rightarrow> (int \<times> JobState) option" where
  "admits [] D = D" |
  "admits (j # js) D = admits js (D(j_id j \<mapsto> (1, j_state j)))"

lemma insert_workflow_jobs_owing:
  "insert_workflow_jobs t now xs db = Inr (js, db') \<Longrightarrow> owing D db \<Longrightarrow>
   owing (admits js D) db' \<and> distinct (map j_id js) \<and> (\<forall>j \<in> set js. D (j_id j) = None \<and> j_state_version j = 1)"
proof (induction xs arbitrary: db js D)
  case (Cons x xs)
  obtain i spec parents where x: "x = (i, spec, parents)" by (cases x) auto
  let ?at = "if s_available_at spec = zero_time then now else s_available_at spec"
  obtain db1 r db2 db3 js' where 1: "ensureQueue t (s_queue spec) now db = Inr db1"
    "(if parents = [] \<and> ?at \<le> now then nextReadySeq db1 else Inr (0, db1)) = Inr (r, db2)"
    and 2: "insertJob (newJob i spec ?at r now) db2 = Inr db3" and 3: "insert_workflow_jobs t now xs db3 = Inr (js', db')"
    and js: "js = newJob i spec ?at r now # js'"
    using Cons.prems by (auto simp: x bindE_Inr_iff Let_def)
  let ?j = "newJob i spec ?at r now"
  have "log_part db2 = log_part db" using 1 by (auto split: if_split_asm dest!: logs_eq)
  then have "owing D db2" using Cons.prems(2) owing_cong[of db2 db D] by simp
  then have new: "owing (D(i \<mapsto> (1, j_state ?j))) db3" "D i = None" using owing_insert[OF _ 2] by simp_all
  have IH: "owing (admits js' (D(i \<mapsto> (1, j_state ?j)))) db' \<and> distinct (map j_id js') \<and>
      (\<forall>j \<in> set js'. (D(i \<mapsto> (1, j_state ?j))) (j_id j) = None \<and> j_state_version j = 1)"
    by (rule Cons.IH[OF 3 new(1)])
  then have "\<forall>j \<in> set js'. j_id j \<noteq> i \<and> D (j_id j) = None \<and> j_state_version j = 1" by (metis fun_upd_apply option.distinct(1))
  then show ?case using IH new(2) js by auto
qed auto

lemma admits_clear: "i \<notin> set (map j_id js) \<Longrightarrow> (admits js (D(i \<mapsto> x)))(i := None) = admits js (D(i := None))"
proof (induction js arbitrary: D)
  case (Cons j js)
  have "(D(i \<mapsto> x))(j_id j \<mapsto> (1, j_state j)) = (D(j_id j \<mapsto> (1, j_state j)))(i \<mapsto> x)" using Cons.prems by (intro fun_upd_twist) auto
  moreover have "(D(i := None))(j_id j \<mapsto> (1, j_state j)) = (D(j_id j \<mapsto> (1, j_state j)))(i := None)" using Cons.prems by (intro fun_upd_twist) auto
  moreover have "i \<notin> set (map j_id js)" using Cons.prems by simp
  note Cons.IH[OF this, of "D(j_id j \<mapsto> (1, j_state j))"]
  ultimately show ?case unfolding admits.simps by (simp only:)
qed simp

lemma admits_keep: "i \<notin> set (map j_id js) \<Longrightarrow> admits js D i = D i"
  by (induction js arbitrary: D) auto

lemma admit_events_told:
  assumes "foldE (\<lambda>j. appendActorEvent (j_id j) ty (j_state j) (j_state_version j) now (pl j)) js db = Inr db'"
    and "owing (admits js D) db" "distinct (map j_id js)" "\<forall>j \<in> set js. D (j_id j) = None \<and> j_state_version j = 1"
  shows "owing D db'"
  using assms
proof (induction js arbitrary: db)
  case (Cons j js)
  obtain db1 where 1: "appendActorEvent (j_id j) ty (j_state j) (j_state_version j) now (pl j) db = Inr db1"
    and 2: "foldE (\<lambda>j. appendActorEvent (j_id j) ty (j_state j) (j_state_version j) now (pl j)) js db1 = Inr db'"
    using Cons.prems(1) by (auto simp: bindE_Inr_iff)
  let ?D = "admits js (D(j_id j \<mapsto> (1, j_state j)))"
  have j: "j_id j \<notin> set (map j_id js)" "D (j_id j) = None" using Cons.prems by auto
  have "?D (j_id j) = Some (j_state_version j, j_state j)" using admits_keep[OF j(1)] Cons.prems(4) by simp
  moreover have "owing ?D db" using Cons.prems(2) unfolding admits.simps .
  ultimately have "owing (?D(j_id j := None)) db1" using owing_admitted[OF _ 1] by blast
  then have "owing (admits js D) db1" using admits_clear[OF j(1)] j(2) by (simp add: fun_upd_idem)
  then show ?case using Cons.IH[OF 2] Cons.prems(3,4) by simp
qed simp

lemma admit_workflow_told:
  assumes "admit_workflow s sub t ent now db = Inr (js, db')" "told db"
  shows "told db'"
proof -
  obtain n db1 xs db2 m es db3 ty pl where 1: "ensureAdmission s t n db = Inr db1" and 2: "insert_workflow_jobs t now xs db1 = Inr (js, db2)"
    and 3: "foldE (\<lambda>(c, p). insert_dependency m c p) es db2 = Inr db3"
    and 4: "foldE (\<lambda>j. appendActorEvent (j_id j) ty (j_state j) (j_state_version j) now (pl j)) js db3 = Inr db'"
    using assms(1) unfolding admit_workflow_def by (auto simp: bindE_Inr_iff)
  have "owing Map.empty db1" using assms(2) owing_cong[OF ensureAdmission_logs[OF 1]] by (simp add: told_def)
  note w = insert_workflow_jobs_owing[OF 2 this]
  then have "owing (admits js Map.empty) db3" using owing_cong[OF insert_edges_logs[OF 3]] by blast
  then show ?thesis unfolding told_def using admit_events_told[OF 4] w by blast
qed

lemma cloneJob_told:
  assumes "cloneJob s original ent now db = Inr (job, db')" "told db"
  shows "told db'"
proof -
  obtain db1 db2 i ent' n db3 db4 where 1: "ensureAdmission s (j_tenant original) 1 db = Inr db1" "ensureQueue (j_tenant original) (j_queue original) now db1 = Inr db2"
    "nextReadySeq db2 = Inr (n, db3)" and job: "job = newJob i (clone_spec original) now n now" and 2: "insertJob job db3 = Inr db4"
    and 3: "appendEvent (j_id job) ''job_admitted'' (j_state job) (j_state_version job) now
              (JObj [(''ready_seq'', JInt n), (''source_job_id'', JStr (j_id original))]) db4 = Inr db'"
    using assms(1) by (auto simp: cloneJob_def Let_def bindE_Inr_iff)
  have "log_part db3 = log_part db" using 1 by (auto dest!: logs_eq)
  then show ?thesis using insert_told[OF assms(2) 2 _ _ refl 3] job by simp
qed

lemma cloneJob_standing:
  assumes "cloneJob s original ent now db = Inr (job, db')" "standing db i = Some x"
  shows "standing db' i = Some x"
proof -
  obtain db3 db4 ty st v pl where 1: "log_part db3 = log_part db" and 2: "insertJob job db3 = Inr db4"
    and 3: "appendEvent (j_id job) ty st v now pl db4 = Inr db'"
    using assms(1) by (auto simp: cloneJob_def Let_def bindE_Inr_iff dest!: ensureAdmission_logs ensureQueue_logs nextReadySeq_logs)
  have "jobs db' = jobs db @ [job_row_of job]"
    using 1 2 timeline_append[OF 3] by (auto simp: insertJob_def log_part_def split: if_split_asm)
  then show ?thesis using assms(2) by (auto simp: standing_def lookup_append split: option.split_asm)
qed

lemma attribute_admission_told:
  assumes "attribute_admission a i db = Inr db'"
  shows "told db' = told db \<and> standing db' k = standing db k"
proof -
  obtain p pl where db': "db' = db\<lparr>events := update_where p (\<lambda>e. e\<lparr>ev_payload := pl e\<rparr>) (events db)\<rparr>"
    using assms by (auto simp: attribute_admission_def Let_def split: if_split_asm)
  have "filter (\<lambda>e. ev_job e = i) (update_where p (\<lambda>e. e\<lparr>ev_payload := pl e\<rparr>) es) =
      update_where p (\<lambda>e. e\<lparr>ev_payload := pl e\<rparr>) (filter (\<lambda>e. ev_job e = i) es)" for i es
    by (induction es) (auto simp: update_where_def)
  then have "timeline db' i = timeline db i" for i
    by (simp add: db' timeline_def) (simp add: update_where_def)
  then show ?thesis by (simp add: told_def owing_def db' standing_def) (simp add: update_where_def comp_def if_distrib cong: if_cong)
qed

lemma standing_logs: "log_part db' = log_part db \<Longrightarrow> standing db' i = standing db i"
  by (simp add: log_part_def standing_def)

lemma insertControlAction_told: "insertControlAction a db = Inr db' \<Longrightarrow> told db' = told db"
  by (rule told_cong) (rule insertControlAction_logs)

lemma record_idempotency_told: "record_idempotency m r db = Inr db' \<Longrightarrow> told db' = told db"
  by (rule told_cong) (rule record_idempotency_logs)

lemma ApplyJobControl_told:
  assumes "ApplyJobControl_tx c now db = Inr (r, db')" "told db"
  shows "told db'"
proof -
  obtain j stored where j: "lookup j_id (jc_job c) (jobs db) = Some j"
    and st: "readControlAction db (j_tenant j) (jc_key c) (jc_audit_action c) (jc_digest c) = Inr stored"
    using assms unfolding ApplyJobControl_tx_def by (auto simp: bindE_Inr_iff split: option.split_asm)
  show ?thesis
  proof (cases stored)
    case None
    then show ?thesis
      using assms j st by (auto simp: ApplyJobControl_tx_def bindE_Inr_iff Let_def insertControlAction_told split: if_split_asm
        dest: control_job_told)
  next
    case (Some x)
    then show ?thesis using assms j st by (cases x) (auto simp: ApplyJobControl_tx_def)
  qed
qed

lemma RedriveDeadLetter_told:
  assumes run: "RedriveDeadLetter_tx s actor i key digest ent now db = Inr (r, db')" and "told db"
  shows "told db'"
proof -
  obtain row dl stored where rows: "lookup j_id i (jobs db) = Some row" "lookup dl_job i (dead_letters db) = Some dl"
    and st: "readControlAction db (j_tenant (scanJob row)) key ''dead_letter.redrive'' digest = Inr stored"
    using run unfolding RedriveDeadLetter_tx_def Let_def by (auto simp: bindE_Inr_iff split: option.split_asm)
  show ?thesis
  proof (cases stored)
    case None
    obtain created db1 db2 db3 db4 pl a where 1: "cloneJob s (scanJob row) ent now db = Inr (created, db1)"
      and 2: "attribute_admission actor (j_id created) db1 = Inr db2" and 3: "link_redrive i (j_id created) db2 = Inr db3"
      and 4: "appendEvent i ''operator_redrive'' (j_state (scanJob row)) (j_state_version (scanJob row)) now pl db3 = Inr db4"
      and 5: "insertControlAction a db4 = Inr db'"
      using None run rows st unfolding RedriveDeadLetter_tx_def Let_def appendActorEvent_def
      by (auto simp: bindE_Inr_iff split: if_split_asm)
    have "standing db i = Some (j_state_version (scanJob row), j_state (scanJob row))"
      using rows(1) by (simp add: standing_def scanJob_def Job.defs)
    then have "standing db3 i = Some (j_state_version (scanJob row), j_state (scanJob row))"
      using cloneJob_standing[OF 1] attribute_admission_told[OF 2] standing_logs[OF link_redrive_logs[OF 3]] by simp
    moreover have "told db3"
      using cloneJob_told[OF 1 assms(2)] attribute_admission_told[OF 2] told_cong[OF link_redrive_logs[OF 3]] by simp
    ultimately show ?thesis using told_note[OF _ 4] insertControlAction_told[OF 5] by simp
  next
    case (Some x)
    then show ?thesis using run rows st assms(2) by (cases x) (auto simp: RedriveDeadLetter_tx_def)
  qed
qed

lemma dead_letter_state:
  assumes "db_inv db" "lookup j_id i (jobs db) = Some row" "lookup dl_job i (dead_letters db) = Some dl"
  shows "j_state row = StateDeadLetter"
proof -
  have v: "y_jobs (abs db) i = Some (view row)" using abs_job[OF assms(2)] .
  have "job_inv (abs db) i (view row)" using assms(1) v unfolding db_inv_def yard_inv_def by (metis option.simps(5))
  moreover have "i \<in> y_dead (abs db)" using lookup_Some_in[OF assms(3)] by (auto simp: abs_sel)
  ultimately show ?thesis by (simp add: job_inv_def view_def)
qed

lemma RedriveDeadLetterControl_told:
  assumes run: "RedriveDeadLetterControl_tx s c ent now db = Inr (r, db')" and "told db" "db_inv db"
  shows "told db'"
proof -
  let ?i = "rc_job c"
  obtain row dl stored where rows: "lookup j_id ?i (jobs db) = Some row" "lookup dl_job ?i (dead_letters db) = Some dl"
    and st: "readControlAction db (j_tenant (scanJob row)) (rc_key c) ''dead_letter.redrive'' (rc_digest c) = Inr stored"
    using run unfolding RedriveDeadLetterControl_tx_def Let_def by (auto simp: bindE_Inr_iff split: option.split_asm)
  show ?thesis
  proof (cases stored)
    case None
    obtain created db1 db3 db4 pl a where 1: "cloneJob s (scanJob row) ent now db = Inr (created, db1)"
      and 3: "link_redrive ?i (j_id created) db1 = Inr db3"
      and 4: "appendEvent ?i ''operator_redrive'' StateDeadLetter (j_state_version (scanJob row)) now pl db3 = Inr db4"
      and 5: "insertControlAction a db4 = Inr db'"
      using None run rows st unfolding RedriveDeadLetterControl_tx_def Let_def
      by (auto simp: bindE_Inr_iff split: if_split_asm)
    have "standing db ?i = Some (j_state_version (scanJob row), StateDeadLetter)"
      using rows(1) dead_letter_state[OF assms(3) rows] by (simp add: standing_def scanJob_def Job.defs)
    then have "standing db3 ?i = Some (j_state_version (scanJob row), StateDeadLetter)"
      using cloneJob_standing[OF 1] standing_logs[OF link_redrive_logs[OF 3]] by simp
    moreover have "told db3" using cloneJob_told[OF 1 assms(2)] told_cong[OF link_redrive_logs[OF 3]] by simp
    ultimately show ?thesis using told_note[OF _ 4] insertControlAction_told[OF 5] by simp
  next
    case (Some x)
    then show ?thesis using run rows st assms(2) by (cases x) (auto simp: RedriveDeadLetterControl_tx_def)
  qed
qed

lemma RetryJobControl_told:
  assumes run: "RetryJobControl_tx s c ent now db = Inr (r, db')" and "told db"
  shows "told db'"
proof -
  let ?i = "rc_job c"
  obtain row stored where rows: "lookup j_id ?i (jobs db) = Some row"
    and st: "readControlAction db (j_tenant (scanJob row)) (rc_key c) ''job.retry'' (rc_digest c) = Inr stored"
    using run unfolding RetryJobControl_tx_def Let_def by (auto simp: bindE_Inr_iff split: option.split_asm)
  show ?thesis
  proof (cases stored)
    case None
    obtain created db1 db4 pl a where 1: "cloneJob s (scanJob row) ent now db = Inr (created, db1)"
      and 4: "appendEvent ?i ''operator_retry'' (j_state (scanJob row)) (j_state_version (scanJob row)) now pl db1 = Inr db4"
      and 5: "insertControlAction a db4 = Inr db'"
      using None run rows st unfolding RetryJobControl_tx_def Let_def by (auto simp: bindE_Inr_iff split: if_split_asm)
    have "standing db ?i = Some (j_state_version (scanJob row), j_state (scanJob row))"
      using rows by (simp add: standing_def scanJob_def Job.defs)
    then show ?thesis
      using told_note[OF cloneJob_told[OF 1 assms(2)] 4] cloneJob_standing[OF 1] insertControlAction_told[OF 5] by simp
  next
    case (Some x)
    then show ?thesis using run rows st assms(2) by (cases x) (auto simp: RetryJobControl_tx_def)
  qed
qed

lemma SubmitJob_told:
  assumes run: "SubmitJob_tx s sub ent now db = Inr (r, db')" and "told db"
  shows "told db'"
proof -
  obtain found where fd: "readIdempotency db (s_tenant (Normalize (sub_job sub))) (sub_key sub) ''job'' (sub_digest sub) = Inr found"
      "validateIdempotency (sub_key sub) (sub_digest sub) = Inr ()"
    using run unfolding SubmitJob_tx_def Let_def by (auto simp: bindE_Inr_iff)
  show ?thesis
  proof (cases found)
    case None
    then show ?thesis using run fd assms(2) unfolding SubmitJob_tx_def Let_def
      by (auto simp: bindE_Inr_iff record_idempotency_told dest: admit_job_told)
  next
    case (Some x)
    then show ?thesis using run fd assms(2) by (cases x) (auto simp: SubmitJob_tx_def)
  qed
qed

lemma SubmitJobOperation_told:
  assumes run: "SubmitJobOperation_tx s c ent now db = Inr (r, db')" and "told db"
  shows "told db'"
proof -
  obtain found where fd: "readControlAction db (s_tenant (Normalize (sj_job c))) (sj_key c) ''job.submit'' (sj_digest c) = Inr found"
      "validateIdempotency (sj_key c) (sj_digest c) = Inr ()"
    using run unfolding SubmitJobOperation_tx_def Let_def by (auto simp: bindE_Inr_iff)
  show ?thesis
  proof (cases found)
    case None
    then show ?thesis using run fd assms(2) unfolding SubmitJobOperation_tx_def Let_def
      by (auto simp: bindE_Inr_iff insertControlAction_told dest: admit_job_told)
  next
    case (Some x)
    then show ?thesis using run fd assms(2) by (cases x) (auto simp: SubmitJobOperation_tx_def)
  qed
qed

lemma SubmitWorkflow_told:
  assumes run: "SubmitWorkflow_tx s sub ent now db = Inr (r, db')" and "told db"
  shows "told db'"
proof -
  define t where "t = (if ws_tenant sub = '''' then ''default'' else ws_tenant sub)"
  note run' = run[unfolded SubmitWorkflow_tx_def Let_def t_def[symmetric]]
  obtain found where fd: "readIdempotency db t (ws_key sub) ''workflow'' (ws_digest sub) = Inr found"
      "validateIdempotency (ws_key sub) (ws_digest sub) = Inr ()"
    using run' by (auto simp: bindE_Inr_iff)
  show ?thesis
  proof (cases found)
    case None
    then show ?thesis using run' fd assms(2)
      by (auto simp: bindE_Inr_iff record_idempotency_told dest: admit_workflow_told)
  next
    case (Some x)
    then show ?thesis using run' fd assms(2) by (cases x) auto
  qed
qed

lemma dag_rows_told:
  "foldE (insert_dag_job d) ns db = Inr db' \<Longrightarrow> told db' = told db" "insert_dag_run d t k g now db = Inr db' \<Longrightarrow> told db' = told db"
  by (auto intro!: told_cong dest: logs_eq)

lemma SubmitDAGOperation_told:
  assumes run: "SubmitDAGOperation_tx s d c ent now db = Inr (r, db')" and "told db"
  shows "told db'"
proof -
  define t where "t = (if ws_tenant c = '''' then ''default'' else ws_tenant c)"
  note run' = run[unfolded SubmitDAGOperation_tx_def Let_def t_def[symmetric]]
  obtain found where fd: "readControlAction db t (ws_key c) ''dag.submit'' (ws_digest c) = Inr found"
      "validateIdempotency (ws_key c) (ws_digest c) = Inr ()"
    using run' by (auto simp: bindE_Inr_iff)
  show ?thesis
  proof (cases found)
    case None
    then show ?thesis using run' fd assms(2)
      by (auto simp: bindE_Inr_iff insertControlAction_told dag_rows_told dest: admit_workflow_told)
  next
    case (Some x)
    then show ?thesis using run' fd assms(2) by (cases x) auto
  qed
qed

lemma CreateCronTrigger_told:
  assumes run: "CreateCronTrigger_tx parse s sub ent now db = Inr (r, db')" and "told db"
  shows "told db'"
proof -
  define v where "v = (if t_tenant (cs_trigger sub) = '''' then (cs_trigger sub)\<lparr>t_tenant := ''default''\<rparr> else cs_trigger sub)"
  define w where "w = v\<lparr>t_job := Normalize ((t_job v)\<lparr>s_tenant := t_tenant v\<rparr>)\<rparr>"
  note run' = run[unfolded CreateCronTrigger_tx_def Let_def v_def[symmetric] w_def[symmetric]]
  obtain found schedule where fd: "readIdempotency db (t_tenant w) (cs_key sub) ''cron'' (cs_digest sub) = Inr found"
      "JobSpec_Validate (t_job w) (s_max_slot_cost s) (s_allow_shell s) = Inr ()" "ParseCron parse (t_expression w) = Inr schedule"
      "validateIdempotency (cs_key sub) (cs_digest sub) = Inr ()"
    using run' by (auto simp: bindE_Inr_iff)
  show ?thesis
  proof (cases found)
    case None
    have cron: "told (db\<lparr>cron_triggers := rows\<rparr>) = told db" for rows by (rule told_cong) simp
    show ?thesis using None run' fd assms(2)
      by (auto simp: bindE_Inr_iff record_idempotency_told cron split: option.split_asm)
  next
    case (Some x)
    then show ?thesis using run' fd assms(2) by (cases x) auto
  qed
qed

subsection \<open>Scheduling\<close>

lemma persist_queues_logs: "log_part (fold (persist_queue now) qs db) = log_part db"
proof (induction qs arbitrary: db)
  case (Cons q qs)
  have "log_part (persist_queue now q db) = log_part db" by (simp add: persist_queue_def)
  then show ?case using Cons.IH[of "persist_queue now q db"] by simp
qed simp

lemma acquire_tx_told:
  assumes run: "acquire_tx w slots limit ttl reserve ent now db = Inr (ls, db')" and "told db"
  shows "told db'"
proof -
  obtain plan db1 where plan: "buildSchedulePlan now slots limit reserve db = Inr (plan, db1)"
    using run by (auto simp: acquire_tx_def bindE_Inr_iff)
  have "log_part db1 = log_part db"
    using plan by (auto simp: buildSchedulePlan_def nextCounter_def Let_def bindE_Inr_iff split: if_split_asm)
  then have 1: "told db1" using assms(2) told_cong by blast
  show ?thesis
  proof (cases "sp_candidates plan = []")
    case True
    then show ?thesis using run plan assms(2) by (simp add: acquire_tx_def)
  next
    case False
    obtain ent' db2 where fold: "foldE (lease_grant plan w now ttl) (de_grants (sp_decision plan)) ([], ent, db1) = Inr (ls, ent', db2)"
      and per: "persistSchedulePlan plan now db2 = Inr db'"
      using run plan False by (auto simp: acquire_tx_def bindE_Inr_iff)
    have "(\<lambda>(_, _, u). told u) (ls, ent', db2)"
      by (rule foldE_invariant[OF fold]) (use 1 in \<open>auto dest: lease_grant_told\<close>)
    moreover have "log_part db' = log_part db2"
      using per persist_queues_logs[of now "de_queues (sp_decision plan)" db2]
      by (auto simp: persistSchedulePlan_def setCounter_def Let_def bindE_Inr_iff split: if_split_asm)
    ultimately show ?thesis using told_cong by blast
  qed
qed

lemma heartbeats_told:
  assumes "foldE (heartbeat_one w now ttl) refs (rs, db) = Inr (rs', db')" "told db"
  shows "told db'"
proof -
  have "(\<lambda>(_, u). log_part u = log_part db) (rs', db')"
    by (rule foldE_invariant[OF assms(1)]) (auto simp: heartbeat_one_def Let_def split: if_splits option.splits)
  then show ?thesis using assms(2) told_cong[of db' db] by simp
qed

section \<open>The store\<close>

lemma transact_told:
  assumes "\<And>now x db'. body now (s_db s) = Inr (x, db') \<Longrightarrow> told db'" "told (s_db s)"
  shows "told (s_db (snd (transact body r el s)))"
  by (cases rule: transact_cases[of body s r el]) (auto simp: writeTime_facts assms(2) intro: assms(1))

lemma counted_told:
  assumes "told (s_db (snd (transact body r el s)))" and "\<And>s'. s_db (f s') = s_db s'"
  shows "told (s_db (snd (case transact body r el s of (Inl e, s') \<Rightarrow> (Inl e, s') | (Inr x, s') \<Rightarrow> (Inr x, f s'))))"
  using assms by (cases "transact body r el s") (auto split: sum.split)

lemma SubmitJob_run_told: "told (s_db s) \<Longrightarrow> told (s_db (snd (SubmitJob sub ent t e s)))"
  unfolding SubmitJob_def by (rule transact_told) (auto intro: SubmitJob_told)

lemma record_occurrence_told: "record_occurrence v i t now db = Inr db' \<Longrightarrow> told db' = told db"
  by (rule told_cong) (auto simp: record_occurrence_def Let_def split: option.splits if_splits)

lemma record_delivery_told: "record_delivery d i now db = Inr db' \<Longrightarrow> told db' = told db"
  by (rule told_cong) (auto simp: record_delivery_def Let_def split: option.splits if_splits)

lemma fire_due_told: "told (s_db s) \<Longrightarrow> told (s_db (snd (fire_due parse now ent elapsed i rows ids s)))"
proof (induction parse now ent elapsed i rows ids s rule: fire_due.induct)
  case (2 parse now ent elapsed i row rest ids s)
  define key where "key = CronOccurrenceKey (cr_id row) (timeFromDB (cr_next_fire_at row))"
  define sub where "sub = \<lparr>sub_job = cr_job row, sub_actor = (if cr_actor row = '''' then ''system'' else cr_actor row),
    sub_key = key, sub_digest = sha256_hex key\<rparr>"
  obtain x s1 where run: "SubmitJob sub (ent i) now (elapsed i) s = (x, s1)" by (cases "SubmitJob sub (ent i) now (elapsed i) s") auto
  have s1: "told (s_db s1)" using SubmitJob_run_told[OF "2.prems", of sub "ent i" now "elapsed i"] by (simp add: run)
  show ?case
  proof (cases x)
    case (Inr y)
    then obtain job dup where y: "x = Inr (job, dup)" by (cases y) auto
    show ?thesis
    proof (cases "ParseCron parse (cr_expression row)")
      case (Inr schedule)
      show ?thesis
      proof (cases "record_occurrence row (j_id job) (schedule now) now (s_db s1)")
        case rec: (Inr db')
        have "told db'" using record_occurrence_told[OF rec] s1 by simp
        then show ?thesis
          using "2.IH"[OF key_def sub_def run[symmetric] y refl Inr rec] run y Inr rec
          by (fastforce simp: Let_def key_def[symmetric] sub_def[symmetric])
      qed (use s1 run y Inr in \<open>auto simp: Let_def key_def[symmetric] sub_def[symmetric]\<close>)
    qed (use s1 run y in \<open>auto simp: Let_def key_def[symmetric] sub_def[symmetric]\<close>)
  qed (use s1 run in \<open>auto simp: Let_def key_def[symmetric] sub_def[symmetric]\<close>)
qed simp

lemma deliver_told:
  assumes "told (s_db s)"
  shows "told (s_db (snd (DeliverRedis d spec g ent now el s)))"
proof -
  define sub where "sub = \<lparr>sub_job = spec, sub_actor = ''system'', sub_key = IdempotencyKey d, sub_digest = g\<rparr>"
  obtain x s1 where run: "SubmitJob sub ent now el s = (x, s1)" by (cases "SubmitJob sub ent now el s") auto
  have s1: "told (s_db s1)" using SubmitJob_run_told[OF assms, of sub ent now el] by (simp add: run)
  show ?thesis
    using s1 run by (auto simp: DeliverRedis_def sub_def[symmetric] record_delivery_told split: sum.split)
qed

lemma record_operator_told:
  assumes "told (s_db s)"
  shows "told (s_db (snd (RecordOperatorAction a e s)))"
  unfolding RecordOperatorAction_def Let_def
proof (rule transact_told[OF _ assms])
  fix now x db'
  let ?a = "default_tenant (a\<lparr>ct_committed_at := now\<rparr>)"
  assume run: "bindE (readControlAction (s_db s) (ct_tenant ?a) (ct_key ?a) (ct_action ?a) (ct_digest ?a)) (\<lambda>stored.
       case stored of Some (OpEvent e) \<Rightarrow> Inr ((e, True), s_db s)
       | Some _ \<Rightarrow> Inl (ErrNew ''decode operator action response: %w'')
       | None \<Rightarrow> bindE (insertControlActionWithEvent (?a\<lparr>ct_response := OpEvent (newAuditEvent ?a)\<rparr>) (newAuditEvent ?a) (s_db s))
                   (\<lambda>db'. Inr ((newAuditEvent ?a, False), db'))) = Inr (x, db')"
  then obtain st where st: "readControlAction (s_db s) (ct_tenant ?a) (ct_key ?a) (ct_action ?a) (ct_digest ?a) = Inr st"
    by (auto simp: bindE_Inr_iff)
  have "log_part db' = log_part (s_db s)"
  proof (cases st)
    case None
    then show ?thesis using run st by (auto simp: bindE_Inr_iff dest!: insertControlActionWithEvent_logs)
  next
    case (Some y)
    then show ?thesis using run st by (cases y) auto
  qed
  then show "told db'" using assms told_cong by blast
qed

lemma maintenance_told:
  assumes "told (s_db s)"
  shows "told (s_db (snd (PromoteDue t limit e s)))" "told (s_db (snd (ReapExpired t limit e s)))"
proof -
  have "foldE (promote_job now) xs u = Inr v \<Longrightarrow> told u \<Longrightarrow> told v" for now xs u v
    by (erule told_foldE) (auto intro: promote_job_told)
  then show "told (s_db (snd (PromoteDue t limit e s)))"
    using assms by (auto simp: PromoteDue_def Let_def bindE_Inr_iff intro!: transact_told)
  have "foldE (reapAttempt now) xs u = Inr v \<Longrightarrow> told u \<Longrightarrow> told v" for now xs u v
    by (erule told_foldE) (auto intro: reapAttempt_told)
  then show "told (s_db (snd (ReapExpired t limit e s)))"
    using assms by (auto simp: ReapExpired_def ReapExpired_tx_def Let_def bindE_Inr_iff intro!: transact_told)
qed

lemma attempt_ops_told:
  assumes "told (s_db s)"
  shows "told (s_db (snd (acquire w slots limit t ttl reserve ent e s)))"
    and "told (s_db (snd (MarkRunning w ref t e s)))"
    and "told (s_db (snd (MarkRunningBatch w refs t e s)))"
    and "told (s_db (snd (Heartbeat w refs t ttl e s)))"
    and "told (s_db (snd (Complete c t e s)))"
    and "told (s_db (snd (CompleteBatch cs t e s)))"
proof -
  show "told (s_db (snd (MarkRunning w ref t e s)))"
    unfolding MarkRunning_def using assms by (intro counted_told transact_told) (auto simp: bindE_Inr_iff intro: markRunningTx_told)
  show "told (s_db (snd (MarkRunningBatch w refs t e s)))"
    using assms unfolding MarkRunningBatch_def by (auto intro!: counted_told transact_told intro: mark_batch_told)
  show "told (s_db (snd (acquire w slots limit t ttl reserve ent e s)))"
    using assms unfolding acquire_def by (auto intro!: transact_told intro: acquire_tx_told)
  show "told (s_db (snd (Heartbeat w refs t ttl e s)))"
    using assms unfolding Heartbeat_def by (auto intro!: transact_told intro: heartbeats_told)
  show "told (s_db (snd (Complete c t e s)))"
    using assms unfolding Complete_def by (intro counted_told transact_told) (auto intro: applyCompletionTx_told)
  show "told (s_db (snd (CompleteBatch cs t e s)))"
    using assms unfolding CompleteBatch_def by (auto intro!: counted_told transact_told intro: complete_batch_told)
qed

lemma told_workers [simp]: "told (db\<lparr>workers := rows\<rparr>) = told db"
  by (rule told_cong) simp

lemma SaveDAG_told: "SaveDAG_tx d t k g ns now db = Inr (r, db') \<Longrightarrow> told db' = told db"
  by (rule told_cong) (auto simp: SaveDAG_tx_def bindE_Inr_iff split: option.splits if_splits dest!: logs_eq)

lemma RegisterWorker_told: "RegisterWorker_tx w c now db = Inr (u, db') \<Longrightarrow> told db' = told db"
  by (rule told_cong) (auto simp: RegisterWorker_tx_def split: option.splits if_splits)

lemma submission_ops_told:
  assumes "told (s_db s)"
  shows "told (s_db (snd (SubmitWorkflow wsub ent t e s)))" "told (s_db (snd (SubmitJobOperation sj ent e s)))"
    "told (s_db (snd (SubmitDAGOperation d wsub ent t e s)))" "told (s_db (snd (SaveDAG d tn k g ns t e s)))"
    "told (s_db (snd (CreateCronTrigger parse cs ent t e s)))" "told (s_db (snd (RegisterWorker w cap t e s)))"
    "told (s_db (snd (HeartbeatWorker w t e s)))"
  unfolding SubmitWorkflow_def SubmitJobOperation_def SubmitDAGOperation_def SaveDAG_def CreateCronTrigger_def RegisterWorker_def
    HeartbeatWorker_def commitOperation_def Let_def
  using assms by (auto intro!: transact_told dest: SubmitWorkflow_told SubmitJobOperation_told SubmitDAGOperation_told
    CreateCronTrigger_told simp: SaveDAG_told RegisterWorker_told bindE_Inr_iff split: if_splits)

lemma operator_ops_told:
  assumes "told (s_db s)" "store_ok s"
  shows "told (s_db (snd (ApplyJobControl jc e s)))" "told (s_db (snd (RedriveDeadLetter actor i k g ent t e s)))"
    "told (s_db (snd (RedriveDeadLetterControl rc ent e s)))" "told (s_db (snd (RetryJobControl rc ent e s)))"
    "told (s_db (snd (RecordControlAction a e s)))"
  unfolding ApplyJobControl_def RedriveDeadLetter_def RedriveDeadLetterControl_def RetryJobControl_def RecordControlAction_def
    commitOperation_def Let_def
  using assms by (auto intro!: transact_told dest: ApplyJobControl_told RedriveDeadLetter_told RetryJobControl_told
    RedriveDeadLetterControl_told simp: store_ok_def insertControlAction_told bindE_Inr_iff split: if_splits)

lemma serve_told: "store_ok s \<Longrightarrow> told (s_db s) \<Longrightarrow> told (s_db (serve parse r s))"
  by (cases r) (auto simp: SubmitJob_run_told attempt_ops_told submission_ops_told operator_ops_told maintenance_told
    record_operator_told deliver_told FireDueCron_def fire_due_told Acquire_def AcquireWithRecoveryReserve_def)

lemma reachable_told: "reachable parse f s \<Longrightarrow> told (s_db s)"
proof (induction rule: reachable.induct)
  case (opened options s)
  then show ?case
    by (auto dest!: OpenWithOptions_Inr simp: empty_db_def told_def owing_def standing_def timeline_def lookup_def)
next
  case (reopened s options s')
  then show ?case by (auto dest!: OpenWithOptions_Inr)
next
  case (served s r)
  then show ?case using serve_told reachable_ok[OF served.hyps(1)] by blast
qed

lemma successive_snoc:
  assumes "es \<noteq> []" "\<forall>k. Suc k < length es \<longrightarrow> P (es ! k) (es ! Suc k)" "P (last es) x"
  shows "\<forall>k. Suc k < length (es @ [x]) \<longrightarrow> P ((es @ [x]) ! k) ((es @ [x]) ! Suc k)"
proof (intro allI impI)
  fix k
  assume k: "Suc k < length (es @ [x])"
  show "P ((es @ [x]) ! k) ((es @ [x]) ! Suc k)"
  proof (cases "Suc k < length es")
    case False
    then have "length es = Suc k" using k by simp
    then show ?thesis using assms(1,3) by (simp add: nth_append last_conv_nth)
  qed (use assms(2) in \<open>simp add: nth_append\<close>)
qed

lemma story_reads:
  "story es v s \<Longrightarrow> es \<noteq> [] \<and> fst (hd es) = 1 \<and> last es = (v, s) \<and>
     (\<forall>k. Suc k < length es \<longrightarrow> fst (es ! Suc k) = fst (es ! k) + 1 \<or> es ! Suc k = es ! k)"
proof (induction rule: story.induct)
  case (changed es v s s')
  then show ?case using successive_snoc[of es "\<lambda>a b. fst b = fst a + 1 \<or> b = a" "(v + 1, s')"] by simp
next
  case (noted es v s)
  then show ?case using successive_snoc[of es "\<lambda>a b. fst b = fst a + 1 \<or> b = a" "(v, s)"] by simp
qed simp

text \<open>C28: the event log of a reachable store is complete and faithful: its entries are numbered 1, 2, 3, ... without gaps, every
  entry is about a stored job, the entries of a job start at version 1, each next entry either carries the next version or
  repeats the version and the state of the entry before it (a note of a redrive or a retry), and the last one carries the
  version and the state the job has.\<close>

theorem events_tell_jobs:
  assumes "reachable parse f s"
  shows "map ev_seq (events (s_db s)) = [1..int (length (events (s_db s)))] \<and>
    ev_job ` set (events (s_db s)) = j_id ` set (jobs (s_db s)) \<and>
    (\<forall>r \<in> set (jobs (s_db s)). let es = timeline (s_db s) (j_id r) in
       fst (hd es) = 1 \<and> last es = (j_state_version r, j_state r) \<and>
       (\<forall>k. Suc k < length es \<longrightarrow> fst (es ! Suc k) = fst (es ! k) + 1 \<or> es ! Suc k = es ! k))"
proof -
  let ?db = "s_db s"
  have t: "told ?db" by (rule reachable_told[OF assms])
  have tale: "story (timeline ?db (j_id r)) (j_state_version r) (j_state r)" if "r \<in> set (jobs ?db)" for r
  proof -
    have "lookup j_id (j_id r) (jobs ?db) = Some r" using t that by (auto simp: told_def owing_def intro: lookup_distinct)
    moreover have "entry_ok (standing ?db (j_id r)) None (timeline ?db (j_id r))" using t by (simp add: told_def owing_def)
    ultimately show ?thesis by (simp add: standing_def)
  qed
  have "i \<in> ev_job ` set (events ?db) \<longleftrightarrow> timeline ?db i \<noteq> []" for i by (auto simp: timeline_def filter_empty_conv)
  moreover have "timeline ?db i \<noteq> [] \<longleftrightarrow> i \<in> j_id ` set (jobs ?db)" for i
  proof -
    have "entry_ok (standing ?db i) None (timeline ?db i)" using t by (simp add: told_def owing_def)
    then show ?thesis using tale story_not_empty lookup_None_iff[of j_id i "jobs ?db"] by (force simp: standing_def)
  qed
  ultimately have "ev_job ` set (events ?db) = j_id ` set (jobs ?db)" by blast
  then show ?thesis using t story_reads[OF tale] by (auto simp: told_def owing_def Let_def)
qed

end
