(* ===== verification/Store_Example.thy ===== *)
theory Store_Example
  imports Store_Events
begin

text \<open>A small run of the store, evaluated step by step, at which the theorems about reachable stores are applied.\<close>

definition demo_spec :: JobSpec where
  "demo_spec = \<lparr>s_name = ''demo'', s_tenant = ''t'', s_queue = ''q'', s_priority = 5, s_slot_cost = 1,
     s_payload = \<lparr>p_type = PayloadNoop, p_duration_ms = 0, p_args = []\<rparr>,
     s_retry = \<lparr>max_attempts = 3, retryable = True\<rparr>, s_depends_on = [], s_available_at = zero_time\<rparr>"

definition demo_submission :: Submission where
  "demo_submission = \<lparr>sub_job = demo_spec, sub_actor = ''api'', sub_key = ''k1'', sub_digest = ''d1''\<rparr>"

definition demo_opened :: store where
  "demo_opened = \<lparr>s_db = empty_db, s_default_depth = 100, s_default_slots = 4, s_max_slot_cost = 8, s_allow_shell = False,
     s_attempt_start_commits = 0, s_completion_commits = 0, s_logical_origin = 0, s_last_time = 0\<rparr>"

definition demo_options :: Options where
  "demo_options = \<lparr>o_default_depth = 100, o_default_slots = 4, o_max_slot_cost = 8, o_allow_shell = False\<rparr>"

lemma demo_open: "OpenWithOptions empty_db demo_options = Inr demo_opened"
  by (simp add: OpenWithOptions_def demo_options_def demo_opened_def initializeLogicalClock_def persisted_time_def
    sql_max_def empty_db_def)

definition demo_parser :: cron_parser where
  "demo_parser expression = Inr (\<lambda>t. t + 60)"

definition demo_submitted :: store where
  "demo_submitted = serve demo_parser (ReqSubmitJob demo_submission [[1]] 1000 0) demo_opened"

definition demo_row :: job_row where
  "demo_row = \<lparr>j_id = ''01'', j_tenant = ''t'', j_queue = ''q'', j_priority = 5, j_slot_cost = 1,
     j_payload = \<lparr>p_type = PayloadNoop, p_duration_ms = 0, p_args = []\<rparr>, j_retry = \<lparr>max_attempts = 3, retryable = True\<rparr>,
     j_state = StatePending, j_attempt_no = 0, j_state_version = 1, j_lease_generation = 0, j_available_at = 1000,
     j_ready_seq = 1, j_created_at = 1000, j_updated_at = 1000, j_terminal_at = None, j_failure = None,
     jr_recovery_pending = False, jr_execution_key = ''01''\<rparr>"

lemma demo_jobs:
  "jobs (s_db demo_submitted) = [demo_row]" "attempts (s_db demo_submitted) = []" "job_dependencies (s_db demo_submitted) = []"
  "tenant_limits (s_db demo_submitted) = [\<lparr>te_id = ''t'', te_max_depth = 100, te_max_slots = 4, te_active_slots = 0\<rparr>]"
  "queue_state (s_db demo_submitted) = [\<lparr>qu_tenant = ''t'', qu_name = ''q'', qu_weight = 1, qu_deficit = 0,
     qu_active_slots = 0, qu_updated_at = 1000\<rparr>]"
  "counters (s_db demo_submitted) = [(''ready_seq'', 1), (''scheduler_seq'', 0), (''scheduler_cursor'', 0)]"
  "decision_log (s_db demo_submitted) = []" "s_last_time demo_submitted = 1000" "s_logical_origin demo_submitted = 0"
  "s_default_depth demo_submitted = 100" "s_default_slots demo_submitted = 4" "s_max_slot_cost demo_submitted = 8"
  "s_allow_shell demo_submitted = False" 
  by code_simp+

lemma demo_decide:
  "Decide \<lparr>sn_sequence = 1, sn_logical_time_ns = 2000, sn_worker_slots = 4, sn_batch_limit = 10, sn_cursor = 0,
     sn_queues = [\<lparr>q_tenant = ''t'', q_name = ''q'', q_weight = 1, q_deficit = 0, q_candidates = [candidate_of demo_row]\<rparr>],
     sn_config_hash = h, sn_algorithm = AlgorithmVersion\<rparr> =
   Inr \<lparr>de_sequence = 1, de_grants = [\<lparr>g_job_id = ''01'', g_tenant = ''t'', g_queue = ''q'', g_slot_cost = 1\<rparr>],
     de_queues = [\<lparr>qs_tenant = ''t'', qs_queue = ''q'', qs_deficit = 0\<rparr>], de_next_cursor = 0\<rparr>"
  by code_simp

lemma demo_rows: "scheduler_rows (s_db demo_submitted) 2000 10 = [demo_row]"
  by code_simp

lemma demo_ids: "NewID [[2]] = Inr (''02'', [])" "timeToDB 2000 = 2000" "timeToDB 7000 = 7000" "int64 2000 = 2000"
  by code_simp+

lemmas demo_eval = bindE_def lookup_def update_where_def affected_def queue_row_key_def timeFromDB_def demo_jobs demo_ids

definition demo_leased :: store where
  "demo_leased = serve demo_parser (ReqAcquire ''w'' 4 10 2000 5000 [[2]] 0) demo_submitted"

lemma demo_plan:
  "\<exists>input. buildSchedulePlan 2000 4 10 0 (s_db demo_submitted) =
     Inr (\<lparr>sp_input = input, sp_decision = \<lparr>de_sequence = 1,
        de_grants = [\<lparr>g_job_id = ''01'', g_tenant = ''t'', g_queue = ''q'', g_slot_cost = 1\<rparr>],
        de_queues = [\<lparr>qs_tenant = ''t'', qs_queue = ''q'', qs_deficit = 0\<rparr>], de_next_cursor = 0\<rparr>,
       sp_candidates = [lease_candidate demo_row]\<rparr>,
      (s_db demo_submitted)\<lparr>counters := [(''ready_seq'', 1), (''scheduler_seq'', 1), (''scheduler_cursor'', 0)]\<rparr>) \<and>
     sn_sequence input = 1"
  by (simp add: buildSchedulePlan_def demo_rows nextCounter_def readCounter_def demo_eval demo_row_def
    snapshot_queues_def snapshot_queue_def job_queue_key_def demo_decide[unfolded demo_row_def])

definition demo_leased_row :: job_row where
  "demo_leased_row = demo_row\<lparr>j_state := StateScheduled, j_attempt_no := 1, j_lease_generation := 1, j_state_version := 2,
     j_ready_seq := 0, j_updated_at := 2000\<rparr>"

definition demo_attempt :: attempt_row where
  "demo_attempt = new_attempt (lease_candidate demo_row) ''w'' ''02'' 2000 7000"

lemma demo_acquire:
  "\<exists>db. acquire_tx ''w'' 4 10 5000 0 [[2]] 2000 (s_db demo_submitted) =
      Inr ([\<lparr>l_job_id = ''01'', l_attempt_no = 1, l_generation = 1, l_token = ''02'', l_worker_id = ''w'', l_expires_at = 7000,
             l_ready_at = 1000, l_idempotency_key = ''01'', l_slot_cost = 1, l_payload = j_payload demo_row\<rparr>], db) \<and>
     jobs db = [demo_leased_row] \<and> attempts db = [demo_attempt] \<and> job_dependencies db = [] \<and>
     tenant_limits db = [\<lparr>te_id = ''t'', te_max_depth = 100, te_max_slots = 4, te_active_slots = 1\<rparr>] \<and>
     queue_state db = [\<lparr>qu_tenant = ''t'', qu_name = ''q'', qu_weight = 1, qu_deficit = 0, qu_active_slots = 1, qu_updated_at = 2000\<rparr>] \<and>
     job_completions db = job_completions (s_db demo_submitted) \<and> dead_letters db = dead_letters (s_db demo_submitted) \<and>
     idempotency_requests db = idempotency_requests (s_db demo_submitted) \<and>
     counters db = [(''ready_seq'', 1), (''scheduler_seq'', 1), (''scheduler_cursor'', 0)]"
proof -
  obtain input where p: "buildSchedulePlan 2000 4 10 0 (s_db demo_submitted) =
     Inr (\<lparr>sp_input = input, sp_decision = \<lparr>de_sequence = 1,
        de_grants = [\<lparr>g_job_id = ''01'', g_tenant = ''t'', g_queue = ''q'', g_slot_cost = 1\<rparr>],
        de_queues = [\<lparr>qs_tenant = ''t'', qs_queue = ''q'', qs_deficit = 0\<rparr>], de_next_cursor = 0\<rparr>,
       sp_candidates = [lease_candidate demo_row]\<rparr>,
      (s_db demo_submitted)\<lparr>counters := [(''ready_seq'', 1), (''scheduler_seq'', 1), (''scheduler_cursor'', 0)]\<rparr>)"
    "sn_sequence input = 1" using demo_plan by blast
  show ?thesis
    unfolding acquire_tx_def p(1)
    by (simp add: lease_grant_def reserveSlots_def demo_eval demo_row_def lease_candidate_def insert_attempt_def insert_row_def
      new_attempt_def job_exists_def appendEvent_def persistSchedulePlan_def persist_queue_def setCounter_def decision_head_def NewRecord_def p(2)
      demo_leased_row_def demo_attempt_def Let_def)
qed

lemma demo_leased_db:
  "jobs (s_db demo_leased) = [demo_leased_row]" "attempts (s_db demo_leased) = [demo_attempt]" "job_dependencies (s_db demo_leased) = []"
  "tenant_limits (s_db demo_leased) = [\<lparr>te_id = ''t'', te_max_depth = 100, te_max_slots = 4, te_active_slots = 1\<rparr>]"
  "queue_state (s_db demo_leased) = [\<lparr>qu_tenant = ''t'', qu_name = ''q'', qu_weight = 1, qu_deficit = 0, qu_active_slots = 1, qu_updated_at = 2000\<rparr>]"
  "job_completions (s_db demo_leased) = []" "dead_letters (s_db demo_leased) = []"
  "idempotency_requests (s_db demo_leased) = idempotency_requests (s_db demo_submitted)"
  "counters (s_db demo_leased) = [(''ready_seq'', 1), (''scheduler_seq'', 1), (''scheduler_cursor'', 0)]"
  "s_last_time demo_leased = 2000" "s_logical_origin demo_leased = 0" "s_default_depth demo_leased = 100"
  "s_default_slots demo_leased = 4" "s_max_slot_cost demo_leased = 8" "s_allow_shell demo_leased = False"
proof -
  have none: "job_completions (s_db demo_submitted) = []" "dead_letters (s_db demo_submitted) = []" by code_simp+
  have wt: "writeTime demo_submitted 2000 0 = (2000, demo_submitted\<lparr>s_last_time := 2000\<rparr>)"
    by (simp add: writeTime_def demo_jobs demo_ids int64_def Let_def)
  obtain db ls where "acquire_tx ''w'' 4 10 5000 0 [[2]] 2000 (s_db demo_submitted) = Inr (ls, db)"
    "jobs db = [demo_leased_row]" "attempts db = [demo_attempt]" "job_dependencies db = []"
    "tenant_limits db = [\<lparr>te_id = ''t'', te_max_depth = 100, te_max_slots = 4, te_active_slots = 1\<rparr>]"
    "queue_state db = [\<lparr>qu_tenant = ''t'', qu_name = ''q'', qu_weight = 1, qu_deficit = 0, qu_active_slots = 1, qu_updated_at = 2000\<rparr>]"
    "job_completions db = []" "dead_letters db = []" "idempotency_requests db = idempotency_requests (s_db demo_submitted)"
    "counters db = [(''ready_seq'', 1), (''scheduler_seq'', 1), (''scheduler_cursor'', 0)]"
    using demo_acquire none by auto
  then show "jobs (s_db demo_leased) = [demo_leased_row]" "attempts (s_db demo_leased) = [demo_attempt]" "job_dependencies (s_db demo_leased) = []"
    "tenant_limits (s_db demo_leased) = [\<lparr>te_id = ''t'', te_max_depth = 100, te_max_slots = 4, te_active_slots = 1\<rparr>]"
    "queue_state (s_db demo_leased) = [\<lparr>qu_tenant = ''t'', qu_name = ''q'', qu_weight = 1, qu_deficit = 0, qu_active_slots = 1, qu_updated_at = 2000\<rparr>]"
    "job_completions (s_db demo_leased) = []" "dead_letters (s_db demo_leased) = []"
  "idempotency_requests (s_db demo_leased) = idempotency_requests (s_db demo_submitted)"
  "counters (s_db demo_leased) = [(''ready_seq'', 1), (''scheduler_seq'', 1), (''scheduler_cursor'', 0)]"
    "s_last_time demo_leased = 2000" "s_logical_origin demo_leased = 0" "s_default_depth demo_leased = 100"
  "s_default_slots demo_leased = 4" "s_max_slot_cost demo_leased = 8" "s_allow_shell demo_leased = False"
    by (simp_all add: demo_leased_def Acquire_def acquire_def transact_def wt demo_jobs)
qed

lemma demo_reachable:
  "reachable demo_parser f demo_opened" "reachable demo_parser f demo_submitted" "reachable demo_parser f demo_leased"
proof -
  show 0: "reachable demo_parser f demo_opened" by (rule reachable.opened[OF demo_open])
  show 1: "reachable demo_parser f demo_submitted" unfolding demo_submitted_def by (rule reachable.served[OF 0]) simp
  show "reachable demo_parser f demo_leased" unfolding demo_leased_def by (rule reachable.served[OF 1]) simp
qed

definition demo_completion :: Completion where
  "demo_completion = \<lparr>r_job_id = ''01'', r_attempt_no = 1, r_generation = 1, r_token = ''02'', c_worker_id = ''w'', c_success = True,
     c_retryable = False, c_output_digest = ''out'', c_failure = None\<rparr>"

definition demo_completed :: store where
  "demo_completed = serve demo_parser (ReqComplete demo_completion 3000 0) demo_leased"

lemma demo_complete:
  "\<exists>db. applyCompletionTx demo_completion 3000 (s_db demo_leased) =
      Inr (\<lparr>cr_job_id = ''01'', cr_state = StateSucceeded, cr_state_version = 3, cr_committed_at = 3000, cr_duplicate = False\<rparr>, db) \<and>
    jobs db = [demo_leased_row\<lparr>j_state := StateSucceeded, j_state_version := 3, j_available_at := 3000, j_updated_at := 3000,
      j_terminal_at := Some 3000\<rparr>] \<and>
    job_completions db = [\<lparr>cp_job = ''01'', cp_state = StateSucceeded, cp_version = 3, cp_attempt_no = 1, cp_output_digest = ''out'',
      cp_failure = None, cp_committed_at = 3000\<rparr>] \<and> dead_letters db = [] \<and>
    attempts db = [demo_attempt\<lparr>at_state := AttemptSucceeded, at_completed_at := Some 3000, at_digest := Some (completionDigest demo_completion),
      at_receipt_state := Some StateSucceeded, at_receipt_version := Some 3, at_receipt_committed := Some 3000\<rparr>] \<and>
    job_dependencies db = [] \<and> idempotency_requests db = idempotency_requests (s_db demo_submitted) \<and>
    counters db = [(''ready_seq'', 1), (''scheduler_seq'', 1), (''scheduler_cursor'', 0)] \<and>
    tenant_limits db = [\<lparr>te_id = ''t'', te_max_depth = 100, te_max_slots = 4, te_active_slots = 0\<rparr>] \<and>
    queue_state db = [\<lparr>qu_tenant = ''t'', qu_name = ''q'', qu_weight = 1, qu_deficit = 0, qu_active_slots = 0, qu_updated_at = 3000\<rparr>]"
proof -
  have t: "timeToDB 3000 = 3000" by code_simp
  show ?thesis
    by (simp add: applyCompletionTx_def readCompletionRecord_def demo_leased_db demo_eval t demo_completion_def attempt_key_def demo_attempt_def
      demo_leased_row_def demo_row_def new_attempt_def lease_candidate_def active_state_def open_attempt_def commit_completion_def
      completion_plan_def completed_row_def releaseSlots_def insertCanonicalCompletion_def insert_row_def Let_def Terminal_def
      completion_failure_def nullableTime_def close_attempt_def appendEvent_def job_exists_def activateChildren_def ready_children_def
      sort_by_def)
qed

lemma demo_completed_db:
  "jobs (s_db demo_completed) = [demo_leased_row\<lparr>j_state := StateSucceeded, j_state_version := 3, j_available_at := 3000,
     j_updated_at := 3000, j_terminal_at := Some 3000\<rparr>]"
  "job_completions (s_db demo_completed) = [\<lparr>cp_job = ''01'', cp_state = StateSucceeded, cp_version = 3, cp_attempt_no = 1,
     cp_output_digest = ''out'', cp_failure = None, cp_committed_at = 3000\<rparr>]"
  "dead_letters (s_db demo_completed) = []"
  "attempts (s_db demo_completed) = [demo_attempt\<lparr>at_state := AttemptSucceeded, at_completed_at := Some 3000,
     at_digest := Some (completionDigest demo_completion), at_receipt_state := Some StateSucceeded, at_receipt_version := Some 3,
     at_receipt_committed := Some 3000\<rparr>]"
  "job_dependencies (s_db demo_completed) = []" "idempotency_requests (s_db demo_completed) = idempotency_requests (s_db demo_submitted)"
  "counters (s_db demo_completed) = [(''ready_seq'', 1), (''scheduler_seq'', 1), (''scheduler_cursor'', 0)]"
  "tenant_limits (s_db demo_completed) = [\<lparr>te_id = ''t'', te_max_depth = 100, te_max_slots = 4, te_active_slots = 0\<rparr>]"
  "queue_state (s_db demo_completed) = [\<lparr>qu_tenant = ''t'', qu_name = ''q'', qu_weight = 1, qu_deficit = 0, qu_active_slots = 0, qu_updated_at = 3000\<rparr>]"
  "s_last_time demo_completed = 3000" "s_logical_origin demo_completed = 0" "s_default_depth demo_completed = 100"
  "s_default_slots demo_completed = 4" "s_max_slot_cost demo_completed = 8" "s_allow_shell demo_completed = False"
proof -
  have wt: "writeTime demo_leased 3000 0 = (3000, demo_leased\<lparr>s_last_time := 3000\<rparr>)"
    by (simp add: writeTime_def demo_leased_db int64_def Let_def)
  show "jobs (s_db demo_completed) = [demo_leased_row\<lparr>j_state := StateSucceeded, j_state_version := 3, j_available_at := 3000,
     j_updated_at := 3000, j_terminal_at := Some 3000\<rparr>]"
  "job_completions (s_db demo_completed) = [\<lparr>cp_job = ''01'', cp_state = StateSucceeded, cp_version = 3, cp_attempt_no = 1,
     cp_output_digest = ''out'', cp_failure = None, cp_committed_at = 3000\<rparr>]"
  "dead_letters (s_db demo_completed) = []"
  "attempts (s_db demo_completed) = [demo_attempt\<lparr>at_state := AttemptSucceeded, at_completed_at := Some 3000,
     at_digest := Some (completionDigest demo_completion), at_receipt_state := Some StateSucceeded, at_receipt_version := Some 3,
     at_receipt_committed := Some 3000\<rparr>]"
  "job_dependencies (s_db demo_completed) = []" "idempotency_requests (s_db demo_completed) = idempotency_requests (s_db demo_submitted)"
  "counters (s_db demo_completed) = [(''ready_seq'', 1), (''scheduler_seq'', 1), (''scheduler_cursor'', 0)]"
  "tenant_limits (s_db demo_completed) = [\<lparr>te_id = ''t'', te_max_depth = 100, te_max_slots = 4, te_active_slots = 0\<rparr>]"
  "queue_state (s_db demo_completed) = [\<lparr>qu_tenant = ''t'', qu_name = ''q'', qu_weight = 1, qu_deficit = 0, qu_active_slots = 0, qu_updated_at = 3000\<rparr>]"
  "s_last_time demo_completed = 3000" "s_logical_origin demo_completed = 0" "s_default_depth demo_completed = 100"
  "s_default_slots demo_completed = 4" "s_max_slot_cost demo_completed = 8" "s_allow_shell demo_completed = False"
    using demo_complete by (auto simp: demo_completed_def Complete_def transact_def wt demo_leased_db)
qed

text \<open>A second job that depends on the first.\<close>

definition demo_child_spec :: JobSpec where
  "demo_child_spec = demo_spec\<lparr>s_depends_on := [''01'']\<rparr>"

definition demo_child_submission :: Submission where
  "demo_child_submission = \<lparr>sub_job = demo_child_spec, sub_actor = ''api'', sub_key = ''k2'', sub_digest = ''d1''\<rparr>"

definition demo_child :: store where
  "demo_child = serve demo_parser (ReqSubmitJob demo_child_submission [[3]] 4000 0) demo_completed"

lemma demo_child_tx:
  "\<exists>job db. SubmitJob_tx demo_completed demo_child_submission [[3]] 4000 (s_db demo_completed) = Inr ((job, False), db) \<and>
    (\<exists>r. jobs db = jobs (s_db demo_completed) @ [r] \<and> j_id r = ''03'' \<and> j_ready_seq r = 2) \<and> job_dependencies db = [(''03'', ''01'')]"
proof -
  have t: "timeToDB 4000 = 4000" "NewID [[3]] = Inr (''03'', [])" by code_simp+
  have keys: "map idempotency_key (idempotency_requests (s_db demo_submitted)) = [(''t'', ''k1'')]" by code_simp
  have none: "lookup idempotency_key (''t'', ''k2'') (idempotency_requests (s_db demo_submitted)) = None"
    using arg_cong[OF keys, of set] by (auto simp: lookup_None_iff)
  have ins: "idempotency_key r \<notin> idempotency_key ` set (idempotency_requests (s_db demo_submitted))"
    if "id_tenant r = ''t''" "id_key r = ''k2''" for r
    using none that by (simp add: lookup_None_iff idempotency_key_def[of r])
  have val: "validateIdempotency ''k2'' ''d1'' = Inr ()" "JobSpec_Validate demo_child_spec 8 False = Inr ()"
    "Normalize demo_child_spec = demo_child_spec" "s_tenant demo_child_spec = ''t''" "s_queue demo_child_spec = ''q''"
    "s_depends_on demo_child_spec = [''01'']" "s_available_at demo_child_spec = zero_time" "s_slot_cost demo_child_spec = 1" by code_simp+
  show ?thesis
    unfolding SubmitJob_tx_def Let_def demo_child_submission_def
    by (simp add: val bindE_def readIdempotency_def none demo_completed_db admit_job_def lookup_Cons
      demo_leased_row_def demo_row_def ensureAdmission_def insert_row_def nonterminal_count_def Terminal_def ensureQueue_def queue_row_key_def
      t nextReadySeq_def update_where_def affected_def newJob_def insertJob_def job_checks_def job_exists_def job_row_of_def
      insert_dependency_def appendActorEvent_def appendEvent_def record_idempotency_def ins Let_def Job.defs job_row.defs)
qed

lemma demo_child_db:
  "\<exists>r. r \<in> set (jobs (s_db demo_child)) \<and> j_id r = ''03'' \<and> j_ready_seq r = 2" "job_dependencies (s_db demo_child) = [(''03'', ''01'')]"
proof -
  have wt: "writeTime demo_completed 4000 0 = (4000, demo_completed\<lparr>s_last_time := 4000\<rparr>)"
    by (simp add: writeTime_def demo_completed_db int64_def Let_def)
  show "\<exists>r. r \<in> set (jobs (s_db demo_child)) \<and> j_id r = ''03'' \<and> j_ready_seq r = 2" "job_dependencies (s_db demo_child) = [(''03'', ''01'')]"
    using demo_child_tx by (auto simp: demo_child_def SubmitJob_def transact_def wt)
qed

lemma demo_completed_reachable: "reachable demo_parser f demo_completed"
  unfolding demo_completed_def by (rule reachable.served[OF demo_reachable(3)]) simp

theorem one_outcome_witness:
  "length (filter (\<lambda>c. cp_job c = ''01'') (job_completions (s_db demo_completed))) = 1 \<and> Terminal StateSucceeded"
  using one_outcome[OF demo_completed_reachable, of "demo_leased_row\<lparr>j_state := StateSucceeded, j_state_version := 3,
    j_available_at := 3000, j_updated_at := 3000, j_terminal_at := Some 3000\<rparr>"]
  by (simp add: demo_completed_db demo_leased_row_def demo_row_def Terminal_def)

theorem slots_accounted_witness:
  "tenant_limits (s_db demo_leased) = [\<lparr>te_id = ''t'', te_max_depth = 100, te_max_slots = 4, te_active_slots = 1\<rparr>] \<and>
   sum_list (map j_slot_cost (filter (\<lambda>r. j_tenant r = ''t'' \<and> active_state (j_state r)) (jobs (s_db demo_leased)))) = 1"
  using slots_accounted[OF demo_reachable(3)] by (simp add: demo_leased_db)

theorem current_lease_witness:
  "filter (\<lambda>a. at_job a = ''01'' \<and> at_generation a = 1) (attempts (s_db demo_leased)) = [demo_attempt] \<and> open_attempt (at_state demo_attempt)"
  using current_lease[OF demo_reachable(3), of demo_leased_row]
  by (simp add: demo_leased_db demo_leased_row_def demo_row_def active_state_def demo_attempt_def new_attempt_def lease_candidate_def split: if_splits)

theorem dependencies_acyclic_witness: "acyclic (set (job_dependencies (s_db demo_leased)))"
  using dependencies_acyclic[OF demo_reachable(3)] by simp

theorem store_implements_yard_witness:
  "(ystep False)\<^sup>*\<^sup>* (abs (s_db demo_leased)) (abs (s_db demo_completed)) \<and> y_ledger (abs (s_db demo_completed)) ''01'' = Some (StateSucceeded, 3)"
  using store_implements_yard[OF demo_reachable(3), of "ReqComplete demo_completion 3000 0", folded demo_completed_def]
  by (simp add: abs_sel demo_completed_db lookup_def outcome_view_def)


lemma demo_child_reachable: "reachable demo_parser f demo_child"
  unfolding demo_child_def by (rule reachable.served[OF demo_completed_reachable]) simp

theorem dependency_gate_witness:
  "(''03'', ''01'') \<in> set (job_dependencies (s_db demo_child)) \<and>
   (\<exists>q \<in> set (jobs (s_db demo_child)). j_id q = ''01'' \<and> j_state q = StateSucceeded)"
proof -
  obtain r where "r \<in> set (jobs (s_db demo_child))" "j_id r = ''03''" "j_ready_seq r = 2" using demo_child_db(1) by blast
  then show ?thesis using dependency_gate[OF demo_child_reachable, of r "''01''"] demo_child_db(2) by simp
qed

theorem completion_acknowledged_once_witness:
  "fst (Complete demo_completion 9000 0 demo_child) = Inr \<lparr>cr_job_id = ''01'', cr_state = StateSucceeded, cr_state_version = 3,
     cr_committed_at = 3000, cr_duplicate = True\<rparr>"
proof -
  let ?r = "\<lparr>cr_job_id = ''01'', cr_state = StateSucceeded, cr_state_version = 3, cr_committed_at = 3000, cr_duplicate = False\<rparr>"
  have wt: "writeTime demo_leased 3000 0 = (3000, demo_leased\<lparr>s_last_time := 3000\<rparr>)"
    by (simp add: writeTime_def demo_leased_db int64_def Let_def)
  have run: "Complete demo_completion 3000 0 demo_leased = (Inr ?r, demo_completed)"
    using demo_complete by (auto simp: demo_completed_def Complete_def transact_def wt)
  have "later demo_parser demo_completed demo_child" unfolding demo_child_def by (intro later.intros)
  then show ?thesis
    using completion_acknowledged_once[OF demo_reachable(3) run] by (simp add: timeFromDB_def timeToDB_def int64_def)
qed

theorem submission_idempotent_witness:
  "\<exists>job. fst (SubmitJob demo_submission [[9]] 9000 0 demo_leased) = Inr (job, True) \<and>
    fst (SubmitJob (demo_submission\<lparr>sub_digest := ''d9''\<rparr>) [[9]] 9000 0 demo_leased) = Inl ErrIdempotencyConflict"
proof -
  have "(case fst (SubmitJob demo_submission [[1]] 1000 0 demo_opened) of Inr (job, dup) \<Rightarrow> \<not> dup | _ \<Rightarrow> False)" by code_simp
  then have "\<exists>job. fst (SubmitJob demo_submission [[1]] 1000 0 demo_opened) = Inr (job, False)" by (auto split: sum.split_asm prod.split_asm)
  then obtain job where run: "SubmitJob demo_submission [[1]] 1000 0 demo_opened = (Inr (job, False), demo_submitted)"
    unfolding demo_submitted_def by (cases "SubmitJob demo_submission [[1]] 1000 0 demo_opened") auto
  have later: "later demo_parser demo_submitted demo_leased" unfolding demo_leased_def by (intro later.intros)
  have val: "validateIdempotency (sub_key demo_submission) (sub_digest demo_submission) = Inr ()"
    "validateIdempotency (sub_key demo_submission) ''d9'' = Inr ()" "sub_digest demo_submission \<noteq> ''d9''" by code_simp+
  show ?thesis
    using submission_idempotent[OF demo_reachable(1) run later refl refl val(1)]
      submission_idempotent[OF demo_reachable(1) run later, of "demo_submission\<lparr>sub_digest := ''d9''\<rparr>"] val(2,3)
    by auto
qed


theorem events_tell_jobs_witness:
  "ev_job ` set (events (s_db demo_completed)) = {''01''} \<and> fst (hd (timeline (s_db demo_completed) ''01'')) = 1 \<and>
   last (timeline (s_db demo_completed) ''01'') = (3, StateSucceeded)"
  using events_tell_jobs[OF demo_completed_reachable]
  by (simp add: demo_completed_db demo_leased_row_def demo_row_def Let_def)

end
