(* ===== verification/Worker_Client.thy ===== *)
theory Worker_Client
  imports Store_Leases
begin

text \<open>
  \<^verbatim>\<open>internal/worker/client.go\<close>: the HTTP client of a worker, its errors, its retry loop and the fallback from
  batch routes to single requests, and the checks of batch responses in \<^verbatim>\<open>internal/worker/run.go\<close>.

  The network is a parameter: \<open>exchange attempt\<close> is what the HTTP transport returns for the attempt, \<open>ctx_err attempt\<close>
  the error of the context after it and \<open>wait attempt duration\<close> the outcome of the pause that follows. The JSON decoders of the
  response types are parameters as well, as are the texts of the HTTP status codes.
\<close>

section \<open>Definitions\<close>

subsection \<open>Errors\<close>

record ErrorResponse =
  xr_code :: string
  xr_message :: string
  xr_retry_after :: int

record APIError =
  ae_status :: int
  ae_code :: string
  ae_message :: string
  ae_retry_after :: int
  ae_method :: string
  ae_path :: string

datatype client_err =
    TransportError string string int go_err
  | APIErr APIError
  | PlainErr go_err

definition APIError_Is :: "APIError \<Rightarrow> go_err \<Rightarrow> bool" where
  "APIError_Is e target =
     (if ae_code e = ''stale_lease'' then target = ErrStaleLease
      else if ae_code e = ''not_found'' then target = ErrNotFound
      else if ae_code e = ''queue_full'' then target = ErrQueueFull
      else if ae_code e = ''idempotency_conflict'' then target = ErrIdempotencyConflict
      else if ae_code e = ''cycle_detected'' then target = ErrCycleDetected
      else False)"

fun client_err_Is :: "client_err \<Rightarrow> go_err \<Rightarrow> bool" where
  "client_err_Is (TransportError m p n e) target = errors_Is e target"
| "client_err_Is (APIErr e) target = APIError_Is e target"
| "client_err_Is (PlainErr e) target = errors_Is e target"

definition starts_with :: "string \<Rightarrow> string \<Rightarrow> bool" where
  "starts_with p s \<longleftrightarrow> take (length p) s = p"

fun workerRegistrationMissing :: "client_err \<Rightarrow> bool" where
  "workerRegistrationMissing (APIErr e) \<longleftrightarrow>
     ae_status e = 404 \<and> ae_code e = ''not_found'' \<and> ae_message e = ''worker is not registered'' \<and>
     starts_with ''/v1/workers/'' (ae_path e) \<and> ae_path e \<noteq> ''/v1/workers/register''"
| "workerRegistrationMissing _ \<longleftrightarrow> False"

fun batchRouteUnavailable :: "client_err \<Rightarrow> bool" where
  "batchRouteUnavailable (APIErr e) \<longleftrightarrow> \<not> workerRegistrationMissing (APIErr e) \<and> (ae_status e = 404 \<or> ae_status e = 405)"
| "batchRouteUnavailable _ \<longleftrightarrow> False"

definition second :: int where
  "second = 1000000000"

fun apiErrorResponse :: "client_err \<Rightarrow> ErrorResponse option" where
  "apiErrorResponse (APIErr e) =
     Some \<lparr>xr_code = ae_code e, xr_message = ae_message e, xr_retry_after = go_quot (ae_retry_after e) second\<rparr>"
| "apiErrorResponse _ = None"

fun retryableProtocolError :: "client_err \<Rightarrow> bool" where
  "retryableProtocolError (TransportError m p n e) \<longleftrightarrow> True"
| "retryableProtocolError (APIErr e) \<longleftrightarrow> ae_status e = 429 \<or> ae_status e \<ge> 500"
| "retryableProtocolError (PlainErr e) \<longleftrightarrow> False"

subsection \<open>Paths\<close>

definition unescaped :: "char \<Rightarrow> bool" where
  "unescaped c \<longleftrightarrow> (let b = code_of c in
     (97 \<le> b \<and> b \<le> 122) \<or> (65 \<le> b \<and> b \<le> 90) \<or> (48 \<le> b \<and> b \<le> 57)) \<or> c \<in> set ''-_.~$&+:=@''"

definition upper_hex :: "nat \<Rightarrow> char" where
  "upper_hex n = ''0123456789ABCDEF'' ! n"

definition path_escape :: "string \<Rightarrow> string" where
  "path_escape s =
     concat (map (\<lambda>c. if unescaped c then [c] else [CHR ''%'', upper_hex (code_of c div 16), upper_hex (code_of c mod 16)]) s)"

definition workerPath :: "string \<Rightarrow> string \<Rightarrow> string" where
  "workerPath workerID suffix = ''/v1/workers/'' @ path_escape workerID @ ''/'' @ suffix"

subsection \<open>Responses\<close>

record http_response =
  hr_status :: int
  hr_retry_after :: string
  hr_body :: "string result"

datatype exchange_result = ExchangeFailed go_err | Responded http_response

definition maxResponseBytes :: nat where
  "maxResponseBytes = 2 ^ 20"

definition is_digit :: "char \<Rightarrow> bool" where
  "is_digit c \<longleftrightarrow> 48 \<le> code_of c \<and> code_of c \<le> 57"

definition atoi :: "string \<Rightarrow> int option" where
  "atoi s =
     (let ds = (if s \<noteq> [] \<and> hd s \<in> {CHR ''+'', CHR ''-''} then tl s else s);
          v = foldl (\<lambda>acc c. acc * 10 + (int (code_of c) - 48)) 0 ds;
          n = (if s \<noteq> [] \<and> hd s = CHR ''-'' then - v else v)
      in if ds = [] \<or> \<not> list_all is_digit ds \<or> n < - (2 ^ 63) \<or> n \<ge> 2 ^ 63 then None else Some n)"

text \<open>\<open>decode_error\<close> is \<^verbatim>\<open>json.Unmarshal\<close> into an error response; a body that does not decode leaves its fields as they are.\<close>

definition parseAPIError :: "(string \<Rightarrow> ErrorResponse) \<Rightarrow> (int \<Rightarrow> string) \<Rightarrow> http_response \<Rightarrow> string \<Rightarrow> APIError" where
  "parseAPIError decode_error status_text response body =
     (let empty = \<lparr>xr_code = [], xr_message = [], xr_retry_after = 0\<rparr>;
          payload = (if trim_space body \<noteq> [] then decode_error body else empty);
          payload = (if xr_message payload = [] then payload\<lparr>xr_message := trim_space body\<rparr> else payload);
          payload = (if xr_message payload = [] then payload\<lparr>xr_message := status_text (hr_status response)\<rparr> else payload);
          retryAfter = int64 (xr_retry_after payload * second);
          retryAfter = (if retryAfter = 0 then
              (case atoi (hr_retry_after response) of Some seconds \<Rightarrow> if seconds > 0 then int64 (seconds * second) else retryAfter
               | None \<Rightarrow> retryAfter)
            else retryAfter)
      in \<lparr>ae_status = hr_status response, ae_code = xr_code payload, ae_message = xr_message payload,
          ae_retry_after = retryAfter, ae_method = [], ae_path = []\<rparr>)"

text \<open>The outcome of \<^verbatim>\<open>decodeHTTPResponse\<close>: a failure to read the body, another error, or the decoded value; \<open>None\<close> when
  there is no destination or no body.\<close>

datatype 'a decoded = ReadError go_err | Decoded "client_err + 'a option"

definition decodeHTTPResponse :: "(string \<Rightarrow> ErrorResponse) \<Rightarrow> (int \<Rightarrow> string) \<Rightarrow> string \<Rightarrow> string \<Rightarrow>
    (string \<Rightarrow> 'a result) option \<Rightarrow> http_response \<Rightarrow> 'a decoded" where
  "decodeHTTPResponse decode_error status_text method path destination response =
     (case hr_body response of
        Inl e \<Rightarrow> ReadError (ErrWrap ''read %s %s response: %w'' e)
      | Inr full \<Rightarrow>
          let body = take (Suc maxResponseBytes) full in
          if length body > maxResponseBytes then Decoded (Inl (PlainErr (ErrNew ''%s %s response exceeds %d bytes'')))
          else if hr_status response < 200 \<or> hr_status response \<ge> 300
            then Decoded (Inl (APIErr ((parseAPIError decode_error status_text response body)\<lparr>ae_method := method, ae_path := path\<rparr>)))
          else case destination of
            None \<Rightarrow> Decoded (Inr None)
          | Some decode \<Rightarrow>
              if trim_space body = [] then Decoded (Inr None)
              else case decode body of
                Inl e \<Rightarrow> Decoded (Inl (PlainErr (ErrWrap ''decode %s %s response: %w'' e)))
              | Inr v \<Rightarrow> Decoded (Inr (Some v)))"

subsection \<open>The retry loop\<close>

record TransportRetryPolicy =
  tp_max_attempts :: int
  tp_initial_backoff :: int
  tp_max_backoff :: int

definition DefaultTransportRetryPolicy :: TransportRetryPolicy where
  "DefaultTransportRetryPolicy = \<lparr>tp_max_attempts = 3, tp_initial_backoff = 100000000, tp_max_backoff = 1000000000\<rparr>"

definition Policy_Validate :: "TransportRetryPolicy \<Rightarrow> unit result" where
  "Policy_Validate p =
     (if tp_max_attempts p < 1 then Inl (ErrNew ''transport retry max attempts must be positive'')
      else if tp_initial_backoff p < 0 then Inl (ErrNew ''transport retry initial backoff must not be negative'')
      else if tp_max_backoff p < tp_initial_backoff p
        then Inl (ErrNew ''transport retry max backoff must be at least the initial backoff'')
      else Inr ())"

definition nextBackoff :: "int \<Rightarrow> int \<Rightarrow> int" where
  "nextBackoff current maximum =
     (if current \<le> 0 \<or> current \<ge> maximum then maximum
      else if current > int64 (maximum - current) then maximum
      else min (int64 (current * 2)) maximum)"

record network =
  net_build :: "int \<Rightarrow> go_err option"
  net_exchange :: "int \<Rightarrow> exchange_result"
  net_ctx :: "int \<Rightarrow> go_err option"
  net_wait :: "int \<Rightarrow> int \<Rightarrow> go_err option"

fun attempts_loop :: "TransportRetryPolicy \<Rightarrow> network \<Rightarrow> (http_response \<Rightarrow> 'a decoded) \<Rightarrow> string \<Rightarrow> string \<Rightarrow>
    nat \<Rightarrow> int \<Rightarrow> int \<Rightarrow> client_err + 'a option" where
  "attempts_loop p net decode method path 0 attempt backoff =
     Inl (PlainErr (ErrNew ''worker transport retry loop exited unexpectedly''))"
| "attempts_loop p net decode method path (Suc n) attempt backoff =
     (let retry = (\<lambda>requestErr.
        case net_ctx net attempt of
          Some ctxErr \<Rightarrow> Inl (PlainErr ctxErr)
        | None \<Rightarrow>
            if attempt = tp_max_attempts p then Inl (TransportError method path attempt requestErr)
            else (case net_wait net attempt backoff of
              Some e \<Rightarrow> Inl (PlainErr e)
            | None \<Rightarrow> attempts_loop p net decode method path n (attempt + 1) (nextBackoff backoff (tp_max_backoff p))))
      in case net_build net attempt of
           Some e \<Rightarrow> Inl (PlainErr (ErrWrap ''build %s %s request: %w'' e))
         | None \<Rightarrow>
             (case net_exchange net attempt of
                ExchangeFailed e \<Rightarrow> retry e
              | Responded response \<Rightarrow>
                  (case decode response of ReadError e \<Rightarrow> retry e | Decoded r \<Rightarrow> r)))"

definition doJSON :: "TransportRetryPolicy \<Rightarrow> network \<Rightarrow> (http_response \<Rightarrow> 'a decoded) \<Rightarrow> string \<Rightarrow> string \<Rightarrow> string result \<Rightarrow>
    client_err + 'a option" where
  "doJSON p net decode method path body =
     (case body of
        Inl e \<Rightarrow> Inl (PlainErr (ErrWrap ''encode %s %s request: %w'' e))
      | Inr _ \<Rightarrow> attempts_loop p net decode method path (nat (tp_max_attempts p)) 1 (tp_initial_backoff p))"

subsection \<open>Batch routes\<close>

record StartResult =
  sr_job :: string
  sr_started :: bool
  sr_error :: "ErrorResponse option"

record CompletionResult =
  co_job :: string
  co_receipt :: "CompletionReceipt option"
  co_error :: "ErrorResponse option"

fun start_one_by_one :: "(LeaseRef \<Rightarrow> client_err + unit) \<Rightarrow> LeaseRef list \<Rightarrow> client_err + StartResult list" where
  "start_one_by_one one [] = Inr []"
| "start_one_by_one one (ref # refs) =
     (case one ref of
        Inr _ \<Rightarrow> bindE (start_one_by_one one refs) (\<lambda>rs.
          Inr (\<lparr>sr_job = r_job_id ref, sr_started = True, sr_error = None\<rparr> # rs))
      | Inl e \<Rightarrow>
          (case apiErrorResponse e of
             None \<Rightarrow> Inl e
           | Some x \<Rightarrow> bindE (start_one_by_one one refs) (\<lambda>rs.
               Inr (\<lparr>sr_job = r_job_id ref, sr_started = False, sr_error = Some x\<rparr> # rs))))"

definition StartAttempts :: "(client_err + StartResult list) \<Rightarrow> (LeaseRef \<Rightarrow> client_err + unit) \<Rightarrow> LeaseRef list \<Rightarrow>
    client_err + StartResult list" where
  "StartAttempts batch one refs =
     (case batch of
        Inr response \<Rightarrow> Inr response
      | Inl e \<Rightarrow> if \<not> batchRouteUnavailable e then Inl e else start_one_by_one one refs)"

fun complete_one_by_one :: "(Completion \<Rightarrow> client_err + CompletionReceipt) \<Rightarrow> Completion list \<Rightarrow>
    client_err + CompletionResult list" where
  "complete_one_by_one one [] = Inr []"
| "complete_one_by_one one (c # cs) =
     (case one c of
        Inr receipt \<Rightarrow> bindE (complete_one_by_one one cs) (\<lambda>rs.
          Inr (\<lparr>co_job = r_job_id c, co_receipt = Some receipt, co_error = None\<rparr> # rs))
      | Inl e \<Rightarrow>
          (case apiErrorResponse e of
             None \<Rightarrow> Inl e
           | Some x \<Rightarrow> bindE (complete_one_by_one one cs) (\<lambda>rs.
               Inr (\<lparr>co_job = r_job_id c, co_receipt = None, co_error = Some x\<rparr> # rs))))"

definition CompleteAttempts :: "(client_err + CompletionResult list) \<Rightarrow> (Completion \<Rightarrow> client_err + CompletionReceipt) \<Rightarrow>
    Completion list \<Rightarrow> client_err + CompletionResult list" where
  "CompleteAttempts batch one cs =
     (case batch of
        Inr response \<Rightarrow> Inr response
      | Inl e \<Rightarrow> if \<not> batchRouteUnavailable e then Inl e else complete_one_by_one one cs)"

definition invalidBatchResponse :: "string \<Rightarrow> client_err" where
  "invalidBatchResponse message = APIErr \<lparr>ae_status = 502, ae_code = ''invalid_batch_response'', ae_message = message,
     ae_retry_after = 0, ae_method = [], ae_path = []\<rparr>"

definition protocolItemError :: "ErrorResponse \<Rightarrow> client_err" where
  "protocolItemError response =
     (if xr_code response = ''stale_lease'' then PlainErr ErrStaleLease
      else APIErr \<lparr>ae_status = (if xr_code response = ''internal_error'' then 500 else 409), ae_code = xr_code response,
        ae_message = xr_message response, ae_retry_after = int64 (xr_retry_after response * second),
        ae_method = [], ae_path = []\<rparr>)"

definition attemptStartBatchErrors :: "client_err + StartResult list \<Rightarrow> LeaseRef list \<Rightarrow> client_err option list" where
  "attemptStartBatchErrors response refs =
     (case response of
        Inl batchErr \<Rightarrow> map (\<lambda>_. Some batchErr) refs
      | Inr results \<Rightarrow>
          if length results \<noteq> length refs
          then map (\<lambda>_. Some (invalidBatchResponse ''attempt start batch response length does not match request'')) refs
          else map2 (\<lambda>result ref.
                 if sr_job result \<noteq> r_job_id ref \<or> sr_started result = (sr_error result \<noteq> None)
                 then Some (invalidBatchResponse ''attempt start batch response item is malformed'')
                 else map_option protocolItemError (sr_error result)) results refs)"

definition completionBatchErrors :: "client_err + CompletionResult list \<Rightarrow> Completion list \<Rightarrow> client_err option list" where
  "completionBatchErrors response completions =
     (case response of
        Inl batchErr \<Rightarrow> map (\<lambda>_. Some batchErr) completions
      | Inr results \<Rightarrow>
          if length results \<noteq> length completions
          then map (\<lambda>_. Some (invalidBatchResponse ''completion batch response length does not match request'')) completions
          else map2 (\<lambda>result c.
                 if co_job result \<noteq> r_job_id c \<or> (co_receipt result = None) = (co_error result = None)
                 then Some (invalidBatchResponse ''completion batch response item is malformed'')
                 else case (co_error result, co_receipt result) of
                   (None, Some receipt) \<Rightarrow>
                     if cr_job_id receipt \<noteq> r_job_id c
                     then Some (invalidBatchResponse ''completion receipt does not match request'') else None
                 | (None, None) \<Rightarrow> None
                 | (Some e, _) \<Rightarrow> Some (protocolItemError e)) results completions)"

section \<open>Lemmas\<close>

text \<open>The pause after the attempt with index \<open>i\<close>, counted from 0.\<close>

definition backoff_at :: "TransportRetryPolicy \<Rightarrow> nat \<Rightarrow> int" where
  "backoff_at p i = ((\<lambda>b. nextBackoff b (tp_max_backoff p)) ^^ i) (tp_initial_backoff p)"

lemma nextBackoff_exact:
  assumes "0 \<le> current" "current \<le> maximum" "maximum < 2 ^ 63"
  shows "nextBackoff current maximum = (if current = 0 then maximum else min (current * 2) maximum)"
proof -
  have "int64 (maximum - current) = maximum - current" using assms by (intro int64_id) auto
  moreover have "current * 2 \<le> maximum \<Longrightarrow> int64 (current * 2) = current * 2" using assms by (intro int64_id) auto
  ultimately show ?thesis using assms by (auto simp: nextBackoff_def)
qed

lemma backoff_closed:
  assumes "Policy_Validate p = Inr ()" and "tp_max_backoff p < 2 ^ 63"
  shows "backoff_at p i = (if tp_initial_backoff p = 0 then if i = 0 then 0 else tp_max_backoff p
           else min (tp_initial_backoff p * 2 ^ i) (tp_max_backoff p))"
proof (induction i)
  case 0
  then show ?case using assms(1) by (auto simp: backoff_at_def Policy_Validate_def split: if_splits)
next
  case (Suc i)
  have le: "0 \<le> tp_initial_backoff p" "tp_initial_backoff p \<le> tp_max_backoff p"
    using assms(1) by (auto simp: Policy_Validate_def split: if_splits)
  have "backoff_at p (Suc i) = nextBackoff (backoff_at p i) (tp_max_backoff p)" by (simp add: backoff_at_def)
  moreover have "0 \<le> backoff_at p i" "backoff_at p i \<le> tp_max_backoff p" using Suc le by auto
  ultimately have exact: "backoff_at p (Suc i) = (if backoff_at p i = 0 then tp_max_backoff p else min (backoff_at p i * 2) (tp_max_backoff p))"
    using nextBackoff_exact assms(2) by simp
  show ?case
  proof (cases "tp_initial_backoff p = 0")
    case False
    define x where "x = tp_initial_backoff p * 2 ^ i"
    have "0 < x" using False le by (simp add: x_def)
    then have "backoff_at p (Suc i) = min (2 * x) (tp_max_backoff p)"
      using exact Suc False le by (simp add: x_def[symmetric] min_def)
    then show ?thesis using False by (simp add: x_def ac_simps)
  qed (use exact Suc le in \<open>auto simp: min_def\<close>)
qed

text \<open>An attempt that fails with \<open>e\<close>, and one after which the client goes on.\<close>

definition attempt_fails :: "network \<Rightarrow> (http_response \<Rightarrow> 'a decoded) \<Rightarrow> int \<Rightarrow> go_err \<Rightarrow> bool" where
  "attempt_fails net decode i e \<longleftrightarrow> net_build net i = None \<and> net_ctx net i = None \<and>
     (net_exchange net i = ExchangeFailed e \<or> (\<exists>r. net_exchange net i = Responded r \<and> decode r = ReadError e))"

definition attempt_answers :: "network \<Rightarrow> (http_response \<Rightarrow> 'a decoded) \<Rightarrow> int \<Rightarrow> client_err + 'a option \<Rightarrow> bool" where
  "attempt_answers net decode i result \<longleftrightarrow> net_build net i = None \<and>
     (\<exists>r. net_exchange net i = Responded r \<and> decode r = Decoded result)"

lemma attempts_loop_skip:
  assumes "\<And>i. i < k \<Longrightarrow> \<exists>e. attempt_fails net decode (int (m + i) + 1) e \<and> net_wait net (int (m + i) + 1) (backoff_at p (m + i)) = None"
    and "m + k + n = nat (tp_max_attempts p)" and "0 < n"
  shows "attempts_loop p net decode verb path (k + n) (int m + 1) (backoff_at p m) =
    attempts_loop p net decode verb path n (int (m + k) + 1) (backoff_at p (m + k))"
  using assms
proof (induction k arbitrary: m)
  case (Suc k)
  obtain e where e: "attempt_fails net decode (int m + 1) e" "net_wait net (int m + 1) (backoff_at p m) = None"
    using Suc.prems(1)[of 0] by auto
  have next_backoff: "nextBackoff (backoff_at p m) (tp_max_backoff p) = backoff_at p (Suc m)" by (simp add: backoff_at_def)
  have "attempts_loop p net decode verb path (Suc k + n) (int m + 1) (backoff_at p m) =
      attempts_loop p net decode verb path (k + n) (int (Suc m) + 1) (backoff_at p (Suc m))"
    using e Suc.prems(2,3) by (auto simp: attempt_fails_def next_backoff algebra_simps)
  also have "\<dots> = attempts_loop p net decode verb path n (int (Suc m + k) + 1) (backoff_at p (Suc m + k))"
    by (rule Suc.IH) (use Suc.prems(1)[of "Suc _"] Suc.prems(2,3) in \<open>auto simp: algebra_simps\<close>)
  finally show ?case by simp
qed simp

definition item_outcome :: "client_err + unit \<Rightarrow> client_err option" where
  "item_outcome r = (case r of Inr _ \<Rightarrow> None | Inl x \<Rightarrow> map_option protocolItemError (apiErrorResponse x))"

lemma start_one_by_one_length: "start_one_by_one one refs = Inr rs \<Longrightarrow> length rs = length refs"
  by (induction refs arbitrary: rs) (auto simp: bindE_Inr_iff split: sum.split_asm option.split_asm)

lemma complete_one_by_one_length: "complete_one_by_one one cs = Inr rs \<Longrightarrow> length rs = length cs"
  by (induction cs arbitrary: rs) (auto simp: bindE_Inr_iff split: sum.split_asm option.split_asm)

lemma start_one_by_one_checked:
  "start_one_by_one one refs = Inr rs \<Longrightarrow>
   attemptStartBatchErrors (Inr rs) refs = map (\<lambda>ref. item_outcome (one ref)) refs"
proof (induction refs arbitrary: rs)
  case (Cons ref refs)
  then show ?case
    by (cases "one ref") (auto simp: attemptStartBatchErrors_def item_outcome_def bindE_Inr_iff start_one_by_one_length split: option.split_asm)
qed (simp add: attemptStartBatchErrors_def)

lemma complete_one_by_one_checked:
  "complete_one_by_one one cs = Inr rs \<Longrightarrow> \<forall>c \<in> set cs. \<forall>receipt. one c = Inr receipt \<longrightarrow> cr_job_id receipt = r_job_id c \<Longrightarrow>
   completionBatchErrors (Inr rs) cs = map (\<lambda>c. item_outcome (map_sum id (\<lambda>_. ()) (one c))) cs"
proof (induction cs arbitrary: rs)
  case (Cons c cs)
  then show ?case
    by (cases "one c") (auto simp: completionBatchErrors_def item_outcome_def bindE_Inr_iff complete_one_by_one_length split: option.split_asm)
qed (simp add: completionBatchErrors_def)

section \<open>Properties\<close>

text \<open>C24: The client's retry loop: with a valid policy the pauses double from the initial back-off up to the maximum, without
  overflow; after any number of failed attempts the first answer is final, whatever its status, and it is the result of the call;
  if all attempts fail the call reports a transport error with their number and the last failure. The loop never ends unexpectedly.\<close>

theorem doJSON_retries:
  assumes "Policy_Validate p = Inr ()" and "tp_max_backoff p < 2 ^ 63" and "k < nat (tp_max_attempts p)"
    and "\<And>i. i < k \<Longrightarrow> \<exists>e. attempt_fails net decode (int i + 1) e \<and>
      net_wait net (int i + 1) (if tp_initial_backoff p = 0 then if i = 0 then 0 else tp_max_backoff p
        else min (tp_initial_backoff p * 2 ^ i) (tp_max_backoff p)) = None"
  shows "(attempt_answers net decode (int k + 1) result \<longrightarrow> doJSON p net decode verb path (Inr body) = result) \<and>
    (int k + 1 = tp_max_attempts p \<longrightarrow> attempt_fails net decode (int k + 1) e \<longrightarrow>
      doJSON p net decode verb path (Inr body) = Inl (TransportError verb path (tp_max_attempts p) e))"
proof -
  define n where "n = nat (tp_max_attempts p) - k - 1"
  have n: "nat (tp_max_attempts p) = k + Suc n" using assms(3) by (simp add: n_def)
  have skip: "\<exists>e. attempt_fails net decode (int (0 + i) + 1) e \<and> net_wait net (int (0 + i) + 1) (backoff_at p (0 + i)) = None"
    if "i < k" for i using assms(4)[OF that] by (simp add: backoff_closed[OF assms(1,2)])
  have "doJSON p net decode verb path (Inr body) =
      attempts_loop p net decode verb path (Suc n) (int k + 1) (backoff_at p k)"
    using attempts_loop_skip[where m = 0 and k = k and n = "Suc n" and p = p and net = net and decode = decode
      and verb = verb and path = path, OF skip] n
    by (simp add: doJSON_def backoff_at_def[of p 0] del: attempts_loop.simps)
  then show ?thesis by (auto simp: attempt_answers_def attempt_fails_def)
qed

theorem doJSON_retries_witness:
  "doJSON DefaultTransportRetryPolicy
     \<lparr>net_build = \<lambda>_. None, net_exchange = \<lambda>i. if i = 1 then ExchangeFailed (ErrNew ''reset'') else
        Responded \<lparr>hr_status = 200, hr_retry_after = '''', hr_body = Inr ''7''\<rparr>, net_ctx = \<lambda>_. None,
      net_wait = \<lambda>i d. if d = 100000000 then None else Some (ErrNew ''late'')\<rparr>
     (decodeHTTPResponse (\<lambda>_. \<lparr>xr_code = '''', xr_message = '''', xr_retry_after = 0\<rparr>) (\<lambda>_. '''') ''POST'' ''/v1/x'' (Some (\<lambda>b. Inr (length b))))
     ''POST'' ''/v1/x'' (Inr ''{}'') = Inr (Some 1)"
proof -
  let ?net = "\<lparr>net_build = \<lambda>_. None, net_exchange = \<lambda>i. if i = 1 then ExchangeFailed (ErrNew ''reset'') else
        Responded \<lparr>hr_status = 200, hr_retry_after = '''', hr_body = Inr ''7''\<rparr>, net_ctx = \<lambda>_. None,
      net_wait = \<lambda>i d. if d = 100000000 then None else Some (ErrNew ''late'')\<rparr>"
  let ?decode = "decodeHTTPResponse (\<lambda>_. \<lparr>xr_code = '''', xr_message = '''', xr_retry_after = 0\<rparr>) (\<lambda>_. '''') ''POST'' ''/v1/x''
    (Some (\<lambda>b. Inr (length b)))"
  have "trim_space ''7'' \<noteq> ''''" by code_simp
  then have "attempt_answers ?net ?decode (int 1 + 1) (Inr (Some 1))"
    by (simp add: attempt_answers_def decodeHTTPResponse_def Let_def maxResponseBytes_def)
  moreover have "attempt_fails ?net ?decode (int 0 + 1) (ErrNew ''reset'')" by (simp add: attempt_fails_def)
  ultimately show ?thesis
    using doJSON_retries[where p = DefaultTransportRetryPolicy and k = 1 and net = ?net and decode = ?decode
      and result = "Inr (Some 1)" and verb = "''POST''" and path = "''/v1/x''" and body = "''{}''"]
    by (auto simp: DefaultTransportRetryPolicy_def Policy_Validate_def)
qed



end
