(* ===== verification/Executor.thy ===== *)
theory Executor
  imports Retry Go_Sha256
begin

text \<open>
  \<^verbatim>\<open>internal/executor/executor.go\<close>: the executors a worker runs payloads with.

  The operating system is a parameter: \<open>process args environment\<close> is the run of a command, as the chunks it writes to the two
  streams in the order in which they reach the hash, and the error of \<^verbatim>\<open>command.Run\<close>. \<open>ctx_err\<close> is the error of the context
  after the run, \<open>wait duration\<close> the outcome of the pause of a no-op, \<open>render\<close> the text of an error and \<open>equal_fold\<close> the
  case-insensitive comparison used on Windows.
\<close>

section \<open>Definitions\<close>

record exec_result =
  er_success :: bool
  er_retryable :: bool
  er_exit_code :: int
  er_stdout :: string
  er_stderr :: string
  er_stdout_truncated :: bool
  er_stderr_truncated :: bool
  er_output_digest :: string
  er_failure :: "Failure option"

record exec_request =
  eq_payload :: Payload
  eq_idempotency_key :: string

definition DefaultOutputLimit :: int where
  "DefaultOutputLimit = 65536"

definition maxDurationMillis :: int where
  "maxDurationMillis = (2 ^ 63 - 1) div 1000000"

definition emptyDigest :: string where
  "emptyDigest = sha256_hex []"

definition failedResult :: "string \<Rightarrow> string \<Rightarrow> bool \<Rightarrow> int \<Rightarrow> string \<Rightarrow> string \<Rightarrow> bool \<Rightarrow> bool \<Rightarrow> string \<Rightarrow> exec_result" where
  "failedResult cls message again exitCode stdout stderr stdoutTruncated stderrTruncated outputDigest =
     \<lparr>er_success = False, er_retryable = again, er_exit_code = exitCode, er_stdout = stdout, er_stderr = stderr,
      er_stdout_truncated = stdoutTruncated, er_stderr_truncated = stderrTruncated, er_output_digest = outputDigest,
      er_failure = Some \<lparr>f_class = cls, f_message = message, f_exit_code = exitCode, f_output_digest = outputDigest,
        f_stderr = stderr\<rparr>\<rparr>"

definition refused :: "string \<Rightarrow> string \<Rightarrow> exec_result" where
  "refused cls message = failedResult cls message False (- 1) [] [] False False emptyDigest"

subsection \<open>No-op\<close>

definition Noop_Execute :: "(go_err \<Rightarrow> string) \<Rightarrow> (int \<Rightarrow> go_err option) \<Rightarrow> exec_request \<Rightarrow> exec_result" where
  "Noop_Execute render wait request =
     (case Payload_Validate (eq_payload request) False of
        Inl e \<Rightarrow> refused ''invalid_payload'' (render e)
      | Inr _ \<Rightarrow>
          if p_type (eq_payload request) \<noteq> PayloadNoop
          then refused ''invalid_payload'' (render (ErrNew ''noop executor cannot execute payload type %q''))
          else if p_duration_ms (eq_payload request) > maxDurationMillis
          then refused ''invalid_payload'' (render (ErrNew ''duration_ms exceeds the supported duration''))
          else case wait (int64 (p_duration_ms (eq_payload request) * 1000000)) of
            Some e \<Rightarrow> failedResult ''canceled'' (render e) True (- 1) [] [] False False emptyDigest
          | None \<Rightarrow> \<lparr>er_success = True, er_retryable = False, er_exit_code = 0, er_stdout = [], er_stderr = [],
              er_stdout_truncated = False, er_stderr_truncated = False, er_output_digest = emptyDigest, er_failure = None\<rparr>)"

subsection \<open>Shell\<close>

record boundedBuffer =
  bb_limit :: int
  bb_buffer :: string
  bb_truncated :: bool

definition newBoundedBuffer :: "int \<Rightarrow> boundedBuffer" where
  "newBoundedBuffer limit = \<lparr>bb_limit = limit, bb_buffer = [], bb_truncated = False\<rparr>"

definition buffer_Write :: "string \<Rightarrow> boundedBuffer \<Rightarrow> boundedBuffer" where
  "buffer_Write data b =
     (let remaining0 = bb_limit b - int (length (bb_buffer b));
          remaining = (if remaining0 > 0 \<and> remaining0 > int (length data) then int (length data) else remaining0);
          b1 = (if remaining0 > 0 then b\<lparr>bb_buffer := bb_buffer b @ take (nat remaining) data\<rparr> else b)
      in if remaining < int (length data) then b1\<lparr>bb_truncated := True\<rparr> else b1)"

definition idempotency_variable :: string where
  "idempotency_variable = ''RAILYARD_IDEMPOTENCY_KEY''"

definition variable_name :: "string \<Rightarrow> string option" where
  "variable_name v = (if CHR ''='' \<in> set v then Some (takeWhile (\<lambda>c. c \<noteq> CHR ''='') v) else None)"

definition withIdempotencyKey :: "(string \<Rightarrow> string \<Rightarrow> bool) option \<Rightarrow> string list \<Rightarrow> string \<Rightarrow> string list" where
  "withIdempotencyKey windows_fold environment key =
     filter (\<lambda>v. case variable_name v of
         None \<Rightarrow> True
       | Some n \<Rightarrow> \<not> (case windows_fold of None \<Rightarrow> n = idempotency_variable | Some equal_fold \<Rightarrow> equal_fold n idempotency_variable))
       environment @ [idempotency_variable @ ''='' @ key]"

datatype stream = Stdout | Stderr

datatype run_error = ExitError int go_err | OtherError go_err

record process_run =
  pr_output :: "(stream \<times> string) list"
  pr_error :: "run_error option"

record Shell =
  sh_allow :: bool
  sh_output_limit :: int

definition NewShell :: "bool \<Rightarrow> int \<Rightarrow> Shell" where
  "NewShell allow outputLimit =
     \<lparr>sh_allow = allow, sh_output_limit = (if outputLimit \<le> 0 then DefaultOutputLimit else outputLimit)\<rparr>"

definition chunks :: "stream \<Rightarrow> (stream \<times> string) list \<Rightarrow> string list" where
  "chunks st output = map snd (filter (\<lambda>c. fst c = st) output)"

record os =
  os_environ :: "string list"
  os_windows_fold :: "(string \<Rightarrow> string \<Rightarrow> bool) option"
  os_process :: "string list \<Rightarrow> string list \<Rightarrow> process_run"
  os_ctx_err :: "go_err option"

definition Shell_Execute :: "(go_err \<Rightarrow> string) \<Rightarrow> os \<Rightarrow> Shell \<Rightarrow> exec_request \<Rightarrow> exec_result" where
  "Shell_Execute render system e request =
     (if p_type (eq_payload request) \<noteq> PayloadShell
      then refused ''invalid_payload'' (render (ErrNew ''shell executor cannot execute payload type %q''))
      else case Payload_Validate (eq_payload request) (sh_allow e) of
        Inl err \<Rightarrow> refused ''invalid_payload'' (render err)
      | Inr _ \<Rightarrow>
          let limit = (if sh_output_limit e \<le> 0 then DefaultOutputLimit else sh_output_limit e);
              run = os_process system (p_args (eq_payload request))
                      (withIdempotencyKey (os_windows_fold system) (os_environ system) (eq_idempotency_key request));
              stdout = fold buffer_Write (chunks Stdout (pr_output run)) (newBoundedBuffer limit);
              stderr = fold buffer_Write (chunks Stderr (pr_output run)) (newBoundedBuffer limit);
              outputDigest = sha256_hex (concat (map snd (pr_output run)));
              failed = (\<lambda>cls err again exitCode. failedResult cls (render err) again exitCode (bb_buffer stdout) (bb_buffer stderr)
                 (bb_truncated stdout) (bb_truncated stderr) outputDigest)
          in case pr_error run of
               None \<Rightarrow> \<lparr>er_success = True, er_retryable = False, er_exit_code = 0, er_stdout = bb_buffer stdout,
                 er_stderr = bb_buffer stderr, er_stdout_truncated = bb_truncated stdout,
                 er_stderr_truncated = bb_truncated stderr, er_output_digest = outputDigest, er_failure = None\<rparr>
             | Some runErr \<Rightarrow>
                 (case os_ctx_err system of
                    Some ctxErr \<Rightarrow> failed ''canceled'' ctxErr True (- 1)
                  | None \<Rightarrow>
                      (case runErr of
                         ExitError code err \<Rightarrow> failed ''exit_nonzero'' err True code
                       | OtherError err \<Rightarrow> failed ''start_failed'' err False (- 1))))"

subsection \<open>Dispatch\<close>

record Dispatch =
  di_noop :: "(exec_request \<Rightarrow> exec_result) option"
  di_shell :: "(exec_request \<Rightarrow> exec_result) option"

definition Dispatch_Execute :: "(go_err \<Rightarrow> string) \<Rightarrow> Dispatch \<Rightarrow> exec_request \<Rightarrow> exec_result" where
  "Dispatch_Execute render e request =
     (case p_type (eq_payload request) of
        PayloadNoop \<Rightarrow>
          (case di_noop e of
             None \<Rightarrow> refused ''executor_unavailable'' (render (ErrNew ''noop executor is unavailable''))
           | Some execute \<Rightarrow> execute request)
      | PayloadShell \<Rightarrow>
          (case di_shell e of
             None \<Rightarrow> refused ''executor_unavailable'' (render (ErrNew ''shell executor is unavailable''))
           | Some execute \<Rightarrow> execute request)
      | PayloadOther _ \<Rightarrow> refused ''invalid_payload'' (render (ErrNew ''unsupported payload type %q'')))"

definition executor_New :: "(go_err \<Rightarrow> string) \<Rightarrow> (int \<Rightarrow> go_err option) \<Rightarrow> os \<Rightarrow> bool \<Rightarrow> int \<Rightarrow> Dispatch" where
  "executor_New render wait system allowShell outputLimit =
     \<lparr>di_noop = Some (Noop_Execute render wait), di_shell = Some (Shell_Execute render system (NewShell allowShell outputLimit))\<rparr>"

section \<open>Lemmas\<close>

text \<open>Whatever the sizes of the writes, the buffer holds the first \<open>limit\<close> bytes and records whether more came.\<close>

lemma buffer_Write_step:
  assumes "bb_limit b = limit" "0 \<le> limit" "bb_buffer b = take (nat limit) all" "bb_truncated b = (limit < int (length all))"
  shows "bb_limit (buffer_Write data b) = limit \<and> bb_buffer (buffer_Write data b) = take (nat limit) (all @ data) \<and>
    bb_truncated (buffer_Write data b) = (limit < int (length (all @ data)))"
proof (cases "limit \<le> int (length all)")
  case True
  then have "length (bb_buffer b) = nat limit" using assms by simp
  then show ?thesis using assms True by (auto simp: buffer_Write_def Let_def)
next
  case False
  then have "bb_buffer b = all" "\<not> bb_truncated b" using assms by simp_all
  then show ?thesis using assms False by (auto simp: buffer_Write_def Let_def nat_diff_distrib)
qed

lemma buffer_Writes:
  assumes "0 \<le> limit"
  shows "bb_buffer (fold buffer_Write ds (newBoundedBuffer limit)) = take (nat limit) (concat ds) \<and>
    bb_truncated (fold buffer_Write ds (newBoundedBuffer limit)) = (limit < int (length (concat ds)))"
proof -
  have "bb_limit b = limit \<Longrightarrow> bb_buffer b = take (nat limit) all \<Longrightarrow> bb_truncated b = (limit < int (length all)) \<Longrightarrow>
     bb_buffer (fold buffer_Write ds b) = take (nat limit) (all @ concat ds) \<and>
     bb_truncated (fold buffer_Write ds b) = (limit < int (length (all @ concat ds)))" for b all
  proof (induction ds arbitrary: b all)
    case (Cons d ds)
    note step = buffer_Write_step[OF Cons.prems(1) assms Cons.prems(2,3), of d]
    show ?case using Cons.IH[of "buffer_Write d b" "all @ d"] step by simp
  qed simp
  from this[of "newBoundedBuffer limit" "[]"] show ?thesis using assms by (simp add: newBoundedBuffer_def)
qed

lemma duration_fits: "0 \<le> d \<Longrightarrow> d \<le> maxDurationMillis \<Longrightarrow> int64 (d * 1000000) = d * 1000000"
  by (rule int64_id) (auto simp: maxDurationMillis_def)

lemma failedResult_simps [simp]:
  "er_success (failedResult c m r x so se st et d) = False"
  "er_failure (failedResult c m r x so se st et d) = Some \<lparr>f_class = c, f_message = m, f_exit_code = x, f_output_digest = d, f_stderr = se\<rparr>"
  "er_exit_code (failedResult c m r x so se st et d) = x" "er_stdout (failedResult c m r x so se st et d) = so"
  "er_stderr (failedResult c m r x so se st et d) = se" "er_output_digest (failedResult c m r x so se st et d) = d"
  "er_stdout_truncated (failedResult c m r x so se st et d) = st" "er_stderr_truncated (failedResult c m r x so se st et d) = et"
  "er_retryable (failedResult c m r x so se st et d) = r"
  by (simp_all add: failedResult_def)

definition accounted :: "exec_result \<Rightarrow> bool" where
  "accounted r \<longleftrightarrow> (if er_success r then er_exit_code r = 0 \<and> er_failure r = None
     else \<exists>f. er_failure r = Some f \<and> f_exit_code f = er_exit_code r \<and> f_output_digest f = er_output_digest r \<and> f_stderr f = er_stderr r)"

lemma accounted_failed [simp]: "accounted (failedResult c m a x so se st et d)" "accounted (refused c m)"
  by (simp_all add: accounted_def refused_def)

lemma Noop_accounted: "accounted (Noop_Execute render wait request)"
  by (auto simp: Noop_Execute_def accounted_def[of "\<lparr>er_success = True, er_retryable = _, er_exit_code = _, er_stdout = _, er_stderr = _,
    er_stdout_truncated = _, er_stderr_truncated = _, er_output_digest = _, er_failure = _\<rparr>"] split: sum.split option.split)

lemma Shell_accounted: "accounted (Shell_Execute render system e request)"
  by (auto simp: Shell_Execute_def Let_def accounted_def[of "\<lparr>er_success = True, er_retryable = _, er_exit_code = _, er_stdout = _, er_stderr = _,
    er_stdout_truncated = _, er_stderr_truncated = _, er_output_digest = _, er_failure = _\<rparr>"] split: sum.split option.split run_error.split)

lemma Shell_output:
  fixes system :: os and render :: "go_err \<Rightarrow> string"
  assumes "0 < limit" and shell: "p_type (eq_payload request) = PayloadShell" "p_args (eq_payload request) \<noteq> []" "hd (p_args (eq_payload request)) \<noteq> []"
  defines "run \<equiv> os_process system (p_args (eq_payload request))
     (withIdempotencyKey (os_windows_fold system) (os_environ system) (eq_idempotency_key request))"
  defines "r \<equiv> Shell_Execute render system (NewShell True limit) request"
  shows "er_output_digest r = sha256_hex (concat (map snd (pr_output run))) \<and> (er_success r \<longleftrightarrow> pr_error run = None) \<and>
    er_stdout r = take (nat limit) (concat (chunks Stdout (pr_output run))) \<and>
    er_stdout_truncated r = (limit < int (length (concat (chunks Stdout (pr_output run))))) \<and>
    er_stderr r = take (nat limit) (concat (chunks Stderr (pr_output run))) \<and>
    er_stderr_truncated r = (limit < int (length (concat (chunks Stderr (pr_output run)))))"
proof -
  have "Payload_Validate (eq_payload request) True = Inr ()"
    using shell by (auto simp: Payload_Validate_def split: list.split)
  then show ?thesis
    using assms(1) shell(1) buffer_Writes[of limit]
    by (auto simp: r_def run_def Shell_Execute_def NewShell_def Let_def split: option.split run_error.split)
qed

lemma Noop_waits:
  assumes "p_type (eq_payload request) = PayloadNoop" "0 \<le> p_duration_ms (eq_payload request)" "p_duration_ms (eq_payload request) \<le> maxDurationMillis"
  shows "er_success (Noop_Execute render wait request) \<longleftrightarrow> wait (p_duration_ms (eq_payload request) * 1000000) = None"
  using assms duration_fits[OF assms(2,3)] by (auto simp: Noop_Execute_def Payload_Validate_def split: option.split)

section \<open>Properties\<close>

text \<open>C26: What the executors of a worker report. Every result is either a success with exit code 0 and no failure, or carries a
  failure that repeats its exit code, digest and standard error. A shell payload with a command runs exactly if shells are allowed;
  then the digest covers everything the process wrote, in order, and each stream is reported up to the limit, with the
  truncation flag set exactly if it was longer. A no-op waits exactly its duration, without overflow.\<close>

theorem executor_results:
  assumes "0 < limit" and "r = Dispatch_Execute render (executor_New render wait system allow limit) request"
  defines "run \<equiv> os_process system (p_args (eq_payload request))
     (withIdempotencyKey (os_windows_fold system) (os_environ system) (eq_idempotency_key request))"
  shows "(if er_success r then er_exit_code r = 0 \<and> er_failure r = None
      else \<exists>f. er_failure r = Some f \<and> f_exit_code f = er_exit_code r \<and> f_output_digest f = er_output_digest r \<and> f_stderr f = er_stderr r) \<and>
    (p_type (eq_payload request) = PayloadShell \<longrightarrow> p_args (eq_payload request) \<noteq> [] \<longrightarrow> hd (p_args (eq_payload request)) \<noteq> [] \<longrightarrow>
      (if allow then
         er_output_digest r = sha256_hex (concat (map snd (pr_output run))) \<and> (er_success r \<longleftrightarrow> pr_error run = None) \<and>
         er_stdout r = take (nat limit) (concat (chunks Stdout (pr_output run))) \<and>
         er_stdout_truncated r = (limit < int (length (concat (chunks Stdout (pr_output run))))) \<and>
         er_stderr r = take (nat limit) (concat (chunks Stderr (pr_output run))) \<and>
         er_stderr_truncated r = (limit < int (length (concat (chunks Stderr (pr_output run)))))
       else r = refused ''invalid_payload'' (render (ErrNew ''shell jobs are disabled'')))) \<and>
    (p_type (eq_payload request) = PayloadNoop \<longrightarrow> 0 \<le> p_duration_ms (eq_payload request) \<longrightarrow>
       p_duration_ms (eq_payload request) \<le> maxDurationMillis \<longrightarrow>
       (er_success r \<longleftrightarrow> wait (p_duration_ms (eq_payload request) * 1000000) = None))"
proof (intro conjI impI)
  show "if er_success r then er_exit_code r = 0 \<and> er_failure r = None
      else \<exists>f. er_failure r = Some f \<and> f_exit_code f = er_exit_code r \<and> f_output_digest f = er_output_digest r \<and> f_stderr f = er_stderr r"
    unfolding accounted_def[symmetric] assms(2)
    by (auto simp: Dispatch_Execute_def executor_New_def Noop_accounted Shell_accounted split: PayloadType.split)
next
  assume "p_type (eq_payload request) = PayloadShell" "p_args (eq_payload request) \<noteq> []" "hd (p_args (eq_payload request)) \<noteq> []"
  then show "if allow then
         er_output_digest r = sha256_hex (concat (map snd (pr_output run))) \<and> (er_success r \<longleftrightarrow> pr_error run = None) \<and>
         er_stdout r = take (nat limit) (concat (chunks Stdout (pr_output run))) \<and>
         er_stdout_truncated r = (limit < int (length (concat (chunks Stdout (pr_output run))))) \<and>
         er_stderr r = take (nat limit) (concat (chunks Stderr (pr_output run))) \<and>
         er_stderr_truncated r = (limit < int (length (concat (chunks Stderr (pr_output run)))))
       else r = refused ''invalid_payload'' (render (ErrNew ''shell jobs are disabled''))"
    using Shell_output[OF assms(1)]
    by (simp add: assms(2) run_def Dispatch_Execute_def executor_New_def) (simp add: Shell_Execute_def NewShell_def Payload_Validate_def)
next
  assume "p_type (eq_payload request) = PayloadNoop" "0 \<le> p_duration_ms (eq_payload request)"
    "p_duration_ms (eq_payload request) \<le> maxDurationMillis"
  then show "er_success r \<longleftrightarrow> wait (p_duration_ms (eq_payload request) * 1000000) = None"
    using Noop_waits by (simp add: assms(2) Dispatch_Execute_def executor_New_def)
qed

theorem executor_results_witness:
  "let run = \<lparr>pr_output = [(Stdout, ''ab''), (Stderr, ''x''), (Stdout, ''cd'')], pr_error = None\<rparr>;
       r = Dispatch_Execute (\<lambda>_. ''error'') (executor_New (\<lambda>_. ''error'') (\<lambda>_. None)
             \<lparr>os_environ = [], os_windows_fold = None, os_process = \<lambda>_ _. run, os_ctx_err = None\<rparr> True 3)
             \<lparr>eq_payload = \<lparr>p_type = PayloadShell, p_duration_ms = 0, p_args = [''ls'']\<rparr>, eq_idempotency_key = ''k''\<rparr>
   in er_stdout r = ''abc'' \<and> er_stdout_truncated r \<and> er_stderr r = ''x'' \<and> \<not> er_stderr_truncated r \<and> er_success r \<and>
      er_output_digest r = sha256_hex ''abxcd''"
  using executor_results[OF _ refl, of 3 "\<lambda>_. ''error''" "\<lambda>_. None"
    "\<lparr>os_environ = [], os_windows_fold = None, os_process = \<lambda>_ _. \<lparr>pr_output = [(Stdout, ''ab''), (Stderr, ''x''), (Stdout, ''cd'')],
      pr_error = None\<rparr>, os_ctx_err = None\<rparr>" True
    "\<lparr>eq_payload = \<lparr>p_type = PayloadShell, p_duration_ms = 0, p_args = [''ls'']\<rparr>, eq_idempotency_key = ''k''\<rparr>"]
  by (simp add: chunks_def)



end
