(* ===== verification/Worker_Loop.thy ===== *)
theory Worker_Loop
  imports Worker_Client Executor
begin

text \<open>
  \<^verbatim>\<open>internal/worker/run.go\<close>: the event loop of a worker.

  The state of the loop is a record; every closure and every branch of the \<^verbatim>\<open>select\<close> is a function on it. A goroutine that
  the loop starts is a call in \<open>wo_calls\<close> while it runs; \<open>wo_started\<close> lists every call ever started. A call ends when its
  event is handled, and any answer may come back: the step relation \<open>wstep\<close> picks a running call and an answer. The start of a batch
  reports its attempts one by one, so other events may come between. Go iterates over a map in any order: \<open>it n\<close> is the order of the
  \<open>n\<close>-th loop over the active attempts while one event is handled. A nil dereference or an index out of range sets \<open>wo_panicked\<close>.
\<close>

section \<open>Definitions\<close>

subsection \<open>Configuration\<close>

record Config =
  cf_worker_id :: string
  cf_slots :: int
  cf_lease_batch :: int
  cf_heartbeat_interval :: int
  cf_shutdown_timeout :: int
  cf_max_completion_attempts :: int
  cf_attempt_start_batch_size :: int
  cf_completion_batch_size :: int
  cf_completion_batch_wait :: int

definition Config_normalize :: "Config \<Rightarrow> Config result" where
  "Config_normalize c0 =
     (if cf_worker_id c0 = [] then Inl (ErrNew ''worker ID must not be empty'')
      else if cf_slots c0 < 1 then Inl (ErrNew ''worker slots must be positive'')
      else let c1 = (if cf_lease_batch c0 = 0 then c0\<lparr>cf_lease_batch := cf_slots c0\<rparr> else c0) in
      if cf_lease_batch c1 < 1 then Inl (ErrNew ''lease batch must be positive'')
      else if cf_heartbeat_interval c1 < 0 then Inl (ErrNew ''heartbeat interval must not be negative'')
      else let c2 = (if cf_shutdown_timeout c1 = 0 then c1\<lparr>cf_shutdown_timeout := 2 * second\<rparr> else c1) in
      if cf_shutdown_timeout c2 < 0 then Inl (ErrNew ''shutdown timeout must not be negative'')
      else let c3 = (if cf_max_completion_attempts c2 = 0 then c2\<lparr>cf_max_completion_attempts := 3\<rparr> else c2) in
      if cf_max_completion_attempts c3 < 1 then Inl (ErrNew ''maximum completion attempts must be positive'')
      else let c4 = (if cf_attempt_start_batch_size c3 = 0 then c3\<lparr>cf_attempt_start_batch_size := 64\<rparr> else c3) in
      if cf_attempt_start_batch_size c4 < 1 then Inl (ErrNew ''attempt start batch size must be positive'')
      else if cf_attempt_start_batch_size c4 > int MaxAttemptStartBatchSize
        then Inl (ErrNew ''attempt start batch size exceeds the protocol limit'')
      else let c5 = (if cf_completion_batch_size c4 = 0 then c4\<lparr>cf_completion_batch_size := 64\<rparr> else c4) in
      if cf_completion_batch_size c5 < 1 then Inl (ErrNew ''completion batch size must be positive'')
      else if cf_completion_batch_size c5 > int MaxCompletionBatchSize
        then Inl (ErrNew ''completion batch size exceeds the protocol limit'')
      else let c6 = (if cf_completion_batch_wait c5 = 0 then c5\<lparr>cf_completion_batch_wait := 2000000\<rparr> else c5) in
      if cf_completion_batch_wait c6 < 0 then Inl (ErrNew ''completion batch wait must not be negative'')
      else Inr c6)"

text \<open>Whether the protocol of the worker has the batch routes.\<close>

record WorkerEnv = Config +
  we_batch_starts :: bool
  we_batch_completions :: bool

subsection \<open>State\<close>

type_synonym epoch = "64 word"

record attemptKey =
  ak_job :: string
  ak_no :: int
  ak_generation :: int

datatype attemptPhase = PhaseStarting | PhaseExecuting | PhaseReadyToComplete | PhaseCompleting

record attemptState =
  as_lease :: Lease
  as_phase :: attemptPhase
  as_result :: "exec_result option"
  as_completion_attempts :: int
  as_start_in_flight :: bool
  as_start_retry :: bool
  as_execute_pending :: bool
  as_completion_retry :: bool

datatype call =
    CallRegister
  | CallAcquire int int epoch
  | CallStart attemptKey LeaseRef epoch
  | CallStartBatch "attemptKey list" "LeaseRef list" epoch
  | CallStartReport "(attemptKey \<times> client_err option) list" epoch
  | CallExecute attemptKey exec_request
  | CallComplete attemptKey Completion epoch
  | CallCompleteBatch "attemptKey list" "Completion list" epoch
  | CallHeartbeat "LeaseRef list" epoch

record acquireResult =
  aq_response :: "client_err + Lease list"
  aq_epoch :: epoch

record worker =
  wo_id :: string
  wo_active :: "(attemptKey \<times> attemptState) list"
  wo_used :: int
  wo_acquiring :: bool
  wo_acquire_paused :: bool
  wo_heartbeat_in_flight :: bool
  wo_registration_needed :: bool
  wo_registration_in_flight :: bool
  wo_epoch :: epoch
  wo_deferred :: "acquireResult option"
  wo_timer :: bool
  wo_pending :: "attemptKey list"
  wo_calls :: "call list"
  wo_started :: "call list"
  wo_panicked :: bool

type_synonym iteration = "nat \<Rightarrow> attemptKey list \<Rightarrow> attemptKey list"

definition keyFor :: "Lease \<Rightarrow> attemptKey" where
  "keyFor lease = \<lparr>ak_job = l_job_id lease, ak_no = l_attempt_no lease, ak_generation = l_generation lease\<rparr>"

definition keyFromRef :: "LeaseRef \<Rightarrow> attemptKey" where
  "keyFromRef ref = \<lparr>ak_job = r_job_id ref, ak_no = r_attempt_no ref, ak_generation = r_generation ref\<rparr>"

definition leaseRef :: "Lease \<Rightarrow> LeaseRef" where
  "leaseRef lease = \<lparr>r_job_id = l_job_id lease, r_attempt_no = l_attempt_no lease, r_generation = l_generation lease,
     r_token = l_token lease\<rparr>"

definition sameLease :: "LeaseRef \<Rightarrow> LeaseRef \<Rightarrow> bool" where
  "sameLease left right \<longleftrightarrow> r_job_id left = r_job_id right \<and> r_attempt_no left = r_attempt_no right \<and>
     r_generation left = r_generation right \<and> r_token left = r_token right"

definition hasActiveJob :: "(attemptKey \<times> attemptState) list \<Rightarrow> string \<Rightarrow> bool" where
  "hasActiveJob active jobID \<longleftrightarrow> list_ex (\<lambda>(k, a). l_job_id (as_lease a) = jobID) active"

definition no_result :: exec_result where
  "no_result = \<lparr>er_success = False, er_retryable = False, er_exit_code = 0, er_stdout = [], er_stderr = [], er_stdout_truncated = False,
     er_stderr_truncated = False, er_output_digest = [], er_failure = None\<rparr>"

definition completionFor :: "string \<Rightarrow> Lease \<Rightarrow> exec_result \<Rightarrow> Completion" where
  "completionFor workerID lease result =
     \<lparr>r_job_id = l_job_id lease, r_attempt_no = l_attempt_no lease, r_generation = l_generation lease, r_token = l_token lease,
      c_worker_id = workerID, c_success = er_success result, c_retryable = er_retryable result,
      c_output_digest = er_output_digest result,
      c_failure = (if \<not> er_success result \<and> er_failure result = None
        then Some \<lparr>f_class = ''execution_failed'',
          f_message = ''executor returned an unsuccessful result without failure details'', f_exit_code = er_exit_code result,
          f_output_digest = er_output_digest result, f_stderr = er_stderr result\<rparr>
        else er_failure result)\<rparr>"

subsection \<open>Closures of the loop\<close>

definition spawn :: "call \<Rightarrow> worker \<Rightarrow> worker" where
  "spawn c s = s\<lparr>wo_calls := wo_calls s @ [c], wo_started := wo_started s @ [c]\<rparr>"

definition change :: "attemptKey \<Rightarrow> (attemptState \<Rightarrow> attemptState) \<Rightarrow> worker \<Rightarrow> worker" where
  "change key f s = s\<lparr>wo_active := map (\<lambda>(k, a). (k, if k = key then f a else a)) (wo_active s)\<rparr>"

definition panic :: "worker \<Rightarrow> worker" where
  "panic s = s\<lparr>wo_panicked := True\<rparr>"

definition startRegistration :: "worker \<Rightarrow> worker" where
  "startRegistration s =
     (let s1 = s\<lparr>wo_acquire_paused := True, wo_registration_needed := True\<rparr>
      in if wo_registration_in_flight s1 then s1 else spawn CallRegister (s1\<lparr>wo_registration_in_flight := True\<rparr>))"

definition removeAttempt :: "attemptKey \<Rightarrow> worker \<Rightarrow> worker" where
  "removeAttempt key s =
     (case map_of (wo_active s) key of
        None \<Rightarrow> s
      | Some a \<Rightarrow> s\<lparr>wo_used := wo_used s - l_slot_cost (as_lease a), wo_active := filter (\<lambda>(k, a). k \<noteq> key) (wo_active s)\<rparr>)"

definition startAcquire :: "WorkerEnv \<Rightarrow> worker \<Rightarrow> worker" where
  "startAcquire cfg s =
     (let available = cf_slots cfg - wo_used s
      in if wo_acquiring s \<or> wo_acquire_paused s \<or> wo_registration_needed s \<or> available \<le> 0 then s
         else spawn (CallAcquire available (cf_lease_batch cfg) (wo_epoch s)) (s\<lparr>wo_acquiring := True\<rparr>))"

definition executeAttempt :: "Lease \<Rightarrow> attemptKey \<Rightarrow> worker \<Rightarrow> worker" where
  "executeAttempt lease key s =
     spawn (CallExecute key \<lparr>eq_payload = l_payload lease, eq_idempotency_key = l_idempotency_key lease\<rparr>) s"

definition startAttempt :: "attemptKey \<Rightarrow> worker \<Rightarrow> worker" where
  "startAttempt key s =
     (case map_of (wo_active s) key of
        None \<Rightarrow> panic s
      | Some a \<Rightarrow> spawn (CallStart key (leaseRef (as_lease a)) (wo_epoch s)) (change key (\<lambda>a. a\<lparr>as_start_in_flight := True\<rparr>) s))"

definition startAttemptBatch :: "attemptKey list \<Rightarrow> LeaseRef list \<Rightarrow> worker \<Rightarrow> worker" where
  "startAttemptBatch keys refs s =
     spawn (CallStartBatch keys refs (wo_epoch s)) (fold (\<lambda>key. change key (\<lambda>a. a\<lparr>as_start_in_flight := True\<rparr>)) keys s)"

definition start_chunk :: "WorkerEnv \<Rightarrow> attemptKey list \<Rightarrow> worker \<Rightarrow> worker" where
  "start_chunk cfg chunk s =
     (if \<not> we_batch_starts cfg then fold startAttempt chunk s
      else if list_ex (\<lambda>key. map_of (wo_active s) key = None) chunk then panic s
      else startAttemptBatch chunk (map (\<lambda>key. leaseRef (as_lease (the (map_of (wo_active s) key)))) chunk) s)"

text \<open>The chunks of the loop over the keys; a normalised configuration has a positive batch size.\<close>

function batches :: "nat \<Rightarrow> 'a list \<Rightarrow> 'a list list" where
  "batches n xs = (if n = 0 \<or> xs = [] then [] else take n xs # batches n (drop n xs))"
  by pat_completeness auto
termination
  by (relation "measure (\<lambda>(n, xs). length xs)") auto

declare batches.simps [simp del]

definition startAttempts :: "WorkerEnv \<Rightarrow> attemptKey list \<Rightarrow> worker \<Rightarrow> worker" where
  "startAttempts cfg keys s = fold (start_chunk cfg) (batches (nat (cf_attempt_start_batch_size cfg)) keys) s"

definition result_of :: "attemptState \<Rightarrow> exec_result" where
  "result_of a = (case as_result a of None \<Rightarrow> no_result | Some r \<Rightarrow> r)"

definition completing :: "attemptState \<Rightarrow> attemptState" where
  "completing a = a\<lparr>as_phase := PhaseCompleting, as_completion_attempts := as_completion_attempts a + 1\<rparr>"

definition startCompletion :: "attemptKey \<Rightarrow> worker \<Rightarrow> worker" where
  "startCompletion key s =
     (case map_of (wo_active s) key of
        None \<Rightarrow> panic s
      | Some a \<Rightarrow> spawn (CallComplete key (completionFor (wo_id s) (as_lease a) (result_of a)) (wo_epoch s)) (change key completing s))"

definition flush_one :: "attemptKey \<Rightarrow> attemptKey list \<times> Completion list \<times> worker \<Rightarrow> attemptKey list \<times> Completion list \<times> worker" where
  "flush_one key = (\<lambda>(keys, completions, s).
     case map_of (wo_active s) key of
       None \<Rightarrow> (keys, completions, s)
     | Some a \<Rightarrow>
         if as_phase a \<noteq> PhaseReadyToComplete then (keys, completions, s)
         else (keys @ [key], completions @ [completionFor (wo_id s) (as_lease a) (result_of a)], change key completing s))"

definition flushCompletions :: "worker \<Rightarrow> worker" where
  "flushCompletions s =
     (let s0 = s\<lparr>wo_timer := False\<rparr>
      in if wo_pending s0 = [] then s0
         else case fold flush_one (wo_pending s0) ([], [], s0) of
           (keys, completions, s1) \<Rightarrow>
             let s2 = s1\<lparr>wo_pending := []\<rparr>
             in if keys = [] then s2 else spawn (CallCompleteBatch keys completions (wo_epoch s2)) s2)"

definition queueCompletion :: "WorkerEnv \<Rightarrow> attemptKey \<Rightarrow> worker \<Rightarrow> worker" where
  "queueCompletion cfg key s =
     (if \<not> we_batch_completions cfg then startCompletion key s
      else let s1 = s\<lparr>wo_pending := wo_pending s @ [key]\<rparr>
           in if int (length (wo_pending s1)) \<ge> cf_completion_batch_size cfg \<or> cf_completion_batch_wait cfg = 0
              then flushCompletions s1 else s1\<lparr>wo_timer := True\<rparr>)"

definition active_refs :: "(attemptKey list \<Rightarrow> attemptKey list) \<Rightarrow> worker \<Rightarrow> LeaseRef list" where
  "active_refs order s =
     concat (map (\<lambda>key. case map_of (wo_active s) key of None \<Rightarrow> [] | Some a \<Rightarrow> [leaseRef (as_lease a)]) (order (map fst (wo_active s))))"

definition startHeartbeat :: "(attemptKey list \<Rightarrow> attemptKey list) \<Rightarrow> worker \<Rightarrow> worker" where
  "startHeartbeat order s =
     (if wo_heartbeat_in_flight s \<or> wo_registration_needed s then s
      else spawn (CallHeartbeat (active_refs order s) (wo_epoch s)) (s\<lparr>wo_heartbeat_in_flight := True\<rparr>))"

definition new_attempt_state :: "Lease \<Rightarrow> attemptState" where
  "new_attempt_state lease = \<lparr>as_lease = lease, as_phase = PhaseStarting, as_result = None, as_completion_attempts = 0,
     as_start_in_flight = False, as_start_retry = False, as_execute_pending = False, as_completion_retry = False\<rparr>"

definition accept_lease :: "Lease \<Rightarrow> int \<times> attemptKey list \<times> worker \<Rightarrow> int \<times> attemptKey list \<times> worker" where
  "accept_lease lease = (\<lambda>(remaining, startKeys, s).
     if l_slot_cost lease < 1 \<or> l_slot_cost lease > remaining then (remaining, startKeys, s)
     else if l_worker_id lease \<noteq> [] \<and> l_worker_id lease \<noteq> wo_id s then (remaining, startKeys, s)
     else if map_of (wo_active s) (keyFor lease) \<noteq> None \<or> hasActiveJob (wo_active s) (l_job_id lease) then (remaining, startKeys, s)
     else (remaining - l_slot_cost lease, startKeys @ [keyFor lease],
           s\<lparr>wo_active := wo_active s @ [(keyFor lease, new_attempt_state lease)], wo_used := wo_used s + l_slot_cost lease\<rparr>))"

definition processAcquired :: "WorkerEnv \<Rightarrow> acquireResult \<Rightarrow> worker \<Rightarrow> worker" where
  "processAcquired cfg result s =
     (case aq_response result of
        Inl e \<Rightarrow>
          if workerRegistrationMissing e
          then if aq_epoch result = wo_epoch s \<or> wo_registration_needed s then startRegistration s
               else startAcquire cfg (s\<lparr>wo_acquire_paused := False\<rparr>)
          else s\<lparr>wo_acquire_paused := True\<rparr>
      | Inr leases \<Rightarrow>
          (case fold accept_lease leases (cf_slots cfg - wo_used s, [], s) of
             (_, startKeys, s1) \<Rightarrow> startAcquire cfg (startAttempts cfg startKeys s1)))"

subsection \<open>Events\<close>

definition on_acquired :: "WorkerEnv \<Rightarrow> acquireResult \<Rightarrow> worker \<Rightarrow> worker" where
  "on_acquired cfg result s =
     (let s1 = s\<lparr>wo_acquiring := False\<rparr>
      in case aq_response result of
           Inr _ \<Rightarrow> if wo_registration_needed s1 then s1\<lparr>wo_deferred := Some result\<rparr> else processAcquired cfg result s1
         | Inl _ \<Rightarrow> processAcquired cfg result s1)"

definition on_started :: "WorkerEnv \<Rightarrow> attemptKey \<Rightarrow> client_err option \<Rightarrow> epoch \<Rightarrow> worker \<Rightarrow> worker" where
  "on_started cfg key startErr epoch s =
     (case map_of (wo_active s) key of
        None \<Rightarrow> s
      | Some a \<Rightarrow>
          let s1 = change key (\<lambda>a. a\<lparr>as_start_in_flight := False\<rparr>) s
          in case startErr of
               Some e \<Rightarrow>
                 if workerRegistrationMissing e
                 then if epoch < wo_epoch s1 \<and> \<not> wo_registration_needed s1 then startAttempts cfg [key] s1
                      else startRegistration (change key (\<lambda>a. a\<lparr>as_start_retry := True\<rparr>) s1)
                 else startAcquire cfg (removeAttempt key s1)
             | None \<Rightarrow>
                 if as_phase a \<noteq> PhaseStarting then s1
                 else if wo_registration_needed s1 then change key (\<lambda>a. a\<lparr>as_execute_pending := True\<rparr>) s1
                 else executeAttempt (as_lease a) key (change key (\<lambda>a. a\<lparr>as_phase := PhaseExecuting\<rparr>) s1))"

definition on_executed :: "WorkerEnv \<Rightarrow> attemptKey \<Rightarrow> exec_result \<Rightarrow> worker \<Rightarrow> worker" where
  "on_executed cfg key result s =
     (case map_of (wo_active s) key of
        None \<Rightarrow> s
      | Some a \<Rightarrow>
          if as_phase a \<noteq> PhaseExecuting then s
          else queueCompletion cfg key (change key (\<lambda>a. a\<lparr>as_result := Some result, as_phase := PhaseReadyToComplete\<rparr>) s))"

definition complete_one :: "WorkerEnv \<Rightarrow> epoch \<Rightarrow> attemptKey \<Rightarrow> attemptState \<Rightarrow> client_err option \<Rightarrow> worker \<Rightarrow> worker" where
  "complete_one cfg epoch key a completionErr s =
     (case completionErr of
        None \<Rightarrow> removeAttempt key s
      | Some e \<Rightarrow>
          if client_err_Is e ErrStaleLease then removeAttempt key s
          else if workerRegistrationMissing e then
            (let s1 = change key (\<lambda>a. a\<lparr>as_completion_attempts :=
                     (if as_completion_attempts a > 0 then as_completion_attempts a - 1 else as_completion_attempts a),
                     as_phase := PhaseReadyToComplete\<rparr>) s
             in if epoch < wo_epoch s1 \<and> \<not> wo_registration_needed s1 then queueCompletion cfg key s1
                else startRegistration (change key (\<lambda>a. a\<lparr>as_completion_retry := True\<rparr>) s1))
          else if retryableProtocolError e \<and> as_completion_attempts a < cf_max_completion_attempts cfg
            then queueCompletion cfg key (change key (\<lambda>a. a\<lparr>as_phase := PhaseReadyToComplete\<rparr>) s)
          else removeAttempt key s)"

fun complete_each :: "WorkerEnv \<Rightarrow> epoch \<Rightarrow> attemptKey list \<Rightarrow> client_err option list \<Rightarrow> worker \<Rightarrow> worker" where
  "complete_each cfg epoch [] errs s = s"
| "complete_each cfg epoch (key # keys) errs s =
     (case map_of (wo_active s) key of
        None \<Rightarrow> complete_each cfg epoch keys (drop 1 errs) s
      | Some a \<Rightarrow>
          (case errs of
             [] \<Rightarrow> panic s
           | e # errs' \<Rightarrow> complete_each cfg epoch keys errs' (complete_one cfg epoch key a e s)))"

definition on_completed :: "WorkerEnv \<Rightarrow> attemptKey list \<Rightarrow> client_err option list \<Rightarrow> epoch \<Rightarrow> worker \<Rightarrow> worker" where
  "on_completed cfg keys errs epoch s = startAcquire cfg (complete_each cfg epoch keys errs s)"

definition reject_lease :: "HeartbeatResult \<Rightarrow> LeaseRef \<Rightarrow> worker \<Rightarrow> worker" where
  "reject_lease result reference s =
     (if r_job_id reference \<noteq> hb_job result then s
      else case map_of (wo_active s) (keyFromRef reference) of
        Some a \<Rightarrow> if sameLease (leaseRef (as_lease a)) reference then removeAttempt (keyFromRef reference) s else s
      | None \<Rightarrow> s)"

definition on_heartbeat :: "WorkerEnv \<Rightarrow> iteration \<Rightarrow> LeaseRef list \<Rightarrow> client_err + HeartbeatResult list \<Rightarrow> epoch \<Rightarrow> worker \<Rightarrow> worker" where
  "on_heartbeat cfg it requested response epoch s =
     (let s1 = s\<lparr>wo_heartbeat_in_flight := False\<rparr>
      in case response of
           Inl e \<Rightarrow>
             if workerRegistrationMissing e
             then if epoch < wo_epoch s1 \<and> \<not> wo_registration_needed s1 then startHeartbeat (it 0) s1 else startRegistration s1
             else s1
         | Inr results \<Rightarrow>
             startAcquire cfg (fold (\<lambda>result. if hb_accepted result then id else fold (reject_lease result) requested) results s1))"

definition registrationError :: "string \<Rightarrow> client_err + string \<Rightarrow> client_err option" where
  "registrationError workerID response =
     (case response of
        Inl e \<Rightarrow> Some e
      | Inr w \<Rightarrow> if w \<noteq> [] \<and> w \<noteq> workerID
                then Some (PlainErr (ErrNew ''re-register worker: response worker ID %q does not match %q'')) else None)"

definition retry_visit :: "WorkerEnv \<Rightarrow> attemptKey \<Rightarrow> attemptKey list \<times> worker \<Rightarrow> attemptKey list \<times> worker" where
  "retry_visit cfg key = (\<lambda>(retryStarts, s).
     case map_of (wo_active s) key of
       None \<Rightarrow> (retryStarts, s)
     | Some a \<Rightarrow>
         let (retry1, s1) = (if as_start_retry a \<and> \<not> as_start_in_flight a
               then (retryStarts @ [key], change key (\<lambda>a. a\<lparr>as_start_retry := False\<rparr>) s) else (retryStarts, s));
             s2 = (if as_execute_pending a
               then executeAttempt (as_lease a) key (change key (\<lambda>a. a\<lparr>as_execute_pending := False, as_phase := PhaseExecuting\<rparr>) s1) else s1);
             s3 = (if as_completion_retry a
               then queueCompletion cfg key (change key (\<lambda>a. a\<lparr>as_completion_retry := False, as_phase := PhaseReadyToComplete\<rparr>) s2) else s2)
         in (retry1, s3))"

definition resume :: "WorkerEnv \<Rightarrow> iteration \<Rightarrow> worker \<Rightarrow> worker" where
  "resume cfg it s1 =
     (case fold (retry_visit cfg) (it 0 (map fst (wo_active s1))) ([], s1) of
        (retryStarts, s2) \<Rightarrow>
          let s3 = startHeartbeat (it 1) (startAttempts cfg retryStarts s2)
          in startAcquire cfg
               (case wo_deferred s3 of None \<Rightarrow> s3 | Some pending \<Rightarrow> processAcquired cfg pending (s3\<lparr>wo_deferred := None\<rparr>)))"

definition on_registered :: "WorkerEnv \<Rightarrow> iteration \<Rightarrow> client_err option \<Rightarrow> worker \<Rightarrow> worker" where
  "on_registered cfg it err s =
     (let s0 = s\<lparr>wo_registration_in_flight := False\<rparr>
      in if err \<noteq> None then s0
         else resume cfg it (s0\<lparr>wo_registration_needed := False, wo_acquire_paused := False, wo_epoch := wo_epoch s0 + 1\<rparr>))"

definition on_timer :: "worker \<Rightarrow> worker" where
  "on_timer s = flushCompletions (s\<lparr>wo_timer := False\<rparr>)"

definition on_tick :: "WorkerEnv \<Rightarrow> iteration \<Rightarrow> worker \<Rightarrow> worker" where
  "on_tick cfg it s =
     (if wo_registration_needed s then startRegistration s
      else startAcquire cfg (startHeartbeat (it 0) (s\<lparr>wo_acquire_paused := False\<rparr>)))"

subsection \<open>The loop\<close>

definition initial_worker :: "string \<Rightarrow> worker" where
  "initial_worker workerID = \<lparr>wo_id = workerID, wo_active = [], wo_used = 0, wo_acquiring = False, wo_acquire_paused = False,
     wo_heartbeat_in_flight = False, wo_registration_needed = False, wo_registration_in_flight = False, wo_epoch = 0,
     wo_deferred = None, wo_timer = False, wo_pending = [], wo_calls = [], wo_started = [], wo_panicked = False\<rparr>"

text \<open>\<^verbatim>\<open>Run\<close> up to the loop: the first registration was answered with \<open>registered\<close>.\<close>

definition run_start :: "WorkerEnv \<Rightarrow> string \<Rightarrow> worker" where
  "run_start cfg registered = startAcquire cfg (initial_worker (if registered = [] then cf_worker_id cfg else registered))"

definition heartbeatInterval :: "WorkerEnv \<Rightarrow> int \<Rightarrow> int" where
  "heartbeatInterval cfg heartbeatEvery =
     (let interval = (if cf_heartbeat_interval cfg = 0 then heartbeatEvery else cf_heartbeat_interval cfg)
      in if interval \<le> 0 then second else interval)"

text \<open>The references of the last heartbeat, sent when the context is cancelled.\<close>

definition shutdown_refs :: "iteration \<Rightarrow> worker \<Rightarrow> LeaseRef list" where
  "shutdown_refs it s = active_refs (it 0) s"

definition finish :: "call \<Rightarrow> worker \<Rightarrow> worker" where
  "finish c s = s\<lparr>wo_calls := remove1 c (wo_calls s)\<rparr>"

definition continue_as :: "call \<Rightarrow> call \<Rightarrow> worker \<Rightarrow> worker" where
  "continue_as c d s = s\<lparr>wo_calls := remove1 c (wo_calls s) @ [d]\<rparr>"

fun start_keys :: "call \<Rightarrow> attemptKey list" where
  "start_keys (CallStart k ref e) = [k]"
| "start_keys (CallStartBatch ks refs e) = ks"
| "start_keys (CallStartReport rs e) = map fst rs"
| "start_keys _ = []"

text \<open>No lease of a response was ever started before. The store never hands out an attempt twice.\<close>

definition fresh_leases :: "worker \<Rightarrow> client_err + Lease list \<Rightarrow> bool" where
  "fresh_leases s response \<longleftrightarrow>
     (case response of Inl _ \<Rightarrow> True
      | Inr leases \<Rightarrow> list_all (\<lambda>l. keyFor l \<notin> set (concat (map start_keys (wo_started s)))) leases)"

definition shuffles :: "iteration \<Rightarrow> bool" where
  "shuffles it \<longleftrightarrow> (\<forall>n ks. mset (it n ks) = mset ks)"

inductive wstep :: "WorkerEnv \<Rightarrow> bool \<Rightarrow> worker \<Rightarrow> worker \<Rightarrow> bool" for cfg fresh where
  acquired: "CallAcquire n m e \<in> set (wo_calls s) \<Longrightarrow> fresh \<longrightarrow> fresh_leases s response \<Longrightarrow>
    wstep cfg fresh s (on_acquired cfg \<lparr>aq_response = response, aq_epoch = e\<rparr> (finish (CallAcquire n m e) s))"
| start_done: "CallStart k ref e \<in> set (wo_calls s) \<Longrightarrow>
    wstep cfg fresh s (on_started cfg k err e (finish (CallStart k ref e) s))"
| starts_answered: "CallStartBatch ks refs e \<in> set (wo_calls s) \<Longrightarrow>
    wstep cfg fresh s (continue_as (CallStartBatch ks refs e) (CallStartReport (zip ks (attemptStartBatchErrors response refs)) e) s)"
| start_reported: "CallStartReport ((k, err) # rs) e \<in> set (wo_calls s) \<Longrightarrow>
    wstep cfg fresh s (on_started cfg k err e (continue_as (CallStartReport ((k, err) # rs) e) (CallStartReport rs e) s))"
| starts_done: "CallStartReport [] e \<in> set (wo_calls s) \<Longrightarrow> wstep cfg fresh s (finish (CallStartReport [] e) s)"
| executed: "CallExecute k request \<in> set (wo_calls s) \<Longrightarrow>
    wstep cfg fresh s (on_executed cfg k result (finish (CallExecute k request) s))"
| completed: "CallComplete k c e \<in> set (wo_calls s) \<Longrightarrow>
    wstep cfg fresh s (on_completed cfg [k] [err] e (finish (CallComplete k c e) s))"
| completions_done: "CallCompleteBatch ks cs e \<in> set (wo_calls s) \<Longrightarrow>
    wstep cfg fresh s (on_completed cfg ks (completionBatchErrors response2 cs) e (finish (CallCompleteBatch ks cs e) s))"
| heartbeat_done: "CallHeartbeat refs e \<in> set (wo_calls s) \<Longrightarrow> shuffles it \<Longrightarrow>
    wstep cfg fresh s (on_heartbeat cfg it refs response3 e (finish (CallHeartbeat refs e) s))"
| registered: "CallRegister \<in> set (wo_calls s) \<Longrightarrow> shuffles it \<Longrightarrow>
    wstep cfg fresh s (on_registered cfg it (registrationError (wo_id s) response4) (finish CallRegister s))"
| timer: "wo_timer s \<Longrightarrow> wstep cfg fresh s (on_timer s)"
| tick: "shuffles it \<Longrightarrow> wstep cfg fresh s (on_tick cfg it s)"

definition runs :: "WorkerEnv \<Rightarrow> bool \<Rightarrow> worker \<Rightarrow> bool" where
  "runs cfg fresh s \<longleftrightarrow> (\<exists>registered. (wstep cfg fresh)\<^sup>*\<^sup>* (run_start cfg registered) s)"

end
