(* ===== verification/Worker_Invariants.thy ===== *)
theory Worker_Invariants
  imports Worker_Loop
begin

text \<open>
  The invariants of the worker's event loop. Three views of the state are enough: the leases it holds (\<open>held\<close>), the calls and flags
  that concern the worker as a whole (\<open>admin\<close>) and, for every attempt, its \<open>cell\<close>: whether and how often it was started and executed, what of
  it is in progress and its state. Most closures of the loop leave two of the views alone.
\<close>

section \<open>Definitions\<close>

definition held :: "worker \<Rightarrow> (attemptKey \<times> Lease) list" where
  "held s = map (\<lambda>(k, a). (k, as_lease a)) (wo_active s)"

fun is_admin :: "call \<Rightarrow> bool" where
  "is_admin CallRegister = True"
| "is_admin (CallAcquire n m e) = True"
| "is_admin (CallHeartbeat refs e) = True"
| "is_admin _ = False"

fun is_acquire :: "call \<Rightarrow> bool" where
  "is_acquire (CallAcquire n m e) = True"
| "is_acquire _ = False"

fun is_heartbeat :: "call \<Rightarrow> bool" where
  "is_heartbeat (CallHeartbeat refs e) = True"
| "is_heartbeat _ = False"

type_synonym flags = "bool \<times> bool \<times> bool \<times> bool \<times> bool"

definition admin :: "worker \<Rightarrow> call list \<times> flags \<times> acquireResult option" where
  "admin s = (filter is_admin (wo_calls s), (wo_acquiring s, wo_acquire_paused s, wo_heartbeat_in_flight s,
     wo_registration_needed s, wo_registration_in_flight s), wo_deferred s)"

fun exec_keys :: "call \<Rightarrow> attemptKey list" where
  "exec_keys (CallExecute k r) = [k]"
| "exec_keys _ = []"

fun complete_keys :: "call \<Rightarrow> attemptKey list" where
  "complete_keys (CallComplete k c e) = [k]"
| "complete_keys (CallCompleteBatch ks cs e) = ks"
| "complete_keys _ = []"

text \<open>How often an attempt is mentioned by the running calls that start, execute and complete attempts, and among the completions
  waiting for their batch.\<close>

definition mentions :: "(call \<Rightarrow> attemptKey list) \<Rightarrow> call list \<Rightarrow> attemptKey \<Rightarrow> nat" where
  "mentions f cs k = count_list (concat (map f cs)) k"

type_synonym load = "nat \<times> nat \<times> nat \<times> nat"

definition load :: "worker \<Rightarrow> attemptKey \<Rightarrow> load" where
  "load s k = (mentions start_keys (wo_calls s) k, mentions exec_keys (wo_calls s) k, mentions complete_keys (wo_calls s) k,
     count_list (wo_pending s) k)"

definition attempt :: "worker \<Rightarrow> attemptKey \<Rightarrow> attemptState option" where
  "attempt s k = map_of (wo_active s) k"

definition was_started :: "worker \<Rightarrow> attemptKey \<Rightarrow> bool" where
  "was_started s k \<longleftrightarrow> 0 < mentions start_keys (wo_started s) k"

definition executions :: "worker \<Rightarrow> attemptKey \<Rightarrow> nat" where
  "executions s k = mentions exec_keys (wo_started s) k"

definition cell :: "worker \<Rightarrow> attemptKey \<Rightarrow> bool \<times> nat \<times> load \<times> attemptState option" where
  "cell s k = (was_started s k, executions s k, load s k, attempt s k)"

definition flags_of :: "attemptState \<Rightarrow> bool \<times> bool \<times> bool \<times> bool" where
  "flags_of a = (as_start_in_flight a, as_start_retry a, as_execute_pending a, as_completion_retry a)"

definition idle :: "load \<Rightarrow> attemptState \<Rightarrow> bool" where
  "idle l a \<longleftrightarrow> l = (0, 0, 0, 0) \<and> flags_of a = (False, False, False, False)"

text \<open>Exactly one thing is in progress: a call, a place in the next batch, or a retry once the worker is registered again.\<close>

definition tracked :: "load \<Rightarrow> attemptState \<Rightarrow> bool" where
  "tracked l a \<longleftrightarrow> (case as_phase a of
     PhaseStarting \<Rightarrow> l = (1, 0, 0, 0) \<and> flags_of a = (True, False, False, False) \<or>
       l = (0, 0, 0, 0) \<and> flags_of a = (False, True, False, False) \<or> l = (0, 0, 0, 0) \<and> flags_of a = (False, False, True, False)
   | PhaseExecuting \<Rightarrow> l = (0, 1, 0, 0) \<and> flags_of a = (False, False, False, False)
   | PhaseReadyToComplete \<Rightarrow> l = (0, 0, 0, 1) \<and> flags_of a = (False, False, False, False) \<or>
       l = (0, 0, 0, 0) \<and> flags_of a = (False, False, False, True)
   | PhaseCompleting \<Rightarrow> l = (0, 0, 1, 0) \<and> flags_of a = (False, False, False, False))"

definition bounded :: "int \<Rightarrow> attemptState \<Rightarrow> bool" where
  "bounded n a \<longleftrightarrow> (case as_phase a of
     PhaseStarting \<Rightarrow> as_completion_attempts a = 0
   | PhaseExecuting \<Rightarrow> as_completion_attempts a = 0
   | PhaseReadyToComplete \<Rightarrow> 0 \<le> as_completion_attempts a \<and> as_completion_attempts a < n \<and> as_result a \<noteq> None
   | PhaseCompleting \<Rightarrow> 1 \<le> as_completion_attempts a \<and> as_completion_attempts a \<le> n \<and> as_result a \<noteq> None)"

fun cell_ok :: "int \<Rightarrow> bool \<Rightarrow> bool \<times> nat \<times> load \<times> attemptState option \<Rightarrow> bool" where
  "cell_ok n loose (seen, executed, l, current) \<longleftrightarrow> executed \<le> 1 \<and> (\<not> seen \<longrightarrow> executed = 0 \<and> l = (0, 0, 0, 0)) \<and>
     (case current of None \<Rightarrow> True
      | Some a \<Rightarrow> bounded n a \<and> executed = (if as_phase a = PhaseStarting then 0 else 1) \<and> (if loose then idle l a else seen \<and> tracked l a))"

text \<open>All cells are in order, but for the attempts of \<open>K\<close>, with which nothing happens yet.\<close>

definition live :: "int \<Rightarrow> attemptKey set \<Rightarrow> worker \<Rightarrow> bool" where
  "live n K s \<longleftrightarrow> (\<forall>k. cell_ok n (k \<in> K) (cell s k))"

definition capacity :: "WorkerEnv \<Rightarrow> worker \<Rightarrow> bool" where
  "capacity cfg s \<longleftrightarrow> distinct (map (l_job_id \<circ> snd) (held s)) \<and> wo_used s = sum_list (map (l_slot_cost \<circ> snd) (held s)) \<and>
     wo_used s \<le> cf_slots cfg \<and> (\<forall>(k, l) \<in> set (held s). k = keyFor l \<and> 1 \<le> l_slot_cost l)"

fun asks_at_most :: "int \<Rightarrow> call \<Rightarrow> bool" where
  "asks_at_most free (CallAcquire n m e) \<longleftrightarrow> 1 \<le> n \<and> n \<le> free"
| "asks_at_most free _ \<longleftrightarrow> True"

definition single_flight :: "int \<Rightarrow> call list \<times> flags \<times> acquireResult option \<Rightarrow> bool" where
  "single_flight free = (\<lambda>(calls, (acquiring, paused, beating, needed, registering), deferred).
     length (filter is_acquire calls) = of_bool acquiring \<and> length (filter is_heartbeat calls) = of_bool beating \<and>
     count_list calls CallRegister = of_bool registering \<and> (registering \<longrightarrow> needed) \<and> list_all (asks_at_most free) calls)"

definition deferred_ok :: "worker \<Rightarrow> bool" where
  "deferred_ok s \<longleftrightarrow> (wo_deferred s \<noteq> None \<longrightarrow> wo_registration_needed s \<and> \<not> wo_acquiring s)"

definition steady :: "WorkerEnv \<Rightarrow> worker \<Rightarrow> bool" where
  "steady cfg s \<longleftrightarrow> capacity cfg s \<and> single_flight (cf_slots cfg - wo_used s) (admin s)"

definition flagged :: "attemptState \<Rightarrow> bool" where
  "flagged a \<longleftrightarrow> as_start_retry a \<or> as_execute_pending a \<or> as_completion_retry a"

fun aligned :: "call \<Rightarrow> bool" where
  "aligned (CallStartBatch ks refs e) \<longleftrightarrow> length ks = length refs"
| "aligned (CallCompleteBatch ks cs e) \<longleftrightarrow> length ks = length cs \<and> distinct ks"
| "aligned _ \<longleftrightarrow> True"

definition sound :: "worker \<Rightarrow> bool" where
  "sound s \<longleftrightarrow> list_all aligned (wo_calls s) \<and> (wo_pending s \<noteq> [] \<longrightarrow> wo_timer s) \<and> \<not> wo_panicked s"

definition valid_env :: "WorkerEnv \<Rightarrow> bool" where
  "valid_env cfg \<longleftrightarrow> (\<exists>c. Config_normalize c = Inr (Config.truncate cfg))"

section \<open>Lemmas\<close>

named_theorems worker_views

lemma Config_normalize_valid:
  assumes "Config_normalize c = Inr d"
  shows "1 \<le> cf_slots d \<and> 1 \<le> cf_max_completion_attempts d \<and> 1 \<le> cf_attempt_start_batch_size d \<and> 0 < cf_completion_batch_wait d"
proof -
  define c1 where "c1 = (if cf_lease_batch c = 0 then c\<lparr>cf_lease_batch := cf_slots c\<rparr> else c)"
  define c2 where "c2 = (if cf_shutdown_timeout c1 = 0 then c1\<lparr>cf_shutdown_timeout := 2 * second\<rparr> else c1)"
  define c3 where "c3 = (if cf_max_completion_attempts c2 = 0 then c2\<lparr>cf_max_completion_attempts := 3\<rparr> else c2)"
  define c4 where "c4 = (if cf_attempt_start_batch_size c3 = 0 then c3\<lparr>cf_attempt_start_batch_size := 64\<rparr> else c3)"
  define c5 where "c5 = (if cf_completion_batch_size c4 = 0 then c4\<lparr>cf_completion_batch_size := 64\<rparr> else c4)"
  define c6 where "c6 = (if cf_completion_batch_wait c5 = 0 then c5\<lparr>cf_completion_batch_wait := 2000000\<rparr> else c5)"
  note stages = c1_def[symmetric] c2_def[symmetric] c3_def[symmetric] c4_def[symmetric] c5_def[symmetric] c6_def[symmetric]
  have "d = c6" "1 \<le> cf_slots c" "1 \<le> cf_max_completion_attempts c3" "1 \<le> cf_attempt_start_batch_size c4" "0 \<le> cf_completion_batch_wait c6"
    using assms unfolding Config_normalize_def Let_def stages by (simp_all split: if_split_asm)
  moreover have "cf_slots c1 = cf_slots c" "cf_slots c2 = cf_slots c1" "cf_slots c3 = cf_slots c2" "cf_slots c4 = cf_slots c3"
      "cf_slots c5 = cf_slots c4" "cf_slots c6 = cf_slots c5"
    by (simp_all add: c1_def c2_def c3_def c4_def c5_def c6_def)
  moreover have "cf_max_completion_attempts c4 = cf_max_completion_attempts c3" "cf_max_completion_attempts c5 = cf_max_completion_attempts c4"
      "cf_max_completion_attempts c6 = cf_max_completion_attempts c5" "cf_attempt_start_batch_size c5 = cf_attempt_start_batch_size c4"
      "cf_attempt_start_batch_size c6 = cf_attempt_start_batch_size c5" "cf_completion_batch_wait c6 \<noteq> 0"
    by (simp_all add: c4_def c5_def c6_def)
  ultimately show ?thesis by simp
qed

lemma valid_envD:
  assumes "valid_env cfg"
  shows "1 \<le> cf_slots cfg" "1 \<le> cf_max_completion_attempts cfg" "1 \<le> cf_attempt_start_batch_size cfg" "0 < cf_completion_batch_wait cfg"
  using assms by (auto simp: valid_env_def Config.defs dest!: Config_normalize_valid)

lemma mentions_append [simp]: "mentions f (xs @ ys) k = mentions f xs k + mentions f ys k"
  by (simp add: mentions_def)

lemma mentions_Nil [simp]: "mentions f [] k = 0"
  by (simp add: mentions_def)

lemma mentions_Cons [simp]: "mentions f (c # cs) k = count_list (f c) k + mentions f cs k"
  by (simp add: mentions_def)

lemma mentions_remove1: "c \<in> set cs \<Longrightarrow> mentions f cs k = count_list (f c) k + mentions f (remove1 c cs) k"
  by (induction cs) auto

subsection \<open>Primitive changes\<close>

lemma spawn_simps [simp]:
  "wo_active (spawn c s) = wo_active s" "wo_used (spawn c s) = wo_used s" "wo_id (spawn c s) = wo_id s"
  "wo_acquiring (spawn c s) = wo_acquiring s" "wo_acquire_paused (spawn c s) = wo_acquire_paused s"
  "wo_heartbeat_in_flight (spawn c s) = wo_heartbeat_in_flight s" "wo_registration_needed (spawn c s) = wo_registration_needed s"
  "wo_registration_in_flight (spawn c s) = wo_registration_in_flight s" "wo_epoch (spawn c s) = wo_epoch s"
  "wo_deferred (spawn c s) = wo_deferred s" "wo_timer (spawn c s) = wo_timer s" "wo_pending (spawn c s) = wo_pending s"
  "wo_calls (spawn c s) = wo_calls s @ [c]" "wo_started (spawn c s) = wo_started s @ [c]" "wo_panicked (spawn c s) = wo_panicked s"
  by (simp_all add: spawn_def)

lemma change_simps [simp]:
  "wo_used (change k f s) = wo_used s" "wo_id (change k f s) = wo_id s"
  "wo_acquiring (change k f s) = wo_acquiring s" "wo_acquire_paused (change k f s) = wo_acquire_paused s"
  "wo_heartbeat_in_flight (change k f s) = wo_heartbeat_in_flight s" "wo_registration_needed (change k f s) = wo_registration_needed s"
  "wo_registration_in_flight (change k f s) = wo_registration_in_flight s" "wo_epoch (change k f s) = wo_epoch s"
  "wo_deferred (change k f s) = wo_deferred s" "wo_timer (change k f s) = wo_timer s" "wo_pending (change k f s) = wo_pending s"
  "wo_calls (change k f s) = wo_calls s" "wo_started (change k f s) = wo_started s" "wo_panicked (change k f s) = wo_panicked s"
  by (simp_all add: change_def)

lemma attempt_change [simp]: "attempt (change k f s) = (attempt s)(k := map_option f (attempt s k))"
proof -
  have "map_of (map (\<lambda>(k', a). (k', if k' = k then f a else a)) xs) j = (if j = k then map_option f (map_of xs k) else map_of xs j)" for xs j
    by (induction xs) auto
  then show ?thesis by (auto simp: attempt_def change_def)
qed

lemma attempt_cong: "wo_active s' = wo_active s \<Longrightarrow> attempt s' = attempt s"
  by (rule ext) (simp add: attempt_def)

lemma held_change: "(\<And>a. as_lease (f a) = as_lease a) \<Longrightarrow> held (change k f s) = held s"
  by (auto simp: held_def change_def)

lemma held_cong: "wo_active s' = wo_active s \<Longrightarrow> held s' = held s"
  by (simp add: held_def)

lemma map_fst_held: "map fst (wo_active s) = map fst (held s)"
  by (simp add: held_def split_def)

subsection \<open>What a closure leaves alone\<close>

text \<open>Closures that work on attempts keep the outer view; those that concern the worker as a whole keep the inner view.\<close>

definition outer :: "worker \<Rightarrow> (attemptKey \<times> Lease) list \<times> (call list \<times> flags \<times> acquireResult option) \<times> int \<times> string \<times> epoch" where
  "outer s = (held s, admin s, wo_used s, wo_id s, wo_epoch s)"

definition inner :: "worker \<Rightarrow> (attemptKey \<times> attemptState) list \<times> call list \<times> attemptKey list \<times> bool \<times> bool" where
  "inner s = (wo_active s, filter (\<lambda>c. \<not> is_admin c) (wo_calls s), wo_pending s, wo_timer s, wo_panicked s)"

lemma outer_eqD:
  assumes "outer s' = outer s"
  shows "held s' = held s" "admin s' = admin s" "wo_used s' = wo_used s" "wo_id s' = wo_id s" "wo_epoch s' = wo_epoch s"
    "wo_acquiring s' = wo_acquiring s" "wo_acquire_paused s' = wo_acquire_paused s" "wo_heartbeat_in_flight s' = wo_heartbeat_in_flight s"
    "wo_registration_needed s' = wo_registration_needed s" "wo_registration_in_flight s' = wo_registration_in_flight s"
    "wo_deferred s' = wo_deferred s" "map fst (wo_active s') = map fst (wo_active s)"
  using assms by (simp_all add: outer_def admin_def map_fst_held)

lemma outer_spawn: "\<not> is_admin c \<Longrightarrow> outer (spawn c s) = outer s"
  by (simp add: outer_def admin_def held_def)

lemma outer_change: "(\<And>a. as_lease (f a) = as_lease a) \<Longrightarrow> outer (change k f s) = outer s"
  by (simp add: outer_def admin_def held_change)

lemma outer_panic: "outer (panic s) = outer s"
  by (simp add: outer_def admin_def held_def panic_def)

lemma outer_pending: "outer (s\<lparr>wo_pending := x\<rparr>) = outer s" "outer (s\<lparr>wo_timer := b\<rparr>) = outer s"
  by (simp_all add: outer_def admin_def held_def)

lemma outer_fold: "(\<And>x s. outer (f x s) = outer s) \<Longrightarrow> outer (fold f xs s) = outer s"
  by (induction xs arbitrary: s) auto

lemmas outer_steps = outer_spawn outer_change outer_panic outer_pending

lemma outer_executeAttempt [worker_views]: "outer (executeAttempt l k s) = outer s"
  by (simp add: executeAttempt_def outer_spawn)

lemma outer_startAttempt: "outer (startAttempt k s) = outer s"
  by (simp add: startAttempt_def outer_steps split: option.split)

lemma outer_start_chunk: "outer (start_chunk cfg ks s) = outer s"
  by (simp add: start_chunk_def startAttemptBatch_def outer_fold outer_startAttempt outer_steps)

lemma outer_startAttempts [worker_views]: "outer (startAttempts cfg ks s) = outer s"
  by (simp add: startAttempts_def outer_fold outer_start_chunk)

lemma outer_startCompletion: "outer (startCompletion k s) = outer s"
  by (simp add: startCompletion_def completing_def outer_steps split: option.split)

lemma outer_flush_fold: "fold flush_one ps (ks, cs, s) = (ks', cs', s') \<Longrightarrow> outer s' = outer s"
proof (induction ps arbitrary: ks cs s)
  case (Cons p ps)
  obtain ks1 cs1 s1 where one: "flush_one p (ks, cs, s) = (ks1, cs1, s1)" by (cases "flush_one p (ks, cs, s)")
  then have "outer s1 = outer s"
    by (auto simp: flush_one_def completing_def outer_change split: option.split_asm if_split_asm)
  then show ?case using Cons one by auto
qed simp

lemma outer_flushCompletions [worker_views]: "outer (flushCompletions s) = outer s"
proof (cases "fold flush_one (wo_pending s) ([], [], s\<lparr>wo_timer := False\<rparr>)")
  case (fields ks cs s1)
  then show ?thesis using outer_flush_fold[OF fields] by (simp add: flushCompletions_def Let_def outer_steps)
qed

lemma outer_queueCompletion [worker_views]: "outer (queueCompletion cfg k s) = outer s"
  by (simp add: queueCompletion_def Let_def outer_startCompletion outer_flushCompletions outer_pending)

lemma inner_spawn: "is_admin c \<Longrightarrow> inner (spawn c s) = inner s"
  by (simp add: inner_def)

lemma inner_update [simp]:
  "inner (s\<lparr>wo_acquiring := b\<rparr>) = inner s" "inner (s\<lparr>wo_acquire_paused := b\<rparr>) = inner s"
  "inner (s\<lparr>wo_heartbeat_in_flight := b\<rparr>) = inner s" "inner (s\<lparr>wo_registration_needed := b\<rparr>) = inner s"
  "inner (s\<lparr>wo_registration_in_flight := b\<rparr>) = inner s" "inner (s\<lparr>wo_epoch := e\<rparr>) = inner s" "inner (s\<lparr>wo_deferred := d\<rparr>) = inner s"
  by (simp_all add: inner_def)

lemma inner_admin [worker_views]:
  "inner (startRegistration s) = inner s" "inner (startAcquire cfg s) = inner s" "inner (startHeartbeat order s) = inner s"
  by (simp_all add: startRegistration_def startAcquire_def startHeartbeat_def Let_def inner_spawn)

subsection \<open>Capacity and single flight\<close>

lemma steady_outer: "outer s' = outer s \<Longrightarrow> steady cfg s' = steady cfg s"
  by (simp add: steady_def capacity_def outer_def)

lemma deferred_outer: "outer s' = outer s \<Longrightarrow> deferred_ok s' = deferred_ok s"
  using outer_eqD[of s' s] by (simp add: deferred_ok_def)

lemma single_flight_more: "single_flight free adm \<Longrightarrow> free \<le> free' \<Longrightarrow> single_flight free' adm"
proof -
  assume "single_flight free adm" "free \<le> free'"
  moreover have "asks_at_most free c \<Longrightarrow> free \<le> free' \<Longrightarrow> asks_at_most free' c" for c by (cases c) auto
  ultimately show ?thesis by (auto simp: single_flight_def list_all_iff split: prod.split)
qed

lemma single_flight_quiet: "single_flight free (admin s) \<Longrightarrow> \<not> wo_acquiring s \<Longrightarrow> single_flight free' (admin s)"
proof -
  assume "single_flight free (admin s)" "\<not> wo_acquiring s"
  moreover have "\<not> is_acquire c \<Longrightarrow> asks_at_most free' c" for c by (cases c) auto
  ultimately show ?thesis by (auto simp: single_flight_def admin_def list_all_iff filter_empty_conv)
qed

lemma capacity_cong: "held s' = held s \<Longrightarrow> wo_used s' = wo_used s \<Longrightarrow> capacity cfg s' = capacity cfg s"
  by (simp add: capacity_def)

lemma startRegistration_simps:
  "held (startRegistration s) = held s" "wo_used (startRegistration s) = wo_used s" "wo_registration_needed (startRegistration s)"
  "wo_deferred (startRegistration s) = wo_deferred s" "wo_acquiring (startRegistration s) = wo_acquiring s"
  by (simp_all add: startRegistration_def Let_def held_def)

lemma steadyI:
  assumes "steady cfg s" "held s' = held s" "wo_used s' = wo_used s"
    and "single_flight (cf_slots cfg - wo_used s) (admin s) \<Longrightarrow> single_flight (cf_slots cfg - wo_used s) (admin s')"
  shows "steady cfg s'"
  using assms capacity_cong[of s' s cfg] by (simp add: steady_def)

lemma steady_startRegistration: "steady cfg s \<Longrightarrow> steady cfg (startRegistration s)"
  by (erule steadyI) (auto simp: startRegistration_def Let_def held_def single_flight_def admin_def)

lemma deferred_startRegistration: "deferred_ok s \<Longrightarrow> deferred_ok (startRegistration s)"
  by (simp add: deferred_ok_def startRegistration_simps)

lemma steady_startAcquire: "steady cfg s \<Longrightarrow> steady cfg (startAcquire cfg s)"
  by (erule steadyI) (auto simp: startAcquire_def Let_def held_def single_flight_def admin_def)

lemma deferred_paused [simp]: "deferred_ok (s\<lparr>wo_acquire_paused := b\<rparr>) = deferred_ok s"
  by (simp add: deferred_ok_def)

lemma deferred_startAcquire: "deferred_ok s \<Longrightarrow> deferred_ok (startAcquire cfg s)"
  by (auto simp: deferred_ok_def startAcquire_def Let_def)

lemma steady_startHeartbeat: "steady cfg s \<Longrightarrow> steady cfg (startHeartbeat order s)"
  by (erule steadyI) (auto simp: startHeartbeat_def held_def single_flight_def admin_def)

lemma startHeartbeat_simps:
  "wo_deferred (startHeartbeat order s) = wo_deferred s" "wo_acquiring (startHeartbeat order s) = wo_acquiring s"
  "wo_registration_needed (startHeartbeat order s) = wo_registration_needed s"
  by (simp_all add: startHeartbeat_def)

lemma steady_flags:
  "steady cfg s \<Longrightarrow> steady cfg (s\<lparr>wo_acquire_paused := b\<rparr>)" "steady cfg s \<Longrightarrow> steady cfg (s\<lparr>wo_deferred := d\<rparr>)"
  by (erule steadyI; simp add: single_flight_def admin_def held_def)+

lemma sum_list_remove_key:
  "distinct (map fst xs) \<Longrightarrow> map_of xs k = Some v \<Longrightarrow>
   sum_list (map (f \<circ> snd) (filter (\<lambda>(k', _). k' \<noteq> k) xs)) = sum_list (map (f \<circ> snd) xs) - (f v :: int)"
proof (induction xs)
  case (Cons x xs)
  have "k \<notin> fst ` set xs \<Longrightarrow> filter (\<lambda>(k', _). k' \<noteq> k) xs = xs" by (induction xs) auto
  then show ?case using Cons by (auto split: if_split_asm)
qed simp

lemma held_keys_distinct: "capacity cfg s \<Longrightarrow> distinct (map fst (held s))"
proof -
  assume "capacity cfg s"
  then have d: "distinct (map (l_job_id \<circ> snd) (held s))" and k: "\<forall>(k, l) \<in> set (held s). k = keyFor l" by (auto simp: capacity_def)
  have "map (l_job_id \<circ> snd) (held s) = map ak_job (map fst (held s))" using k by (auto simp: keyFor_def)
  then show ?thesis using d by (metis distinct_map)
qed

lemma removeAttempt_outer:
  "admin (removeAttempt k s) = admin s" "wo_acquiring (removeAttempt k s) = wo_acquiring s"
  "wo_registration_needed (removeAttempt k s) = wo_registration_needed s" "wo_deferred (removeAttempt k s) = wo_deferred s"
  by (simp_all add: removeAttempt_def admin_def split: option.split)

lemma steady_removeAttempt:
  assumes "steady cfg s"
  shows "steady cfg (removeAttempt k s)"
proof (cases "map_of (wo_active s) k")
  case None
  then show ?thesis using assms by (simp add: removeAttempt_def)
next
  case (Some a)
  have cap: "capacity cfg s" using assms by (simp add: steady_def)
  have held': "held (removeAttempt k s) = filter (\<lambda>(k', _). k' \<noteq> k) (held s)"
    using Some by (simp add: removeAttempt_def held_def filter_map o_def split_def)
  have used': "wo_used (removeAttempt k s) = wo_used s - l_slot_cost (as_lease a)" using Some by (simp add: removeAttempt_def)
  have found: "map_of (held s) k = Some (as_lease a)"
    using Some by (simp add: held_def map_of_map)
  then have "1 \<le> l_slot_cost (as_lease a)" using cap map_of_SomeD by (fastforce simp: capacity_def)
  then have "capacity cfg (removeAttempt k s)" "wo_used (removeAttempt k s) \<le> wo_used s"
    using cap sum_list_remove_key[OF held_keys_distinct[OF cap] found, of l_slot_cost]
    by (auto simp: capacity_def held' used' distinct_map_filter)
  then show ?thesis
    using assms single_flight_more[of "cf_slots cfg - wo_used s" "admin s" "cf_slots cfg - wo_used (removeAttempt k s)"]
    by (simp add: steady_def removeAttempt_outer)
qed

lemma accept_lease_cases:
  assumes "accept_lease lease (remaining, ks, s) = (remaining', ks', s')"
  obtains (skipped) "remaining' = remaining" "ks' = ks" "s' = s"
  | (accepted) "1 \<le> l_slot_cost lease" "l_slot_cost lease \<le> remaining" "map_of (wo_active s) (keyFor lease) = None"
      "\<not> hasActiveJob (wo_active s) (l_job_id lease)" "remaining' = remaining - l_slot_cost lease" "ks' = ks @ [keyFor lease]"
      "s' = s\<lparr>wo_active := wo_active s @ [(keyFor lease, new_attempt_state lease)], wo_used := wo_used s + l_slot_cost lease\<rparr>"
proof (cases "l_slot_cost lease < 1 \<or> l_slot_cost lease > remaining \<or> l_worker_id lease \<noteq> [] \<and> l_worker_id lease \<noteq> wo_id s \<or>
    map_of (wo_active s) (keyFor lease) \<noteq> None \<or> hasActiveJob (wo_active s) (l_job_id lease)")
  case True
  then have "accept_lease lease (remaining, ks, s) = (remaining, ks, s)" by (auto simp: accept_lease_def)
  then show ?thesis using assms skipped by simp
next
  case False
  then have "accept_lease lease (remaining, ks, s) = (remaining - l_slot_cost lease, ks @ [keyFor lease],
      s\<lparr>wo_active := wo_active s @ [(keyFor lease, new_attempt_state lease)], wo_used := wo_used s + l_slot_cost lease\<rparr>)"
    by (simp add: accept_lease_def)
  then show ?thesis using assms False by (intro accepted) simp_all
qed

lemma accept_lease_steady:
  assumes "accept_lease lease (remaining, ks, s) = (remaining', ks', s')"
    and "steady cfg s" "\<not> wo_acquiring s" "remaining = cf_slots cfg - wo_used s"
  shows "steady cfg s' \<and> remaining' = cf_slots cfg - wo_used s' \<and> admin s' = admin s \<and> wo_id s' = wo_id s \<and> wo_epoch s' = wo_epoch s"
  using assms(1)
proof (cases rule: accept_lease_cases)
  case skipped
  then show ?thesis using assms by simp
next
  case accepted
  note cost = accepted(1,2) and new = accepted(4) and s' = accepted(7) and remaining' = accepted(5)
  have held': "held s' = held s @ [(keyFor lease, lease)]" by (simp add: s' held_def new_attempt_state_def)
  have "l_job_id lease \<notin> set (map (l_job_id \<circ> snd) (held s))" using new by (auto simp: hasActiveJob_def held_def list_ex_iff)
  moreover have "wo_used s' = wo_used s + l_slot_cost lease" by (simp add: s')
  ultimately have "capacity cfg s'" using assms(2,4) cost by (auto simp: steady_def capacity_def held')
  moreover have "admin s' = admin s" by (simp add: admin_def s')
  ultimately show ?thesis
    using assms(2-4) single_flight_quiet[of "cf_slots cfg - wo_used s" s "cf_slots cfg - wo_used s'"]
    by (simp add: steady_def remaining' s')
qed

lemma accept_fold_steady:
  assumes "fold accept_lease ls (remaining, ks, s) = (remaining', ks', s')"
    and "steady cfg s" "\<not> wo_acquiring s" "remaining = cf_slots cfg - wo_used s"
  shows "steady cfg s' \<and> admin s' = admin s"
  using assms
proof (induction ls arbitrary: remaining ks s)
  case (Cons l ls)
  obtain r1 k1 s1 where one: "accept_lease l (remaining, ks, s) = (r1, k1, s1)" by (cases "accept_lease l (remaining, ks, s)")
  note step = accept_lease_steady[OF one Cons.prems(2-4)]
  then have "\<not> wo_acquiring s1" using Cons.prems(3) by (simp add: admin_def)
  then show ?case using Cons.IH[of r1 k1 s1] Cons.prems(1) one step by simp
qed simp

lemma steady_processAcquired:
  assumes "steady cfg s" "\<not> wo_acquiring s"
  shows "steady cfg (processAcquired cfg result s)"
proof (cases "aq_response result")
  case (Inl e)
  then show ?thesis
    using assms by (auto simp: processAcquired_def intro: steady_startRegistration steady_startAcquire steady_flags)
next
  case (Inr leases)
  obtain r ks s1 where f: "fold accept_lease leases (cf_slots cfg - wo_used s, [], s) = (r, ks, s1)"
    by (cases "fold accept_lease leases (cf_slots cfg - wo_used s, [], s)")
  have "steady cfg (startAttempts cfg ks s1)"
    using accept_fold_steady[OF f assms refl] steady_outer[OF outer_startAttempts] by blast
  then show ?thesis by (simp add: processAcquired_def Inr f steady_startAcquire)
qed

lemma deferred_processAcquired:
  assumes "deferred_ok s" "steady cfg s" "\<not> wo_acquiring s"
  shows "deferred_ok (processAcquired cfg result s)"
proof (cases "aq_response result")
  case (Inl e)
  then show ?thesis
    using assms(1) by (simp add: processAcquired_def deferred_startRegistration deferred_startAcquire)
next
  case (Inr leases)
  obtain r ks s1 where f: "fold accept_lease leases (cf_slots cfg - wo_used s, [], s) = (r, ks, s1)"
    by (cases "fold accept_lease leases (cf_slots cfg - wo_used s, [], s)")
  have "admin s1 = admin s" using accept_fold_steady[OF f assms(2,3) refl] by simp
  then have "deferred_ok s1" using assms(1) by (simp add: deferred_ok_def admin_def)
  then show ?thesis
    using deferred_outer[OF outer_startAttempts] by (simp add: processAcquired_def Inr f deferred_startAcquire)
qed

subsubsection \<open>Events\<close>

lemma finish_simps [simp]:
  "wo_active (finish c s) = wo_active s" "wo_used (finish c s) = wo_used s" "wo_acquiring (finish c s) = wo_acquiring s"
  "wo_heartbeat_in_flight (finish c s) = wo_heartbeat_in_flight s" "wo_registration_needed (finish c s) = wo_registration_needed s"
  "wo_registration_in_flight (finish c s) = wo_registration_in_flight s" "wo_deferred (finish c s) = wo_deferred s"
  "wo_acquire_paused (finish c s) = wo_acquire_paused s" "wo_calls (finish c s) = remove1 c (wo_calls s)" "wo_id (finish c s) = wo_id s"
  "wo_pending (finish c s) = wo_pending s" "wo_started (finish c s) = wo_started s" "wo_timer (finish c s) = wo_timer s"
  "wo_panicked (finish c s) = wo_panicked s" "wo_epoch (finish c s) = wo_epoch s"
  by (simp_all add: finish_def)

lemma continue_simps [simp]:
  "wo_active (continue_as c d s) = wo_active s" "wo_used (continue_as c d s) = wo_used s" "wo_acquiring (continue_as c d s) = wo_acquiring s"
  "wo_heartbeat_in_flight (continue_as c d s) = wo_heartbeat_in_flight s" "wo_registration_needed (continue_as c d s) = wo_registration_needed s"
  "wo_registration_in_flight (continue_as c d s) = wo_registration_in_flight s" "wo_deferred (continue_as c d s) = wo_deferred s"
  "wo_acquire_paused (continue_as c d s) = wo_acquire_paused s" "wo_calls (continue_as c d s) = remove1 c (wo_calls s) @ [d]"
  "wo_pending (continue_as c d s) = wo_pending s" "wo_started (continue_as c d s) = wo_started s" "wo_timer (continue_as c d s) = wo_timer s"
  "wo_panicked (continue_as c d s) = wo_panicked s" "wo_epoch (continue_as c d s) = wo_epoch s" "wo_id (continue_as c d s) = wo_id s"
  by (simp_all add: continue_as_def)

lemma outer_finish [worker_views]: "\<not> is_admin c \<Longrightarrow> outer (finish c s) = outer s"
  by (simp add: outer_def admin_def held_def filter_remove1 remove1_filter_not)

lemma outer_continue [worker_views]: "\<not> is_admin c \<Longrightarrow> \<not> is_admin d \<Longrightarrow> outer (continue_as c d s) = outer s"
  by (simp add: outer_def admin_def held_def filter_remove1 remove1_filter_not)

lemma remove1_counts:
  "c \<in> set cs \<Longrightarrow> length (filter P (remove1 c cs)) = length (filter P cs) - of_bool (P c)"
  "c \<in> set cs \<Longrightarrow> count_list (remove1 c cs) x = count_list cs x - of_bool (c = x)"
  by (auto simp: filter_remove1 length_remove1 remove1_filter_not)

lemma single_flight_remove:
  assumes "single_flight free (cs, (acquiring, paused, pulsing, needed, registering), d)" and "c \<in> set cs"
    and "registering \<and> c \<noteq> CallRegister \<longrightarrow> needed'"
  shows "single_flight free (remove1 c cs, (acquiring \<and> \<not> is_acquire c, paused', pulsing \<and> \<not> is_heartbeat c, needed',
    registering \<and> c \<noteq> CallRegister), d')"
proof -
  have "list_all (asks_at_most free) cs \<Longrightarrow> list_all (asks_at_most free) (remove1 c cs)"
    using set_remove1_subset[of c cs] by (auto simp: list_all_iff)
  then show ?thesis using assms remove1_counts[OF assms(2)] by (cases c) (auto simp: single_flight_def)
qed

lemma steady_finish:
  assumes "steady cfg s" "c \<in> set (wo_calls s)" "is_admin c" and "held s' = held s" "wo_used s' = wo_used s"
    and "wo_registration_in_flight s \<and> c \<noteq> CallRegister \<longrightarrow> wo_registration_needed s'"
    and "wo_calls s' = remove1 c (wo_calls s)" "wo_acquiring s' = (wo_acquiring s \<and> \<not> is_acquire c)"
      "wo_heartbeat_in_flight s' = (wo_heartbeat_in_flight s \<and> \<not> is_heartbeat c)"
      "wo_registration_in_flight s' = (wo_registration_in_flight s \<and> c \<noteq> CallRegister)"
  shows "steady cfg s'"
  using assms(1,4,5)
proof (rule steadyI)
  assume "single_flight (cf_slots cfg - wo_used s) (admin s)"
  then show "single_flight (cf_slots cfg - wo_used s) (admin s')"
    using single_flight_remove[where c = c and needed' = "wo_registration_needed s'" and cs = "filter is_admin (wo_calls s)"] assms
    by (simp add: admin_def filter_remove1)
qed

lemma single_flight_flags:
  assumes "steady cfg s"
  shows "CallAcquire n m e \<in> set (wo_calls s) \<Longrightarrow> wo_acquiring s" "wo_registration_in_flight s \<Longrightarrow> wo_registration_needed s"
proof -
  show "wo_registration_in_flight s \<Longrightarrow> wo_registration_needed s" using assms by (auto simp: steady_def single_flight_def admin_def)
  assume "CallAcquire n m e \<in> set (wo_calls s)"
  then have "CallAcquire n m e \<in> set (filter is_acquire (filter is_admin (wo_calls s)))" by simp
  then have "0 < length (filter is_acquire (filter is_admin (wo_calls s)))" by (rule length_pos_if_in_set)
  then show "wo_acquiring s" using assms by (cases "wo_acquiring s") (auto simp: steady_def single_flight_def admin_def)
qed

definition calm :: "WorkerEnv \<Rightarrow> worker \<Rightarrow> bool" where
  "calm cfg s \<longleftrightarrow> steady cfg s \<and> deferred_ok s"

lemma calm_outer: "outer s' = outer s \<Longrightarrow> calm cfg s' = calm cfg s"
  using steady_outer[of s' s cfg] deferred_outer[of s' s] by (simp add: calm_def)

lemma calm_change: "(\<And>a. as_lease (f a) = as_lease a) \<Longrightarrow> calm cfg (change k f s) = calm cfg s"
  by (rule calm_outer) (simp add: outer_change)

lemma calm_views:
  "calm cfg (executeAttempt l k s) = calm cfg s" "calm cfg (startAttempts cfg' ks s) = calm cfg s"
  "calm cfg (queueCompletion cfg' k s) = calm cfg s" "calm cfg (flushCompletions s) = calm cfg s" "calm cfg (panic s) = calm cfg s"
  "calm cfg (s\<lparr>wo_timer := b\<rparr>) = calm cfg s"
  by (rule calm_outer, simp add: worker_views outer_steps)+

lemma calm_registration: "calm cfg s \<Longrightarrow> calm cfg (startRegistration s)"
  by (simp add: calm_def steady_startRegistration deferred_startRegistration)

lemma calm_acquire: "calm cfg s \<Longrightarrow> calm cfg (startAcquire cfg s)"
  by (simp add: calm_def steady_startAcquire deferred_startAcquire)

lemma calm_heartbeat: "calm cfg s \<Longrightarrow> calm cfg (startHeartbeat order s)"
  by (simp add: calm_def steady_startHeartbeat deferred_ok_def startHeartbeat_simps)

lemma calm_remove: "calm cfg s \<Longrightarrow> calm cfg (removeAttempt k s)"
  by (simp add: calm_def steady_removeAttempt deferred_ok_def removeAttempt_outer)

lemma calm_paused: "calm cfg s \<Longrightarrow> calm cfg (s\<lparr>wo_acquire_paused := b\<rparr>)"
  by (simp add: calm_def steady_flags)

lemmas calm_intros = calm_registration calm_acquire calm_heartbeat calm_remove calm_paused

lemma calm_on_started: "calm cfg s \<Longrightarrow> calm cfg (on_started cfg k err e s)"
  by (auto simp: on_started_def Let_def calm_views calm_change split: option.split intro!: calm_intros)

lemma calm_on_executed: "calm cfg s \<Longrightarrow> calm cfg (on_executed cfg k r s)"
  by (auto simp: on_executed_def calm_views calm_change split: option.split)

lemma calm_complete_one: "calm cfg s \<Longrightarrow> calm cfg (complete_one cfg e k a err s)"
  by (auto simp: complete_one_def Let_def calm_views calm_change split: option.split intro!: calm_intros)

lemma calm_on_completed: "calm cfg s \<Longrightarrow> calm cfg (on_completed cfg ks errs e s)"
proof -
  have "calm cfg s \<Longrightarrow> calm cfg (complete_each cfg e ks errs s)"
    by (induction ks arbitrary: errs s) (auto simp: calm_views split: option.split list.split intro: calm_complete_one)
  then show "calm cfg s \<Longrightarrow> calm cfg (on_completed cfg ks errs e s)" by (simp add: on_completed_def calm_acquire)
qed

lemma calm_fold: "(\<And>x s. calm cfg s \<Longrightarrow> calm cfg (f x s)) \<Longrightarrow> calm cfg s \<Longrightarrow> calm cfg (fold f xs s)"
  by (induction xs arbitrary: s) auto

lemma calm_reject: "calm cfg s \<Longrightarrow> calm cfg (reject_lease result ref s)"
  by (auto simp: reject_lease_def split: option.split intro: calm_remove)

lemma calm_on_heartbeat:
  assumes "calm cfg s" "CallHeartbeat refs e \<in> set (wo_calls s)"
  shows "calm cfg (on_heartbeat cfg it refs response e (finish (CallHeartbeat refs e) s))"
proof -
  let ?s = "(finish (CallHeartbeat refs e) s)\<lparr>wo_heartbeat_in_flight := False\<rparr>"
  have "steady cfg ?s"
    by (rule steady_finish[where c = "CallHeartbeat refs e" and s = s])
      (use assms single_flight_flags(2) in \<open>auto simp: calm_def held_def\<close>)
  then have s: "calm cfg ?s" using assms(1) by (simp add: calm_def deferred_ok_def)
  have "calm cfg (fold (\<lambda>result. if hb_accepted result then id else fold (reject_lease result) refs) results ?s)" for results
    by (rule calm_fold[OF _ s]) (auto intro: calm_fold calm_reject)
  then show ?thesis using s by (auto simp: on_heartbeat_def Let_def split: sum.split intro!: calm_intros)
qed

lemma calm_on_acquired:
  assumes "calm cfg s" "CallAcquire n m e \<in> set (wo_calls s)"
  shows "calm cfg (on_acquired cfg \<lparr>aq_response = response, aq_epoch = e\<rparr> (finish (CallAcquire n m e) s))"
proof -
  let ?s = "(finish (CallAcquire n m e) s)\<lparr>wo_acquiring := False\<rparr>"
  have steady: "steady cfg ?s"
    by (rule steady_finish[where c = "CallAcquire n m e" and s = s])
      (use assms single_flight_flags(2) in \<open>auto simp: calm_def held_def\<close>)
  have s: "deferred_ok ?s" using assms(1) by (simp add: calm_def deferred_ok_def)
  have process: "calm cfg (processAcquired cfg r ?s)" for r
    using steady s by (simp add: calm_def steady_processAcquired deferred_processAcquired)
  show ?thesis
  proof (cases response)
    case (Inr ls)
    have "calm cfg (?s\<lparr>wo_deferred := Some \<lparr>aq_response = response, aq_epoch = e\<rparr>\<rparr>)" if "wo_registration_needed s"
      using that steady by (simp add: calm_def steady_flags deferred_ok_def)
    then show ?thesis using process by (simp add: on_acquired_def Inr Let_def)
  qed (simp add: on_acquired_def process Let_def)
qed

lemma outer_retry_visit: "retry_visit cfg k (ks, s) = (ks', s') \<Longrightarrow> outer s' = outer s"
  by (auto simp: retry_visit_def Let_def worker_views outer_change split: option.split_asm if_split_asm)

lemma outer_retry_fold: "fold (retry_visit cfg) vs (ks, s) = (ks', s') \<Longrightarrow> outer s' = outer s"
proof (induction vs arbitrary: ks s)
  case (Cons v vs)
  obtain ks1 s1 where "retry_visit cfg v (ks, s) = (ks1, s1)" by (cases "retry_visit cfg v (ks, s)")
  then show ?case using Cons outer_retry_visit by fastforce
qed simp

lemma calm_on_registered:
  assumes "calm cfg s" "CallRegister \<in> set (wo_calls s)"
  shows "calm cfg (on_registered cfg it err (finish CallRegister s))"
proof (cases err)
  case (Some x)
  have "steady cfg ((finish CallRegister s)\<lparr>wo_registration_in_flight := False\<rparr>)"
    by (rule steady_finish[where c = CallRegister and s = s]) (use assms in \<open>auto simp: calm_def held_def\<close>)
  then show ?thesis using assms(1) Some by (simp add: on_registered_def Let_def calm_def deferred_ok_def)
next
  case None
  define s1 where "s1 = (finish CallRegister s)\<lparr>wo_registration_in_flight := False, wo_registration_needed := False,
    wo_acquire_paused := False, wo_epoch := wo_epoch s + 1\<rparr>"
  have resumed: "on_registered cfg it err (finish CallRegister s) = resume cfg it s1"
    using None by (simp add: on_registered_def s1_def)
  obtain ks s2 where visit: "fold (retry_visit cfg) (it 0 (map fst (wo_active s1))) ([], s1) = (ks, s2)"
    by (cases "fold (retry_visit cfg) (it 0 (map fst (wo_active s1))) ([], s1)")
  define s3 where "s3 = startHeartbeat (it 1) (startAttempts cfg ks s2)"
  have eq: "on_registered cfg it err (finish CallRegister s) =
      startAcquire cfg (case wo_deferred s3 of None \<Rightarrow> s3 | Some pending \<Rightarrow> processAcquired cfg pending (s3\<lparr>wo_deferred := None\<rparr>))"
    unfolding resumed resume_def visit Let_def s3_def by simp
  have "steady cfg s1"
    by (rule steady_finish[where c = CallRegister and s = s]) (use assms in \<open>auto simp: calm_def held_def s1_def\<close>)
  moreover have same: "outer (startAttempts cfg ks s2) = outer s1" using outer_retry_fold[OF visit] outer_startAttempts by metis
  ultimately have s3: "steady cfg s3" using steady_outer[OF same] by (simp add: s3_def steady_startHeartbeat)
  have fields: "wo_deferred s3 = wo_deferred s" "wo_acquiring s3 = wo_acquiring s"
    using outer_eqD[OF same] by (simp_all add: s3_def startHeartbeat_simps s1_def)
  show ?thesis
  proof (cases "wo_deferred s3")
    case None
    then have "calm cfg s3" using s3 by (simp add: calm_def deferred_ok_def)
    then show ?thesis unfolding eq using None by (simp add: calm_acquire)
  next
    case (Some p)
    then have quiet: "\<not> wo_acquiring s3" using assms(1) fields by (simp add: calm_def deferred_ok_def)
    have "deferred_ok (s3\<lparr>wo_deferred := None\<rparr>)" by (simp add: deferred_ok_def)
    then have "calm cfg (processAcquired cfg p (s3\<lparr>wo_deferred := None\<rparr>))"
      using s3 quiet by (simp add: calm_def steady_processAcquired deferred_processAcquired steady_flags)
    then show ?thesis unfolding eq using Some by (simp add: calm_acquire)
  qed
qed

lemma calm_wstep: "wstep cfg f s s' \<Longrightarrow> calm cfg s \<Longrightarrow> calm cfg s'"
proof (induction rule: wstep.induct)
  case (tick it s)
  then show ?case by (auto simp: on_tick_def intro!: calm_intros)
qed (simp_all add: calm_on_acquired calm_on_started calm_on_executed calm_on_completed calm_on_heartbeat calm_on_registered on_timer_def
  calm_views calm_outer[OF outer_finish] calm_outer[OF outer_continue])

lemma calm_runs:
  assumes "runs cfg f s" "valid_env cfg"
  shows "calm cfg s"
proof -
  have start: "calm cfg (run_start cfg w)" for w
    unfolding run_start_def using valid_envD(1)[OF assms(2)]
    by (intro calm_acquire) (auto simp: calm_def steady_def capacity_def single_flight_def deferred_ok_def admin_def held_def initial_worker_def)
  obtain w where "(wstep cfg f)\<^sup>*\<^sup>* (run_start cfg w) s" using assms(1) by (auto simp: runs_def)
  then show ?thesis by induction (simp_all add: start calm_wstep)
qed

section \<open>Properties\<close>

text \<open>C23: Whatever its server answers, in whatever order, a worker never holds more slots than it has: it counts the slot costs of the
  leases it is working on, never works on two leases of a job, has at most one request for leases, one heartbeat and one registration
  under way, and never asks for more slots than are free when the answer arrives.\<close>

theorem worker_within_capacity:
  assumes "runs cfg fresh s" and "valid_env cfg"
  shows "wo_used s = sum_list (map (\<lambda>(k, a). l_slot_cost (as_lease a)) (wo_active s)) \<and> wo_used s \<le> cf_slots cfg \<and>
    distinct (map (\<lambda>(k, a). l_job_id (as_lease a)) (wo_active s)) \<and>
    length (filter is_acquire (wo_calls s)) \<le> 1 \<and> length (filter is_heartbeat (wo_calls s)) \<le> 1 \<and> count_list (wo_calls s) CallRegister \<le> 1 \<and>
    (\<forall>n m e. CallAcquire n m e \<in> set (wo_calls s) \<longrightarrow> 1 \<le> n \<and> n \<le> cf_slots cfg - wo_used s)"
proof -
  have calm: "capacity cfg s" "single_flight (cf_slots cfg - wo_used s) (admin s)"
    using calm_runs[OF assms] by (simp_all add: calm_def steady_def)
  have views: "map (l_slot_cost \<circ> snd) (held s) = map (\<lambda>(k, a). l_slot_cost (as_lease a)) (wo_active s)"
    "map (l_job_id \<circ> snd) (held s) = map (\<lambda>(k, a). l_job_id (as_lease a)) (wo_active s)"
    by (auto simp: held_def)
  have "filter is_acquire (filter is_admin cs) = filter is_acquire cs" "filter is_heartbeat (filter is_admin cs) = filter is_heartbeat cs"
    "count_list (filter is_admin cs) CallRegister = count_list cs CallRegister" for cs
    by (induction cs; auto elim: is_acquire.elims is_heartbeat.elims)+
  then have "length (filter is_acquire (wo_calls s)) = of_bool (wo_acquiring s)" "length (filter is_heartbeat (wo_calls s)) = of_bool (wo_heartbeat_in_flight s)"
    "count_list (wo_calls s) CallRegister = of_bool (wo_registration_in_flight s)"
    using calm(2) by (simp_all add: single_flight_def admin_def)
  moreover have "1 \<le> n \<and> n \<le> cf_slots cfg - wo_used s" if "CallAcquire n m e \<in> set (wo_calls s)" for n m e
    using calm(2) that by (force simp: single_flight_def admin_def list_all_iff)
  ultimately show ?thesis using calm(1) by (simp add: capacity_def views)
qed

definition demo_config :: WorkerEnv where
  "demo_config = \<lparr>cf_worker_id = ''w'', cf_slots = 2, cf_lease_batch = 2, cf_heartbeat_interval = 0, cf_shutdown_timeout = 1,
     cf_max_completion_attempts = 3, cf_attempt_start_batch_size = 64, cf_completion_batch_size = 64, cf_completion_batch_wait = 5,
     we_batch_starts = True, we_batch_completions = True\<rparr>"

definition demo_lease :: Lease where
  "demo_lease = \<lparr>l_job_id = ''a'', l_attempt_no = 1, l_generation = 1, l_token = ''t'', l_worker_id = ''w'', l_expires_at = 9,
     l_ready_at = 1, l_idempotency_key = ''a'', l_slot_cost = 1, l_payload = \<lparr>p_type = PayloadNoop, p_duration_ms = 0, p_args = []\<rparr>\<rparr>"

definition demo_worker :: worker where
  "demo_worker = on_acquired demo_config \<lparr>aq_response = Inr [demo_lease], aq_epoch = 0\<rparr> (finish (CallAcquire 2 2 0) (run_start demo_config ''''))"

lemma demo_config_valid: "valid_env demo_config"
proof -
  have "Config_normalize (Config.truncate demo_config) = Inr (Config.truncate demo_config)" by code_simp
  then show ?thesis by (auto simp: valid_env_def)
qed

lemma demo_worker_runs: "runs demo_config fresh demo_worker"
proof -
  have "CallAcquire 2 2 0 \<in> set (wo_calls (run_start demo_config ''''))" "fresh_leases (run_start demo_config '''') (Inr [demo_lease])" by code_simp+
  then have "wstep demo_config fresh (run_start demo_config '''') demo_worker" unfolding demo_worker_def by (intro wstep.acquired) auto
  then show ?thesis by (auto simp: runs_def)
qed

theorem worker_within_capacity_witness:
  "wo_used demo_worker = 1 \<and> CallAcquire 1 2 0 \<in> set (wo_calls demo_worker) \<and> (1 :: int) \<le> cf_slots demo_config - wo_used demo_worker"
proof -
  have "CallAcquire 1 2 0 \<in> set (wo_calls demo_worker)" "wo_used demo_worker = 1" by code_simp+
  then show ?thesis using worker_within_capacity[OF demo_worker_runs demo_config_valid] by blast
qed

end
