(* ===== verification/Worker_Attempts.thy ===== *)
theory Worker_Attempts
  imports Worker_Invariants
begin

text \<open>
  What happens to the attempts of a worker. Every closure of the event loop moves the cells of the attempts it works on from one
  consistent form to the next; an attempt on which a closure is working is loose, all others are tracked.
\<close>

section \<open>Lemmas\<close>

definition fine :: "int \<Rightarrow> attemptKey set \<Rightarrow> worker \<Rightarrow> bool" where
  "fine n K s \<longleftrightarrow> live n K s \<and> sound s"

lemma live_cong: "cell s' = cell s \<Longrightarrow> live n K s' = live n K s"
  by (simp add: live_def)

lemma liveI_one:
  assumes "live n K s" and "\<And>j. j \<noteq> k \<Longrightarrow> cell s' j = cell s j" and "\<And>j. j \<noteq> k \<Longrightarrow> (j \<in> K') = (j \<in> K)"
    and "cell_ok n (k \<in> K') (cell s' k)"
  shows "live n K' s'"
  unfolding live_def
proof
  fix j
  show "cell_ok n (j \<in> K') (cell s' j)"
  proof (cases "j = k")
    case False
    then show ?thesis using assms(1) assms(2)[OF False] assms(3)[OF False] by (simp add: live_def)
  qed (use assms(4) in simp)
qed

lemma attempt_spawn [simp]: "attempt (spawn c s) = attempt s"
  by (rule attempt_cong) simp

lemma cell_spawn:
  "cell (spawn c s) j = (was_started s j \<or> 0 < count_list (start_keys c) j, executions s j + count_list (exec_keys c) j,
     (mentions start_keys (wo_calls s) j + count_list (start_keys c) j, mentions exec_keys (wo_calls s) j + count_list (exec_keys c) j,
      mentions complete_keys (wo_calls s) j + count_list (complete_keys c) j, count_list (wo_pending s) j), attempt s j)"
  by (auto simp: cell_def was_started_def executions_def load_def)

lemma cell_admin: "is_admin c \<Longrightarrow> cell (spawn c s) = cell s"
  by (rule ext, cases c) (auto simp: cell_def load_def was_started_def executions_def)

lemma cell_change: "cell (change k f s) j = (if j = k then (was_started s k, executions s k, load s k, map_option f (attempt s k)) else cell s j)"
  by (simp add: cell_def was_started_def executions_def load_def)

lemma cell_fields [simp]:
  "cell (s\<lparr>wo_acquiring := b\<rparr>) = cell s" "cell (s\<lparr>wo_acquire_paused := b\<rparr>) = cell s" "cell (s\<lparr>wo_heartbeat_in_flight := b\<rparr>) = cell s"
  "cell (s\<lparr>wo_registration_needed := b\<rparr>) = cell s" "cell (s\<lparr>wo_registration_in_flight := b\<rparr>) = cell s"
  "cell (s\<lparr>wo_epoch := e\<rparr>) = cell s" "cell (s\<lparr>wo_deferred := d\<rparr>) = cell s" "cell (s\<lparr>wo_timer := b\<rparr>) = cell s"
  by (rule ext, simp add: cell_def was_started_def executions_def load_def attempt_def)+

lemma cell_admins [simp]:
  "cell (startRegistration s) = cell s" "cell (startAcquire cfg s) = cell s" "cell (startHeartbeat order s) = cell s"
  by (simp_all add: startRegistration_def startAcquire_def startHeartbeat_def Let_def cell_admin)

lemma sound_fields [simp]:
  "sound (s\<lparr>wo_acquiring := b\<rparr>) = sound s" "sound (s\<lparr>wo_acquire_paused := b\<rparr>) = sound s" "sound (s\<lparr>wo_heartbeat_in_flight := b\<rparr>) = sound s"
  "sound (s\<lparr>wo_registration_needed := b\<rparr>) = sound s" "sound (s\<lparr>wo_registration_in_flight := b\<rparr>) = sound s"
  "sound (s\<lparr>wo_epoch := e\<rparr>) = sound s" "sound (s\<lparr>wo_deferred := d\<rparr>) = sound s"
  by (simp_all add: sound_def)

lemma sound_change [simp]: "sound (change k f s) = sound s"
  by (simp add: sound_def)

lemma sound_spawn [simp]: "sound (spawn c s) \<longleftrightarrow> sound s \<and> aligned c"
  by (auto simp: sound_def)

lemma sound_admins [simp]:
  "sound (startRegistration s) = sound s" "sound (startAcquire cfg s) = sound s" "sound (startHeartbeat order s) = sound s"
  by (auto simp: startRegistration_def startAcquire_def startHeartbeat_def Let_def)

lemma fine_fields [simp]:
  "fine n K (s\<lparr>wo_acquiring := b\<rparr>) = fine n K s" "fine n K (s\<lparr>wo_acquire_paused := b\<rparr>) = fine n K s"
  "fine n K (s\<lparr>wo_heartbeat_in_flight := b\<rparr>) = fine n K s" "fine n K (s\<lparr>wo_registration_needed := b\<rparr>) = fine n K s"
  "fine n K (s\<lparr>wo_registration_in_flight := b\<rparr>) = fine n K s" "fine n K (s\<lparr>wo_epoch := e\<rparr>) = fine n K s"
  "fine n K (s\<lparr>wo_deferred := d\<rparr>) = fine n K s"
  by (simp_all add: fine_def live_def)

lemma fine_admins [simp]:
  "fine n K (startRegistration s) = fine n K s" "fine n K (startAcquire cfg s) = fine n K s" "fine n K (startHeartbeat order s) = fine n K s"
  by (simp_all add: fine_def live_def)

lemma attempt_admins [simp]:
  "attempt (startRegistration s) = attempt s" "attempt (startAcquire cfg s) = attempt s" "attempt (startHeartbeat order s) = attempt s"
  by (rule attempt_cong, simp add: startRegistration_def startAcquire_def startHeartbeat_def Let_def)+

lemma live_cell: "live n K s \<Longrightarrow> cell_ok n (k \<in> K) (was_started s k, executions s k, load s k, attempt s k)"
  by (simp add: live_def cell_def)

lemma live_loose: "live n K s \<Longrightarrow> k \<in> K \<Longrightarrow> attempt s k = Some a \<Longrightarrow> bounded n a \<and> idle (load s k) a"
  using live_cell[of n K s k] by simp

lemma live_tracked: "live n K s \<Longrightarrow> k \<notin> K \<Longrightarrow> attempt s k = Some a \<Longrightarrow> bounded n a \<and> was_started s k \<and> tracked (load s k) a"
  using live_cell[of n K s k] by simp

subsection \<open>Removing, starting and executing\<close>

lemma attempt_remove: "attempt (removeAttempt k s) = (attempt s)(k := None)"
proof -
  have "map_of (filter (\<lambda>(k', a). k' \<noteq> k) xs) j = (if j = k then None else map_of xs j)" for xs :: "(attemptKey \<times> attemptState) list" and j
    by (induction xs) auto
  then show ?thesis by (auto simp: removeAttempt_def attempt_def fun_eq_iff split: option.split)
qed

lemma cell_remove: "cell (removeAttempt k s) j = (if j = k then (was_started s k, executions s k, load s k, None) else cell s j)"
proof -
  have "wo_calls (removeAttempt k s) = wo_calls s" "wo_started (removeAttempt k s) = wo_started s" "wo_pending (removeAttempt k s) = wo_pending s"
    by (simp_all add: removeAttempt_def split: option.split)
  then show ?thesis by (simp add: cell_def was_started_def executions_def load_def attempt_remove)
qed

lemma sound_remove [simp]: "sound (removeAttempt k s) = sound s"
  by (simp add: removeAttempt_def sound_def split: option.split)

lemma fine_remove:
  assumes "fine n (insert k K) s"
  shows "fine n (K - {k}) (removeAttempt k s)"
  unfolding fine_def
proof
  have "live n (insert k K) s" using assms by (simp add: fine_def)
  then show "live n (K - {k}) (removeAttempt k s)"
    by (rule liveI_one[where k = k]) (use live_cell[OF \<open>live n (insert k K) s\<close>, of k] in \<open>auto simp: cell_remove\<close>)
qed (use assms in \<open>simp add: fine_def\<close>)

lemma fine_remove_tracked:
  assumes "fine n K s" "k \<notin> K"
  shows "fine n K (removeAttempt k s)"
  unfolding fine_def
proof
  have "live n K s" using assms by (simp add: fine_def)
  then show "live n K (removeAttempt k s)"
    by (rule liveI_one[where k = k]) (use live_cell[OF \<open>live n K s\<close>, of k] in \<open>auto simp: cell_remove\<close>)
qed (use assms in \<open>simp add: fine_def\<close>)

text \<open>An attempt on which nothing happens gets its next step.\<close>

lemma fine_step:
  assumes "fine n (insert k K) s" "k \<notin> K" and "attempt s k = Some a" and "\<And>j. j \<noteq> k \<Longrightarrow> cell s' j = cell s j"
    and "cell_ok n False (cell s' k)" and "sound s \<Longrightarrow> sound s'"
  shows "fine n K s'"
  using assms unfolding fine_def by (auto intro: liveI_one[where k = k and K = "insert k K" and s = s])

lemma fine_execute:
  assumes "fine n (insert k K) s" "k \<notin> K" "attempt s k = Some a" "as_phase a = PhaseStarting" "was_started s k"
    and "f a = a\<lparr>as_phase := PhaseExecuting\<rparr>"
  shows "fine n K (executeAttempt l k (change k f s))"
proof (rule fine_step[OF assms(1-3)])
  note loose = live_loose[of n "insert k K" s k a] and now = live_cell[of n "insert k K" s k]
  show "cell (executeAttempt l k (change k f s)) j = cell s j" if "j \<noteq> k" for j
    using that by (simp add: executeAttempt_def cell_spawn cell_def was_started_def executions_def load_def)
  show "cell_ok n False (cell (executeAttempt l k (change k f s)) k)"
    using loose now assms
    by (simp add: executeAttempt_def cell_spawn fine_def was_started_def executions_def load_def idle_def bounded_def tracked_def flags_of_def)
qed (simp add: executeAttempt_def)

lemma fine_flag:
  assumes "fine n (insert k K) s" "k \<notin> K" "attempt s k = Some a" "was_started s k" "tracked (0, 0, 0, 0) (f a)"
    and "bounded n (f a)" "as_phase (f a) = as_phase a"
  shows "fine n K (change k f s)"
proof (rule fine_step[OF assms(1-3)])
  note loose = live_loose[of n "insert k K" s k a] and now = live_cell[of n "insert k K" s k]
  show "cell (change k f s) j = cell s j" if "j \<noteq> k" for j using that by (simp add: cell_change)
  show "cell_ok n False (cell (change k f s) k)"
    using loose now assms by (simp add: cell_change fine_def idle_def)
qed simp

subsection \<open>Completions\<close>

definition ready :: "worker \<Rightarrow> attemptKey \<Rightarrow> bool" where
  "ready s k \<longleftrightarrow> (\<exists>a. attempt s k = Some a \<and> as_phase a = PhaseReadyToComplete)"

definition prepared :: "worker \<Rightarrow> bool" where
  "prepared s \<longleftrightarrow> list_all aligned (wo_calls s) \<and> \<not> wo_panicked s"

lemma flush_fold:
  assumes "fold flush_one ps (ks, cs, s) = (ks', cs', s')"
  shows "attempt s' = (\<lambda>k. if k \<in> set ps \<and> ready s k then map_option completing (attempt s k) else attempt s k) \<and>
    (\<forall>k. count_list ks' k = count_list ks k + (if k \<in> set ps \<and> ready s k then 1 else 0)) \<and> length cs' + length ks = length cs + length ks' \<and>
    wo_calls s' = wo_calls s \<and> wo_started s' = wo_started s \<and> wo_panicked s' = wo_panicked s \<and> wo_timer s' = wo_timer s"
  using assms
proof (induction ps arbitrary: ks cs s)
  case (Cons p ps)
  show ?case
  proof (cases "ready s p")
    case False
    then have "flush_one p (ks, cs, s) = (ks, cs, s)"
      by (auto simp: flush_one_def ready_def attempt_def[symmetric] split: option.split)
    then show ?thesis using Cons False by auto
  next
    case True
    then obtain a where a: "attempt s p = Some a" "as_phase a = PhaseReadyToComplete" by (auto simp: ready_def)
    let ?s = "change p completing s"
    have "flush_one p (ks, cs, s) = (ks @ [p], cs @ [completionFor (wo_id s) (as_lease a) (result_of a)], ?s)"
      using a by (simp add: flush_one_def attempt_def[symmetric])
    moreover have "ready ?s k = (k \<noteq> p \<and> ready s k)" for k using a by (auto simp: ready_def completing_def)
    ultimately have rest: "fold flush_one ps (ks @ [p], cs @ [completionFor (wo_id s) (as_lease a) (result_of a)], ?s) = (ks', cs', s')"
      and ready': "\<And>k. ready ?s k = (k \<noteq> p \<and> ready s k)" using Cons.prems by simp_all
    show ?thesis using Cons.IH[OF rest] True a by (auto simp: ready' fun_eq_iff)
  qed
qed simp

lemma cell_flush:
  "cell (flushCompletions s) k = (let r = (k \<in> set (wo_pending s) \<and> ready s k) in
     (was_started s k, executions s k, (mentions start_keys (wo_calls s) k, mentions exec_keys (wo_calls s) k,
        mentions complete_keys (wo_calls s) k + (if r then 1 else 0), 0), if r then map_option completing (attempt s k) else attempt s k))"
proof -
  let ?s = "s\<lparr>wo_timer := False\<rparr>"
  obtain ks cs s1 where f: "fold flush_one (wo_pending s) ([], [], ?s) = (ks, cs, s1)"
    by (cases "fold flush_one (wo_pending s) ([], [], ?s)")
  have same: "attempt ?s = attempt s" "ready ?s = ready s" by (auto simp: attempt_def ready_def fun_eq_iff)
  note eff = flush_fold[OF f, unfolded same]
  then have count: "count_list ks k = (if k \<in> set (wo_pending s) \<and> ready s k then 1 else 0)" by simp
  show ?thesis
  proof (cases "wo_pending s = []")
    case True
    then show ?thesis by (simp add: flushCompletions_def cell_def load_def)
  next
    case False
    have "flushCompletions s = (if ks = [] then s1\<lparr>wo_pending := []\<rparr> else spawn (CallCompleteBatch ks cs (wo_epoch s1)) (s1\<lparr>wo_pending := []\<rparr>))"
      using False f by (simp add: flushCompletions_def Let_def)
    moreover have "attempt (s1\<lparr>wo_pending := []\<rparr>) = attempt s1" by (simp add: attempt_def fun_eq_iff)
    ultimately show ?thesis
      using eff count by (cases "ks = []") (simp_all add: Let_def cell_def load_def was_started_def executions_def split: if_split_asm)
  qed
qed

lemma distinct_count_list: "(\<And>x. count_list xs x \<le> 1) \<Longrightarrow> distinct xs"
proof (induction xs)
  case (Cons y ys)
  have "count_list ys x \<le> 1" for x using Cons.prems[of x] by (auto split: if_split_asm)
  moreover have "count_list ys y = 0" using Cons.prems[of y] by simp
  ultimately show ?case using Cons.IH by (simp add: count_list_0_iff)
qed simp

lemma flush_sound:
  assumes "prepared s"
  shows "sound (flushCompletions s)"
proof -
  let ?s = "s\<lparr>wo_timer := False\<rparr>"
  obtain ks cs s1 where f: "fold flush_one (wo_pending s) ([], [], ?s) = (ks, cs, s1)"
    by (cases "fold flush_one (wo_pending s) ([], [], ?s)")
  note eff = flush_fold[OF f]
  have "distinct ks" by (rule distinct_count_list) (use eff in simp)
  then show ?thesis
    using assms f eff by (simp add: flushCompletions_def Let_def sound_def prepared_def)
qed

lemma flush_fine:
  assumes "live n K s" "prepared s"
  shows "fine n K (flushCompletions s) \<and> (\<forall>j \<in> K. attempt (flushCompletions s) j = attempt s j)"
proof -
  have pending: "k \<notin> set (wo_pending s)" if "attempt s k = Some a" "k \<in> K" for k a
    using live_loose[OF assms(1) that(2,1)] by (simp add: idle_def load_def count_list_0_iff)
  have "cell_ok n (k \<in> K) (cell (flushCompletions s) k)" for k
  proof (cases "attempt s k")
    case None
    then show ?thesis using live_cell[OF assms(1), of k] by (auto simp: cell_flush Let_def ready_def load_def)
  next
    case (Some a)
    then show ?thesis
      using live_cell[OF assms(1), of k] pending[OF Some]
      by (auto simp: cell_flush Let_def ready_def load_def idle_def tracked_def bounded_def completing_def flags_of_def count_list_0_iff
        split: attemptPhase.splits)
  qed
  moreover have "attempt (flushCompletions s) j = attempt s j" if "j \<in> K" for j
    using cell_flush[of s j] pending[OF _ that] by (auto simp: cell_def Let_def ready_def split: if_split_asm)
  ultimately show ?thesis using flush_sound[OF assms(2)] by (simp add: fine_def live_def)
qed

lemma fine_startCompletion:
  assumes "fine n (insert k K) s" "k \<notin> K" "attempt s k = Some a" "as_phase a = PhaseReadyToComplete"
  shows "fine n K (startCompletion k s) \<and> (\<forall>j. j \<noteq> k \<longrightarrow> attempt (startCompletion k s) j = attempt s j)"
proof -
  let ?c = "CallComplete k (completionFor (wo_id s) (as_lease a) (result_of a)) (wo_epoch s)"
  have eq: "startCompletion k s = spawn ?c (change k completing s)" using assms(3) by (simp add: startCompletion_def attempt_def)
  have "fine n K (startCompletion k s)"
  proof (rule fine_step[OF assms(1-3)])
    note loose = live_loose[of n "insert k K" s k a] and now = live_cell[of n "insert k K" s k]
    show "cell (startCompletion k s) j = cell s j" if "j \<noteq> k" for j
      using that by (simp add: eq cell_spawn cell_def was_started_def executions_def load_def)
    show "cell_ok n False (cell (startCompletion k s) k)"
      using loose now assms
      by (auto simp: eq cell_spawn fine_def was_started_def executions_def load_def idle_def bounded_def tracked_def flags_of_def completing_def)
  qed (simp add: eq)
  then show ?thesis by (simp add: eq)
qed

lemma fine_queueCompletion:
  assumes "fine n (insert k K) s" "k \<notin> K" "attempt s k = Some a" "as_phase a = PhaseReadyToComplete"
  shows "fine n K (queueCompletion cfg k s) \<and> (\<forall>j \<in> K. attempt (queueCompletion cfg k s) j = attempt s j)"
proof (cases "we_batch_completions cfg")
  case False
  then show ?thesis using fine_startCompletion[OF assms] assms(2) by (auto simp: queueCompletion_def)
next
  case True
  let ?s = "s\<lparr>wo_pending := wo_pending s @ [k]\<rparr>"
  have same: "attempt ?s = attempt s" "attempt (?s\<lparr>wo_timer := True\<rparr>) = attempt s" by (rule attempt_cong, simp)+
  have "live n (insert k K) s" "prepared ?s" using assms(1) by (simp_all add: fine_def sound_def prepared_def)
  note loose = live_loose[OF this(1), of k a] and now = live_cell[OF this(1), of k]
  have live: "live n K ?s"
    by (rule liveI_one[OF \<open>live n (insert k K) s\<close>, where k = k])
      (use assms loose now in \<open>auto simp: cell_def was_started_def executions_def load_def same idle_def tracked_def\<close>)
  have "sound (?s\<lparr>wo_timer := True\<rparr>)" using assms(1) by (simp add: fine_def sound_def)
  then have "fine n K (?s\<lparr>wo_timer := True\<rparr>)" using live by (simp add: fine_def live_def)
  then show ?thesis
    using True flush_fine[OF live \<open>prepared ?s\<close>] by (simp add: queueCompletion_def Let_def same)
qed

subsection \<open>Starts\<close>

definition startable :: "worker \<Rightarrow> attemptKey list \<Rightarrow> bool" where
  "startable s ks \<longleftrightarrow> distinct ks \<and> (\<forall>k \<in> set ks. \<exists>a. attempt s k = Some a \<and> as_phase a = PhaseStarting)"

lemma change_fold:
  assumes "distinct ks"
  shows "attempt (fold (\<lambda>k. change k f) ks s) j = (if j \<in> set ks then map_option f (attempt s j) else attempt s j) \<and>
    wo_calls (fold (\<lambda>k. change k f) ks s) = wo_calls s \<and> wo_started (fold (\<lambda>k. change k f) ks s) = wo_started s \<and>
    wo_pending (fold (\<lambda>k. change k f) ks s) = wo_pending s \<and> sound (fold (\<lambda>k. change k f) ks s) = sound s"
  using assms by (induction ks arbitrary: s) auto

lemma count_list_distinct: "distinct xs \<Longrightarrow> count_list xs x = (if x \<in> set xs then 1 else 0)"
  by (induction xs) auto

lemma fine_startAttempt:
  assumes "fine n (insert k K) s" "k \<notin> K" "startable s [k]"
  shows "fine n K (startAttempt k s) \<and> (\<forall>j. j \<noteq> k \<longrightarrow> attempt (startAttempt k s) j = attempt s j)"
proof -
  obtain a where a: "attempt s k = Some a" "as_phase a = PhaseStarting" using assms(3) by (auto simp: startable_def)
  have eq: "startAttempt k s = spawn (CallStart k (leaseRef (as_lease a)) (wo_epoch s)) (change k (\<lambda>a. a\<lparr>as_start_in_flight := True\<rparr>) s)"
    using a(1) by (simp add: startAttempt_def attempt_def)
  have "fine n K (startAttempt k s)"
  proof (rule fine_step[OF assms(1,2) a(1)])
    note loose = live_loose[of n "insert k K" s k a] and now = live_cell[of n "insert k K" s k]
    show "cell (startAttempt k s) j = cell s j" if "j \<noteq> k" for j
      using that by (simp add: eq cell_spawn cell_def was_started_def executions_def load_def)
    show "cell_ok n False (cell (startAttempt k s) k)"
      using loose now assms a
      by (auto simp: eq cell_spawn fine_def was_started_def executions_def load_def idle_def bounded_def tracked_def flags_of_def)
  qed (simp add: eq)
  then show ?thesis by (simp add: eq)
qed

lemma fine_startAttempt_fold:
  assumes "fine n (set ks \<union> K) s" "set ks \<inter> K = {}" "startable s ks"
  shows "fine n K (fold startAttempt ks s) \<and> (\<forall>j. j \<notin> set ks \<longrightarrow> attempt (fold startAttempt ks s) j = attempt s j)"
  using assms
proof (induction ks arbitrary: s)
  case (Cons k ks)
  have "fine n (insert k (set ks \<union> K)) s" "k \<notin> set ks \<union> K" "startable s [k]" using Cons.prems by (auto simp: startable_def)
  note one = fine_startAttempt[OF this]
  then have "startable (startAttempt k s) ks" using Cons.prems(3) by (auto simp: startable_def)
  then show ?case using Cons.IH[of "startAttempt k s"] one Cons.prems(2) by auto
qed simp

lemma fine_startAttemptBatch:
  assumes "fine n (set ks \<union> K) s" "set ks \<inter> K = {}" "startable s ks" "length refs = length ks"
  shows "fine n K (startAttemptBatch ks refs s) \<and> (\<forall>j. j \<notin> set ks \<longrightarrow> attempt (startAttemptBatch ks refs s) j = attempt s j)"
proof -
  have d: "distinct ks" using assms(3) by (simp add: startable_def)
  let ?s = "fold (\<lambda>key. change key (\<lambda>a. a\<lparr>as_start_in_flight := True\<rparr>)) ks s"
  note f = change_fold[OF d, of "\<lambda>a. a\<lparr>as_start_in_flight := True\<rparr>" s]
  have live: "live n (set ks \<union> K) s" using assms(1) by (simp add: fine_def)
  have "cell_ok n (j \<in> K) (cell (startAttemptBatch ks refs s) j)" for j
  proof (cases "j \<in> set ks")
    case True
    then obtain a where a: "attempt s j = Some a" "as_phase a = PhaseStarting" "j \<notin> K" using assms(2,3) by (auto simp: startable_def)
    then show ?thesis
      using live_loose[OF live, of j a] live_cell[OF live, of j] True f[of j]
      by (auto simp: startAttemptBatch_def cell_spawn was_started_def executions_def load_def idle_def bounded_def tracked_def flags_of_def
        count_list_distinct[OF d])
  next
    case False
    then show ?thesis
      using live_cell[OF live, of j] f[of j] by (simp add: startAttemptBatch_def cell_spawn was_started_def executions_def load_def)
  qed
  moreover have "sound (startAttemptBatch ks refs s)" using assms(1,4) f by (simp add: startAttemptBatch_def fine_def)
  ultimately show ?thesis using f by (simp add: fine_def live_def startAttemptBatch_def)
qed

lemma fine_start_chunk:
  assumes "fine n (set ks \<union> K) s" "set ks \<inter> K = {}" "startable s ks"
  shows "fine n K (start_chunk cfg ks s) \<and> (\<forall>j. j \<notin> set ks \<longrightarrow> attempt (start_chunk cfg ks s) j = attempt s j)"
proof -
  have "\<not> list_ex (\<lambda>key. map_of (wo_active s) key = None) ks"
    using assms(3) by (auto simp: list_ex_iff startable_def attempt_def)
  then show ?thesis
    using fine_startAttempt_fold[OF assms] fine_startAttemptBatch[OF assms, of "map (\<lambda>key. leaseRef (as_lease (the (map_of (wo_active s) key)))) ks"]
    by (simp add: start_chunk_def)
qed

lemma fine_chunks:
  assumes "fine n (set (concat bs) \<union> K) s" "set (concat bs) \<inter> K = {}" "startable s (concat bs)"
  shows "fine n K (fold (start_chunk cfg) bs s) \<and> (\<forall>j. j \<notin> set (concat bs) \<longrightarrow> attempt (fold (start_chunk cfg) bs s) j = attempt s j)"
  using assms
proof (induction bs arbitrary: s)
  case (Cons b bs)
  have "fine n (set b \<union> (set (concat bs) \<union> K)) s" "set b \<inter> (set (concat bs) \<union> K) = {}" "startable s b"
    using Cons.prems by (auto simp: startable_def Un_assoc)
  note one = fine_start_chunk[OF this, of cfg]
  then have "startable (start_chunk cfg b s) (concat bs)" using Cons.prems(3) by (fastforce simp: startable_def)
  moreover have "set (concat bs) \<inter> K = {}" using Cons.prems(2) by auto
  ultimately show ?case using Cons.IH[of "start_chunk cfg b s"] one by simp
qed simp

lemma concat_batches: "0 < n \<Longrightarrow> concat (batches n xs) = xs"
  by (induction n xs rule: batches.induct) (subst batches.simps, simp)

lemma fine_startAttempts:
  assumes "fine n (set ks \<union> K) s" "set ks \<inter> K = {}" "startable s ks" "1 \<le> cf_attempt_start_batch_size cfg"
  shows "fine n K (startAttempts cfg ks s) \<and> (\<forall>j. j \<notin> set ks \<longrightarrow> attempt (startAttempts cfg ks s) j = attempt s j)"
  using fine_chunks[of n "batches (nat (cf_attempt_start_batch_size cfg)) ks" K s cfg] assms
  by (simp add: startAttempts_def concat_batches del: set_concat)

subsection \<open>Finished calls\<close>

lemma cell_finish:
  assumes "c \<in> set (wo_calls s)"
  shows "load s j = (count_list (start_keys c) j + mentions start_keys (wo_calls (finish c s)) j,
      count_list (exec_keys c) j + mentions exec_keys (wo_calls (finish c s)) j,
      count_list (complete_keys c) j + mentions complete_keys (wo_calls (finish c s)) j, count_list (wo_pending s) j)"
    and "attempt (finish c s) = attempt s" and "was_started (finish c s) = was_started s" and "executions (finish c s) = executions s"
  using mentions_remove1[OF assms] by (simp_all add: finish_def load_def attempt_def was_started_def executions_def fun_eq_iff)

lemma sound_finish: "sound s \<Longrightarrow> sound (finish c s)"
  using set_remove1_subset[of c "wo_calls s"] by (auto simp: sound_def finish_def list_all_iff)

text \<open>A call for the attempts of \<open>K\<close> has ended; \<open>d\<close> is its share of their load.\<close>

fun add_load :: "load \<Rightarrow> load \<Rightarrow> load" where
  "add_load (a, b, c, d) (a', b', c', d') = (a + a', b + b', c + c', d + d')"

definition released :: "load \<Rightarrow> attemptKey set \<Rightarrow> worker \<Rightarrow> worker \<Rightarrow> bool" where
  "released d K s0 s \<longleftrightarrow> sound s \<and> attempt s = attempt s0 \<and> was_started s = was_started s0 \<and> executions s = executions s0 \<and>
     (\<forall>k. load s0 k = (if k \<in> K then add_load d (load s k) else load s k))"

lemma released_live:
  assumes "fine n {} s0" "released d K s0 s"
  shows "cell_ok n loose (was_started s k, executions s k, load s k, None)"
    and "k \<notin> K \<Longrightarrow> cell_ok n False (cell s k)"
proof -
  have none: "add_load d l = (0, 0, 0, 0) \<Longrightarrow> l = (0, 0, 0, 0)" for l by (cases d; cases l) auto
  have same: "attempt s = attempt s0" "was_started s = was_started s0" "executions s = executions s0" using assms(2) by (simp_all add: released_def)
  have ok: "cell_ok n False (was_started s k, executions s k, load s0 k, attempt s k)"
    using live_cell[of n "{}" s0 k] assms(1) by (simp add: fine_def same del: cell_ok.simps)
  have load: "load s0 k = (if k \<in> K then add_load d (load s k) else load s k)" using assms(2) by (simp add: released_def)
  then show "k \<notin> K \<Longrightarrow> cell_ok n False (cell s k)" using ok by (simp add: cell_def)
  show "cell_ok n loose (was_started s k, executions s k, load s k, None)" using ok load none[of "load s k"] by (auto split: if_splits)
qed

lemma released_start:
  assumes "fine n {} s0" "released (1, 0, 0, 0) {k} s0 s"
  shows "attempt s k = None \<Longrightarrow> fine n {} s"
    and "attempt s k = Some a \<Longrightarrow> as_phase a = PhaseStarting \<and> was_started s k \<and> fine n {k} (change k (\<lambda>a. a\<lparr>as_start_in_flight := False\<rparr>) s)"
proof -
  have sound: "sound s" and same: "attempt s0 = attempt s" "was_started s0 = was_started s" "executions s0 = executions s" using assms(2) by (simp_all add: released_def)
  have live: "live n {} s0" using assms(1) by (simp add: fine_def)
  note r = released_live[OF assms]
  show "fine n {} s" if "attempt s k = None"
  proof -
    have "cell_ok n False (cell s j)" for j
    proof (cases "j = k")
      case True
      then show ?thesis using r(1)[of False k] that by (simp add: cell_def)
    qed (use r(2) in simp)
    then show ?thesis using sound by (simp add: fine_def live_def)
  qed
  show "as_phase a = PhaseStarting \<and> was_started s k \<and> fine n {k} (change k (\<lambda>a. a\<lparr>as_start_in_flight := False\<rparr>) s)"
    if a: "attempt s k = Some a"
  proof -
    have load: "load s0 k = add_load (1, 0, 0, 0) (load s k)" using assms(2) by (simp add: released_def)
    have t: "bounded n a \<and> was_started s k \<and> tracked (load s0 k) a" using live_tracked[OF live, of k a] a same by simp
    then have k: "as_phase a = PhaseStarting" "load s k = (0, 0, 0, 0)" "flags_of a = (True, False, False, False)"
      using load by (cases "load s k"; auto simp: tracked_def split: attemptPhase.splits)+
    have "cell_ok n True (was_started s k, executions s k, load s k, Some (a\<lparr>as_start_in_flight := False\<rparr>))"
      using live_cell[OF live, of k] a k t same by (simp add: idle_def flags_of_def bounded_def)
    then have "cell_ok n (j \<in> {k}) (cell (change k (\<lambda>a. a\<lparr>as_start_in_flight := False\<rparr>) s) j)" for j
      using r(2)[of j] a by (cases "j = k") (simp_all add: cell_change del: cell_ok.simps)
    then show ?thesis using k t sound by (simp add: fine_def live_def del: cell_ok.simps)
  qed
qed

lemma released_work:
  assumes "fine n {} s0" "released d K s0 s" "d = (0, 1, 0, 0) \<or> d = (0, 0, 1, 0)"
  shows "fine n K s" and "k \<in> K \<Longrightarrow> attempt s k = Some a \<Longrightarrow> as_phase a = (if d = (0, 1, 0, 0) then PhaseExecuting else PhaseCompleting)"
proof -
  have sound: "sound s" and same: "attempt s0 = attempt s" "was_started s0 = was_started s" "executions s0 = executions s" using assms(2) by (simp_all add: released_def)
  have live: "live n {} s0" using assms(1) by (simp add: fine_def)
  note r = released_live[OF assms(1,2)]
  have work: "as_phase a = (if d = (0, 1, 0, 0) then PhaseExecuting else PhaseCompleting) \<and> idle (load s k) a" if "k \<in> K" "attempt s k = Some a" for k a
  proof -
    have "load s0 k = add_load d (load s k)" "tracked (load s0 k) a"
      using live_tracked[OF live, of k a] assms(2) that same by (simp_all add: released_def)
    then show ?thesis using assms(3) by (cases "load s k") (auto simp: tracked_def idle_def split: attemptPhase.splits)
  qed
  have "cell_ok n (j \<in> K) (cell s j)" for j
  proof (cases "j \<in> K")
    case True
    then show ?thesis using r(1)[of True j] work[OF True] live_cell[OF live, of j] same by (cases "attempt s j") (auto simp: cell_def)
  qed (use r(2) in simp)
  then show "fine n K s" using sound by (simp add: fine_def live_def)
  show "as_phase a = (if d = (0, 1, 0, 0) then PhaseExecuting else PhaseCompleting)" if "k \<in> K" "attempt s k = Some a" using work[OF that] by simp
qed

subsection \<open>Events\<close>

lemma started_beyond: "live n K s \<Longrightarrow> attempt s k = Some a \<Longrightarrow> as_phase a \<noteq> PhaseStarting \<Longrightarrow> was_started s k"
  using live_cell[of n K s k] by auto

lemma fine_strengthen: "fine n (insert k K) s \<Longrightarrow> attempt s k = None \<Longrightarrow> fine n K s"
  unfolding fine_def using liveI_one[of n "insert k K" s k s K] live_cell[of n "insert k K" s k] by (simp add: cell_def)

lemma fine_rephase:
  assumes "fine n (insert k K) s" "attempt s k = Some a" "bounded n (f a)" "flags_of (f a) = flags_of a"
    "as_phase a \<noteq> PhaseStarting" "as_phase (f a) \<noteq> PhaseStarting"
  shows "fine n (insert k K) (change k f s)"
proof -
  have live: "live n (insert k K) s" using assms(1) by (simp add: fine_def)
  have "cell_ok n True (cell (change k f s) k)"
    using live_cell[OF live, of k] live_loose[OF live, of k a] assms(2-) by (auto simp: cell_change idle_def)
  then have "live n (insert k K) (change k f s)"
    by (intro liveI_one[OF live, where k = k]) (simp_all add: cell_change del: cell_ok.simps)
  then show ?thesis using assms(1) by (simp add: fine_def)
qed

lemma fine_on_started:
  assumes "fine n {} s0" "released (1, 0, 0, 0) {k} s0 s" "1 \<le> cf_attempt_start_batch_size cfg"
  shows "fine n {} (on_started cfg k err e s)"
proof (cases "attempt s k")
  case None
  then show ?thesis using released_start(1)[OF assms(1,2) None] by (simp add: on_started_def attempt_def)
next
  case (Some a)
  let ?s = "change k (\<lambda>a. a\<lparr>as_start_in_flight := False\<rparr>) s" and ?a = "a\<lparr>as_start_in_flight := False\<rparr>"
  have r: "as_phase a = PhaseStarting" "was_started ?s k" "fine n {k} ?s" "attempt ?s k = Some ?a"
    using released_start(2)[OF assms(1,2) Some] Some by (simp_all add: was_started_def)
  have idle: "bounded n ?a" "flags_of ?a = (False, False, False, False)"
    using r(3) live_loose[of n "{k}" ?s k ?a] r(4) by (simp_all add: fine_def idle_def)
  have "fine n {} (startAttempts cfg [k] ?s)"
    using fine_startAttempts[of n "[k]" "{}" ?s cfg] r assms(3) Some by (simp add: startable_def)
  moreover have "fine n {} (change k (\<lambda>a. a\<lparr>as_start_retry := True\<rparr>) ?s)" "fine n {} (change k (\<lambda>a. a\<lparr>as_execute_pending := True\<rparr>) ?s)"
    by (rule fine_flag[where a = ?a]; use r idle in \<open>simp add: tracked_def flags_of_def bounded_def\<close>)+
  moreover have "fine n {} (removeAttempt k ?s)" using fine_remove[of n k "{}" ?s] r(3) by simp
  moreover have "fine n {} (executeAttempt (as_lease a) k (change k (\<lambda>a. a\<lparr>as_phase := PhaseExecuting\<rparr>) ?s))"
    by (rule fine_execute[where a = ?a]) (use r in simp_all)
  ultimately show ?thesis using Some r(1) by (simp add: on_started_def attempt_def Let_def split: option.split)
qed

lemma fine_on_executed:
  assumes "fine n {} s0" "released (0, 1, 0, 0) {k} s0 s" "1 \<le> n"
  shows "fine n {} (on_executed cfg k result s)"
proof (cases "attempt s k")
  case None
  then show ?thesis using fine_strengthen[of n k "{}" s] released_work(1)[OF assms(1,2)] by (simp add: on_executed_def attempt_def)
next
  case (Some a)
  let ?f = "\<lambda>a. a\<lparr>as_result := Some result, as_phase := PhaseReadyToComplete\<rparr>"
  have r: "fine n {k} s" "as_phase a = PhaseExecuting" using released_work[OF assms(1,2)] Some by simp_all
  have "bounded n a" using r live_loose[of n "{k}" s k a] Some by (simp add: fine_def)
  then have "fine n {k} (change k ?f s)"
    by (intro fine_rephase[OF r(1) Some]) (use r(2) assms(3) in \<open>simp_all add: bounded_def flags_of_def\<close>)
  then have "fine n {} (queueCompletion cfg k (change k ?f s))"
    using fine_queueCompletion[of n k "{}" "change k ?f s" "?f a" cfg] Some by simp
  then show ?thesis using Some r(2) by (simp add: on_executed_def attempt_def)
qed

lemma fine_complete_one:
  assumes "fine (cf_max_completion_attempts cfg) (insert k K) s" "k \<notin> K" "attempt s k = Some a" "as_phase a = PhaseCompleting"
  shows "fine (cf_max_completion_attempts cfg) K (complete_one cfg e k a err s) \<and> (\<forall>j \<in> K. attempt (complete_one cfg e k a err s) j = attempt s j)"
    (is "?ok (complete_one cfg e k a err s)")
proof -
  let ?n = "cf_max_completion_attempts cfg"
  let ?undo = "\<lambda>a. a\<lparr>as_completion_attempts := (if as_completion_attempts a > 0 then as_completion_attempts a - 1 else as_completion_attempts a),
                     as_phase := PhaseReadyToComplete\<rparr>"
  let ?again = "\<lambda>a. a\<lparr>as_phase := PhaseReadyToComplete\<rparr>" and ?retry = "\<lambda>a. a\<lparr>as_completion_retry := True\<rparr>"
  have b: "bounded ?n a" "flags_of a = (False, False, False, False)"
    using assms(1) live_loose[of ?n "insert k K" s k a] assms(3) by (simp_all add: fine_def idle_def)
  have "K - {k} = K" using assms(2) by auto
  then have remove: "?ok (removeAttempt k s)" using fine_remove[OF assms(1)] assms(2) by (auto simp: attempt_remove)
  have undone: "fine ?n (insert k K) (change k ?undo s)"
    by (rule fine_rephase[OF assms(1,3)]) (use b assms(4) in \<open>simp_all add: bounded_def flags_of_def\<close>)
  have q1: "?ok (queueCompletion cfg k (change k ?undo s))"
    using fine_queueCompletion[OF undone assms(2), of "?undo a" cfg] assms(2,3) by auto
  have "fine ?n (insert k K) (change k ?again s)" if "as_completion_attempts a < ?n"
    by (rule fine_rephase[OF assms(1,3)]) (use that b assms(4) in \<open>simp_all add: bounded_def flags_of_def\<close>)
  then have q2: "?ok (queueCompletion cfg k (change k ?again s))" if "as_completion_attempts a < ?n"
    using fine_queueCompletion[of ?n k K "change k ?again s" "?again a" cfg] that assms(2,3) by auto
  have "was_started (change k ?undo s) k" using started_beyond[of ?n "insert k K" s k a] assms by (simp add: fine_def was_started_def)
  then have "fine ?n K (change k ?retry (change k ?undo s))"
    by (intro fine_flag[OF undone assms(2), where a = "?undo a"]) (use assms(3,4) b in \<open>simp_all add: tracked_def flags_of_def bounded_def\<close>)
  then have r: "?ok (startRegistration (change k ?retry (change k ?undo s)))" using assms(2) by auto
  show ?thesis
    unfolding complete_one_def Let_def using remove q1 q2 r by (auto split: option.split)
qed

lemma fine_complete_each:
  assumes "fine (cf_max_completion_attempts cfg) (set ks) s" "distinct ks" "length errs = length ks"
    and "\<And>k a. k \<in> set ks \<Longrightarrow> attempt s k = Some a \<Longrightarrow> as_phase a = PhaseCompleting"
  shows "fine (cf_max_completion_attempts cfg) {} (complete_each cfg e ks errs s)"
  using assms
proof (induction ks arbitrary: errs s)
  case (Cons k ks)
  then obtain x xs where errs: "errs = x # xs" by (cases errs) auto
  show ?case
  proof (cases "attempt s k")
    case None
    then have "fine (cf_max_completion_attempts cfg) (set ks) s" using fine_strengthen[of _ k "set ks" s] Cons.prems(1) by simp
    then have "fine (cf_max_completion_attempts cfg) {} (complete_each cfg e ks xs s)" using Cons.prems errs by (intro Cons.IH) auto
    then show ?thesis using None errs by (simp add: attempt_def)
  next
    case (Some a)
    have one: "fine (cf_max_completion_attempts cfg) (insert k (set ks)) s" "k \<notin> set ks" "as_phase a = PhaseCompleting"
      using Cons.prems Some by auto
    note step = fine_complete_one[OF one(1,2) Some one(3), of e x]
    have "fine (cf_max_completion_attempts cfg) {} (complete_each cfg e ks xs (complete_one cfg e k a x s))"
      using step Cons.prems errs by (intro Cons.IH) auto
    then show ?thesis using Some errs by (simp add: attempt_def)
  qed
qed simp

subsection \<open>What the closures do to starts and retries\<close>

definition begun :: "worker \<Rightarrow> attemptKey set" where
  "begun s = {k. was_started s k}"

definition waiting :: "worker \<Rightarrow> attemptKey set" where
  "waiting s = {k. \<exists>a. attempt s k = Some a \<and> flagged a}"

text \<open>No attempts but those of \<open>K\<close> are started for the first time, no retry is added and the state of the registration stays.\<close>

definition settles :: "attemptKey set \<Rightarrow> worker \<Rightarrow> worker \<Rightarrow> bool" where
  "settles K s s' \<longleftrightarrow> begun s \<subseteq> begun s' \<and> begun s' \<subseteq> begun s \<union> K \<and> waiting s' \<subseteq> waiting s \<and>
     wo_registration_needed s' = wo_registration_needed s \<and> wo_deferred s' = wo_deferred s"

lemma settles_refl [simp]: "settles K s s"
  by (simp add: settles_def)

lemma settles_trans: "settles K s s1 \<Longrightarrow> settles K s1 s2 \<Longrightarrow> settles K s s2"
  by (auto simp: settles_def)

lemma settles_more: "settles K s s' \<Longrightarrow> K \<subseteq> L \<union> begun s \<Longrightarrow> settles L s s'"
  by (auto simp: settles_def)

lemma settles_fold:
  assumes "\<And>x s. x \<in> set xs \<Longrightarrow> settles K s (f x s)"
  shows "settles K s (fold f xs s)"
  using assms by (induction xs arbitrary: s) (simp, metis fold_simps(2) list.set_intros settles_trans)

lemma begun_spawn [simp]: "begun (spawn c s) = begun s \<union> set (start_keys c)"
  by (auto simp: begun_def was_started_def count_list_0_iff simp flip: neq0_conv)

lemma begun_change [simp]: "begun (change k f s) = begun s"
  by (simp add: begun_def was_started_def)

lemma waiting_spawn [simp]: "waiting (spawn c s) = waiting s"
  by (simp add: waiting_def)

lemma waiting_change: "waiting (change k f s) = {j. if j = k then \<exists>a. attempt s k = Some a \<and> flagged (f a) else j \<in> waiting s}"
  by (auto simp: waiting_def)

lemma settles_spawn: "set (start_keys c) \<subseteq> K \<Longrightarrow> settles K s (spawn c s)"
  by (auto simp: settles_def)

lemma settles_change: "(\<And>a. flagged (f a) \<Longrightarrow> flagged a) \<Longrightarrow> settles K s (change k f s)"
  by (auto simp: settles_def waiting_change waiting_def)

lemma settles_fields:
  "settles K s (panic s)" "settles K s (s\<lparr>wo_pending := ks\<rparr>)" "settles K s (s\<lparr>wo_timer := b\<rparr>)"
  by (simp_all add: settles_def begun_def waiting_def was_started_def attempt_def panic_def)

lemma settles_remove: "settles K s (removeAttempt k s)"
proof -
  have "waiting (removeAttempt k s) \<subseteq> waiting s" by (auto simp: waiting_def attempt_remove split: if_split_asm)
  then show ?thesis by (auto simp: settles_def begun_def was_started_def removeAttempt_def split: option.split)
qed

lemma settles_startAttempts: "settles (set ks) s (startAttempts cfg ks s)"
proof -
  have set: "settles K s (change k (\<lambda>a. a\<lparr>as_start_in_flight := True\<rparr>) s)" for K k s by (rule settles_change) (simp add: flagged_def)
  have "settles K s (startAttempt k s)" if "k \<in> K" for K k s
    using settles_trans[OF set settles_spawn] that settles_fields(1) by (simp add: startAttempt_def split: option.split)
  moreover have "settles K s (startAttemptBatch ch refs s)" if "set ch \<subseteq> K" for K s ch refs
    unfolding startAttemptBatch_def by (rule settles_trans[OF settles_fold settles_spawn]) (use set that in auto)
  ultimately have "settles K s (start_chunk cfg ch s)" if "set ch \<subseteq> K" for K ch s
    using that settles_fields(1) by (auto simp: start_chunk_def intro!: settles_fold)
  moreover have "set ch \<subseteq> set ks" if "ch \<in> set (batches n ks)" for n ch
    using that by (induction n ks rule: batches.induct) (subst (asm) (2) batches.simps, auto split: if_split_asm dest: in_set_takeD in_set_dropD)
  ultimately show ?thesis unfolding startAttempts_def by (blast intro: settles_fold)
qed

lemma settles_flush: "settles K s (flushCompletions s)"
proof -
  have "flagged (completing a) = flagged a" for a by (simp add: flagged_def completing_def)
  then have "waiting (flushCompletions s) \<subseteq> waiting s" "begun (flushCompletions s) = begun s"
    using cell_flush[of s] by (auto simp: waiting_def begun_def cell_def Let_def split: if_split_asm)
  then show ?thesis using outer_eqD(9,11)[OF outer_flushCompletions] by (auto simp: settles_def)
qed

lemma settles_queue: "settles K s (queueCompletion cfg k s)"
proof -
  have "settles K s (change k completing s)" by (rule settles_change) (simp add: flagged_def completing_def)
  then have "settles K s (startCompletion k s)"
    using settles_trans[OF _ settles_spawn] settles_fields(1) by (simp add: startCompletion_def split: option.split)
  then show ?thesis
    using settles_trans[OF settles_fields(2) settles_flush] settles_trans[OF settles_fields(2) settles_fields(3)] by (simp add: queueCompletion_def Let_def)
qed

subsection \<open>New leases\<close>

lemma accept_one:
  assumes "fine n (set ks) s" "startable s ks" "keyFor l \<notin> begun s" and "accept_lease l (r, ks, s) = (r', ks', s')"
  shows "fine n (set ks') s' \<and> startable s' ks' \<and> settles {} s s'"
proof (cases "s' = s \<and> ks' = ks")
  case False
  let ?k = "keyFor l"
  have new: "ks' = ks @ [?k]" "s' = s\<lparr>wo_active := wo_active s @ [(?k, new_attempt_state l)], wo_used := wo_used s + l_slot_cost l\<rparr>"
    and none: "attempt s ?k = None"
    using False assms(4) by (auto simp: accept_lease_def attempt_def split: if_split_asm)
  have attempt: "attempt s' = (attempt s)(?k \<mapsto> new_attempt_state l)" using none by (auto simp: new attempt_def map_add_def fun_eq_iff split: option.split)
  have same: "was_started s' = was_started s" "executions s' = executions s" "load s' = load s"
    by (simp_all add: new was_started_def executions_def load_def fun_eq_iff)
  have live: "live n (set ks) s" using assms(1) by (simp add: fine_def)
  have "cell_ok n True (cell s' ?k)"
    using live_cell[OF live, of ?k] assms(3)
    by (simp add: cell_def same attempt begun_def idle_def bounded_def flags_of_def new_attempt_state_def)
  then have "live n (set ks') s'"
    by (intro liveI_one[OF live, where k = ?k]) (auto simp: cell_def same attempt new(1) simp del: cell_ok.simps)
  moreover have "sound s'" using assms(1) by (simp add: fine_def sound_def new)
  moreover have "startable s' ks'"
    using assms(2) none by (auto simp: startable_def attempt new(1) new_attempt_state_def)
  moreover have "waiting s' \<subseteq> waiting s" by (auto simp: waiting_def attempt new_attempt_state_def flagged_def split: if_split_asm)
  then have "settles {} s s'" using same(1) new(2) by (simp add: settles_def begun_def)
  ultimately show ?thesis by (simp add: fine_def)
qed (use assms in auto)

lemma accept_fold:
  assumes "fine n (set ks) s" "startable s ks" "\<And>l. l \<in> set ls \<Longrightarrow> keyFor l \<notin> begun s" and "fold accept_lease ls (r, ks, s) = (r', ks', s')"
  shows "fine n (set ks') s' \<and> startable s' ks' \<and> settles {} s s'"
  using assms
proof (induction ls arbitrary: r ks s)
  case (Cons l ls)
  obtain r1 ks1 s1 where one: "accept_lease l (r, ks, s) = (r1, ks1, s1)" by (cases "accept_lease l (r, ks, s)")
  note step = accept_one[OF Cons.prems(1,2) _ one]
  then have "fine n (set ks1) s1" "startable s1 ks1" "settles {} s s1" using Cons.prems(3) by simp_all
  moreover from this have "begun s1 = begun s" by (auto simp: settles_def)
  ultimately show ?case using Cons.IH[of ks1 s1 r1] Cons.prems(3,4) one settles_trans[of "{}" s s1 s'] by simp
qed simp

subsection \<open>Retries after a registration\<close>

lemma change_change: "change k f (change k g s) = change k (\<lambda>a. f (g a)) s"
  by (simp add: change_def o_def split_def cong: if_cong)

lemma fine_unflag:
  assumes "fine n K s" "k \<notin> K" "attempt s k = Some a" "load s k = (0, 0, 0, 0)"
    and "flags_of (f a) = (False, False, False, False)" "bounded n (f a)" "as_phase (f a) = as_phase a"
  shows "fine n (insert k K) (change k f s)"
proof -
  have live: "live n K s" using assms(1) by (simp add: fine_def)
  have "cell_ok n True (cell (change k f s) k)"
    using live_cell[OF live, of k] assms(2-) by (simp add: cell_change idle_def)
  then have "live n (insert k K) (change k f s)"
    by (intro liveI_one[OF live, where k = k]) (simp_all add: cell_change del: cell_ok.simps)
  then show ?thesis using assms(1) by (simp add: fine_def)
qed

lemma tracked_cases:
  assumes "tracked l a"
  obtains (start) "as_phase a = PhaseStarting" "l = (0, 0, 0, 0)" "flags_of a = (False, True, False, False)"
    | (run) "as_phase a = PhaseStarting" "l = (0, 0, 0, 0)" "flags_of a = (False, False, True, False)"
    | (report) "as_phase a = PhaseReadyToComplete" "l = (0, 0, 0, 0)" "flags_of a = (False, False, False, True)"
    | (none) "\<not> flagged a"
  using assms by (cases "as_phase a") (auto simp: tracked_def flags_of_def flagged_def)

definition visited :: "int \<Rightarrow> attemptKey list \<Rightarrow> worker \<Rightarrow> bool" where
  "visited n rs s \<longleftrightarrow> fine n (set rs) s \<and> startable s rs \<and> set rs \<subseteq> begun s"

lemma visit_one:
  assumes "visited n rs s" "k \<notin> set rs" "retry_visit cfg k (rs, s) = (rs', s')"
  shows "visited n rs' s' \<and> set rs' \<subseteq> insert k (set rs) \<and> settles {} s s' \<and> k \<notin> waiting s'"
proof (cases "attempt s k")
  case None
  then show ?thesis using assms by (auto simp: retry_visit_def attempt_def waiting_def)
next
  case (Some a)
  have fine: "fine n (set rs) s" and live: "live n (set rs) s" using assms(1) by (simp_all add: visited_def fine_def)
  have a: "map_of (wo_active s) k = Some a" using Some by (simp add: attempt_def)
  note t = live_tracked[OF live assms(2) Some]
  show ?thesis
    using t[THEN conjunct2, THEN conjunct2]
  proof (cases rule: tracked_cases)
    case start
    let ?f = "\<lambda>a. a\<lparr>as_start_retry := False\<rparr>"
    have eq: "rs' = rs @ [k]" "s' = change k ?f s" using assms(3) a start by (simp_all add: retry_visit_def flags_of_def)
    have "fine n (insert k (set rs)) (change k ?f s)"
      by (rule fine_unflag[OF fine assms(2) Some]) (use start t in \<open>simp_all add: flags_of_def bounded_def\<close>)
    then show ?thesis
      using assms(1,2) t start Some by (auto simp: eq visited_def startable_def begun_def settles_def waiting_def flags_of_def flagged_def was_started_def)
  next
    case run
    let ?f = "\<lambda>a. a\<lparr>as_execute_pending := False\<rparr>" and ?g = "\<lambda>a. a\<lparr>as_phase := PhaseExecuting\<rparr>"
    let ?s = "change k ?f s"
    have eq: "rs' = rs" "s' = executeAttempt (as_lease a) k (change k ?g ?s)"
      using assms(3) a run by (simp_all add: retry_visit_def flags_of_def change_change)
    have f: "fine n (insert k (set rs)) ?s"
      by (rule fine_unflag[OF fine assms(2) Some]) (use run t in \<open>simp_all add: flags_of_def bounded_def\<close>)
    have "fine n (set rs) s'"
      unfolding eq by (rule fine_execute[OF f assms(2), where a = "?f a"]) (use Some run t in \<open>simp_all add: was_started_def\<close>)
    then show ?thesis
      using assms(1,2) run Some
      by (auto simp: eq executeAttempt_def visited_def startable_def begun_def settles_def waiting_def flags_of_def flagged_def was_started_def)
  next
    case report
    let ?f = "\<lambda>a. a\<lparr>as_completion_retry := False, as_phase := PhaseReadyToComplete\<rparr>"
    let ?s = "change k ?f s"
    have eq: "rs' = rs" "s' = queueCompletion cfg k ?s"
      using assms(3) a report by (simp_all add: retry_visit_def flags_of_def)
    have f: "fine n (insert k (set rs)) ?s"
      by (rule fine_unflag[OF fine assms(2) Some]) (use report t in \<open>simp_all add: flags_of_def bounded_def\<close>)
    note q = fine_queueCompletion[OF f assms(2), of "?f a" cfg] and w = settles_queue[of "{}" ?s cfg k]
    have "k \<notin> waiting ?s" "settles {} s ?s" using Some report by (auto simp: waiting_def flagged_def flags_of_def settles_def)
    then show ?thesis
      using assms(1,2) q w settles_trans[of "{}" s ?s s'] Some
      by (auto simp: eq visited_def startable_def settles_def)
  next
    case none
    then have "rs' = rs" "s' = s" using assms(3) a by (simp_all add: retry_visit_def flagged_def)
    then show ?thesis using assms(1) Some none by (auto simp: waiting_def)
  qed
qed

lemma visit_fold:
  assumes "visited n rs s" "distinct ks" "set ks \<inter> set rs = {}" "fold (retry_visit cfg) ks (rs, s) = (rs', s')"
  shows "visited n rs' s' \<and> settles {} s s' \<and> waiting s' \<inter> set ks = {}"
  using assms
proof (induction ks arbitrary: rs s)
  case (Cons k ks)
  obtain rs1 s1 where one: "retry_visit cfg k (rs, s) = (rs1, s1)" by (cases "retry_visit cfg k (rs, s)")
  have "k \<notin> set rs" using Cons.prems(3) by simp
  note step = visit_one[OF Cons.prems(1) this one]
  then have "set ks \<inter> set rs1 = {}" "fold (retry_visit cfg) ks (rs1, s1) = (rs', s')" using Cons.prems one by auto
  then have "visited n rs' s' \<and> settles {} s1 s' \<and> waiting s' \<inter> set ks = {}" using Cons.IH[of rs1 s1] step Cons.prems(2) by simp
  then show ?case using step settles_trans[of "{}" s s1 s'] by (auto simp: settles_def)
qed simp

subsection \<open>Retries and deferred leases\<close>

definition fresh_deferred :: "worker \<Rightarrow> bool" where
  "fresh_deferred s \<longleftrightarrow> (\<forall>result leases. wo_deferred s = Some result \<longrightarrow> aq_response result = Inr leases \<longrightarrow>
     (\<forall>l \<in> set leases. keyFor l \<notin> begun s))"

definition rests :: "worker \<Rightarrow> bool" where
  "rests s \<longleftrightarrow> (waiting s = {} \<or> wo_registration_needed s) \<and> fresh_deferred s"

lemma rests_settles: "rests s \<Longrightarrow> settles {} s s' \<Longrightarrow> rests s'"
  by (auto simp: rests_def settles_def fresh_deferred_def)

lemma fresh_leases_begun: "fresh_leases s (Inr leases) \<longleftrightarrow> (\<forall>l \<in> set leases. keyFor l \<notin> begun s)"
proof -
  have "k \<in> begun s \<longleftrightarrow> k \<in> set (concat (map start_keys (wo_started s)))" for k
    by (simp add: begun_def was_started_def mentions_def count_list_0_iff flip: neq0_conv)
  then show ?thesis by (simp add: fresh_leases_def list_all_iff)
qed

lemma settles_flags:
  "settles K s (s\<lparr>wo_acquiring := b\<rparr>)" "settles K s (s\<lparr>wo_acquire_paused := b\<rparr>)" "settles K s (s\<lparr>wo_heartbeat_in_flight := b\<rparr>)"
  "settles K s (s\<lparr>wo_registration_in_flight := b\<rparr>)" "settles K s (s\<lparr>wo_epoch := e\<rparr>)" "settles K s (finish c s)" "settles K s (continue_as c d s)"
  by (simp_all add: settles_def begun_def waiting_def was_started_def attempt_def finish_def continue_as_def)

lemma settles_admins: "settles K s (startAcquire cfg s)" "settles K s (startHeartbeat order s)"
  using settles_trans[OF settles_flags(1) settles_spawn] settles_trans[OF settles_flags(3) settles_spawn]
  by (simp_all add: startAcquire_def startHeartbeat_def Let_def)

lemma rests_registration: "fresh_deferred s \<Longrightarrow> rests (startRegistration s)"
  by (auto simp: rests_def fresh_deferred_def begun_def was_started_def startRegistration_def Let_def)

lemma fresh_deferred_change: "fresh_deferred (change k f s) = fresh_deferred s"
  by (simp add: fresh_deferred_def)

lemma settles_execute: "settles K s (executeAttempt l k s)"
  by (simp add: executeAttempt_def settles_spawn)

lemma rests_on_started:
  assumes "rests s" "attempt s k \<noteq> None \<Longrightarrow> k \<in> begun s"
  shows "rests (on_started cfg k err e s)"
proof (cases "attempt s k")
  case None
  then show ?thesis using assms(1) by (simp add: on_started_def attempt_def)
next
  case (Some a)
  let ?s = "change k (\<lambda>a. a\<lparr>as_start_in_flight := False\<rparr>) s"
  have rests: "rests ?s" by (rule rests_settles[OF assms(1) settles_change]) (simp add: flagged_def)
  have "rests (startAttempts cfg [k] ?s)"
    by (rule rests_settles[OF rests settles_more[OF settles_startAttempts]]) (use assms(2) Some in simp)
  moreover have "rests (startRegistration (change k (\<lambda>a. a\<lparr>as_start_retry := True\<rparr>) ?s))"
    using rests by (intro rests_registration) (simp add: fresh_deferred_change rests_def)
  moreover have "rests (startAcquire cfg (removeAttempt k ?s))"
    by (rule rests_settles[OF rests settles_trans[OF settles_remove settles_admins(1)]])
  moreover have "rests (change k (\<lambda>a. a\<lparr>as_execute_pending := True\<rparr>) ?s)" if "wo_registration_needed s"
    using rests that by (simp add: rests_def fresh_deferred_change)
  moreover have "rests (executeAttempt (as_lease a) k (change k (\<lambda>a. a\<lparr>as_phase := PhaseExecuting\<rparr>) ?s))"
    by (rule rests_settles[OF rests settles_trans[OF settles_change settles_execute]]) (simp add: flagged_def)
  ultimately show ?thesis using Some rests by (simp add: on_started_def attempt_def Let_def split: option.split)
qed

lemma rests_on_executed:
  assumes "rests s"
  shows "rests (on_executed cfg k result s)"
proof -
  have "settles {} s (queueCompletion cfg k (change k (\<lambda>a. a\<lparr>as_result := Some result, as_phase := PhaseReadyToComplete\<rparr>) s))"
    by (rule settles_trans[OF settles_change settles_queue]) (simp add: flagged_def)
  then show ?thesis using assms rests_settles by (auto simp: on_executed_def split: option.split)
qed

lemma rests_complete_one:
  assumes "rests s"
  shows "rests (complete_one cfg e k a err s)"
proof -
  let ?undo = "change k (\<lambda>a. a\<lparr>as_completion_attempts := (if as_completion_attempts a > 0 then as_completion_attempts a - 1 else as_completion_attempts a),
                     as_phase := PhaseReadyToComplete\<rparr>) s"
  have "settles {} s (removeAttempt k s)" by (rule settles_remove)
  moreover have "settles {} s (queueCompletion cfg k ?undo)" "settles {} s (queueCompletion cfg k (change k (\<lambda>a. a\<lparr>as_phase := PhaseReadyToComplete\<rparr>) s))"
    by (rule settles_trans[OF settles_change settles_queue], simp add: flagged_def)+
  moreover have "rests (startRegistration (change k (\<lambda>a. a\<lparr>as_completion_retry := True\<rparr>) ?undo))"
    using assms by (intro rests_registration) (simp add: fresh_deferred_change rests_def)
  ultimately show ?thesis using assms rests_settles unfolding complete_one_def Let_def by (auto split: option.split)
qed

lemma rests_complete_each: "rests s \<Longrightarrow> rests (complete_each cfg e ks errs s)"
proof (induction ks arbitrary: errs s)
  case (Cons k ks)
  then show ?case
    using rests_settles[OF Cons.prems settles_fields(1)] rests_complete_one[OF Cons.prems] by (auto split: option.split list.split)
qed simp

subsection \<open>Steps\<close>

lemma orderly_processAcquired:
  assumes "fine n {} s" "rests s" "1 \<le> cf_attempt_start_batch_size cfg"
    and "\<And>leases l. aq_response result = Inr leases \<Longrightarrow> wo_deferred s = None \<and> (l \<in> set leases \<longrightarrow> keyFor l \<notin> begun s)"
  shows "fine n {} (processAcquired cfg result s) \<and> rests (processAcquired cfg result s)"
proof (cases "aq_response result")
  case (Inl e)
  have "rests (startRegistration s)" using assms(2) by (intro rests_registration) (simp add: rests_def)
  moreover have "rests (s\<lparr>wo_acquire_paused := True\<rparr>)" "rests (startAcquire cfg (s\<lparr>wo_acquire_paused := False\<rparr>))"
    using rests_settles[OF assms(2)] settles_flags(2) settles_trans[OF settles_flags(2) settles_admins(1)] by blast+
  ultimately show ?thesis using Inl assms(1) by (simp add: processAcquired_def)
next
  case (Inr leases)
  obtain r ks s1 where f: "fold accept_lease leases (cf_slots cfg - wo_used s, [], s) = (r, ks, s1)"
    by (cases "fold accept_lease leases (cf_slots cfg - wo_used s, [], s)")
  have a: "fine n (set ks) s1 \<and> startable s1 ks \<and> settles {} s s1"
    by (rule accept_fold[OF _ _ _ f]) (use assms Inr in \<open>auto simp: startable_def\<close>)
  then have "rests s1" "wo_deferred s1 = None" using rests_settles[OF assms(2)] assms(4)[OF Inr] by (auto simp: settles_def)
  moreover have "settles (set ks) s1 (startAttempts cfg ks s1)" by (rule settles_startAttempts)
  ultimately have "rests (startAttempts cfg ks s1)" by (auto simp: rests_def settles_def fresh_deferred_def)
  then have "rests (startAcquire cfg (startAttempts cfg ks s1))" by (rule rests_settles[OF _ settles_admins(1)])
  moreover have "fine n {} (startAttempts cfg ks s1)" using fine_startAttempts[of n ks "{}" s1 cfg] a assms(3) by simp
  ultimately show ?thesis using Inr f by (simp add: processAcquired_def)
qed

lemma orderly_resume:
  assumes "fine n {} s" "fresh_deferred s" "distinct (map fst (wo_active s))" "shuffles it" "1 \<le> cf_attempt_start_batch_size cfg"
  shows "fine n {} (resume cfg it s) \<and> rests (resume cfg it s)"
proof -
  let ?ks = "it 0 (map fst (wo_active s))"
  have perm: "mset ?ks = mset (map fst (wo_active s))" using assms(4) by (simp add: shuffles_def)
  then have ks: "distinct ?ks" "set ?ks = fst ` set (wo_active s)" using assms(3) by (metis mset_eq_imp_distinct_iff) (metis perm set_map set_mset_mset)
  obtain rs s2 where f: "fold (retry_visit cfg) ?ks ([], s) = (rs, s2)" by (cases "fold (retry_visit cfg) ?ks ([], s)")
  have v: "visited n rs s2 \<and> settles {} s s2 \<and> waiting s2 \<inter> set ?ks = {}"
    by (rule visit_fold[OF _ ks(1) _ f]) (use assms(1) in \<open>simp_all add: visited_def startable_def\<close>)
  have "waiting s \<subseteq> set ?ks" unfolding ks by (force simp: waiting_def attempt_def dest: map_of_SomeD)
  then have "waiting s2 = {}" using v by (auto simp: settles_def)
  then have rests2: "rests s2" using v assms(2) by (auto simp: rests_def settles_def fresh_deferred_def)
  define s3 where "s3 = startHeartbeat (it 1) (startAttempts cfg rs s2)"
  have "settles {} s2 (startAttempts cfg rs s2)" by (rule settles_more[OF settles_startAttempts]) (use v in \<open>simp add: visited_def\<close>)
  then have rests3: "rests s3" unfolding s3_def by (intro rests_settles[OF rests2]) (blast intro: settles_trans settles_admins)
  have fine3: "fine n {} s3"
    using fine_startAttempts[of n rs "{}" s2 cfg] v assms(5) by (simp add: s3_def visited_def)
  define s4 where "s4 = (case wo_deferred s3 of None \<Rightarrow> s3 | Some pending \<Rightarrow> processAcquired cfg pending (s3\<lparr>wo_deferred := None\<rparr>))"
  have "fine n {} s4 \<and> rests s4"
  proof (cases "wo_deferred s3")
    case (Some pending)
    let ?s = "s3\<lparr>wo_deferred := None\<rparr>"
    have same: "begun ?s = begun s3" "waiting ?s = waiting s3" by (simp_all add: begun_def was_started_def waiting_def attempt_def)
    then have "rests ?s" using rests3 by (simp add: rests_def fresh_deferred_def)
    then have "fine n {} (processAcquired cfg pending ?s) \<and> rests (processAcquired cfg pending ?s)"
      by (intro orderly_processAcquired) (use fine3 rests3 Some assms(5) same in \<open>auto simp: rests_def fresh_deferred_def\<close>)
    then show ?thesis using Some by (simp add: s4_def)
  qed (use fine3 rests3 in \<open>simp add: s4_def\<close>)
  moreover have "resume cfg it s = startAcquire cfg s4" unfolding resume_def s4_def s3_def Let_def using f by simp
  ultimately show ?thesis using rests_settles[OF _ settles_admins(1)] by simp
qed

definition orderly :: "WorkerEnv \<Rightarrow> worker \<Rightarrow> bool" where
  "orderly cfg s \<longleftrightarrow> fine (cf_max_completion_attempts cfg) {} s \<and> rests s"

lemma released_call:
  assumes "c \<in> set (wo_calls s)" "sound s"
  shows "c = CallStart k ref e \<Longrightarrow> released (1, 0, 0, 0) {k} s (finish c s)"
    and "c = CallStartReport ((k, err) # rs) e \<Longrightarrow> released (1, 0, 0, 0) {k} s (continue_as c (CallStartReport rs e) s)"
    and "c = CallExecute k request \<Longrightarrow> released (0, 1, 0, 0) {k} s (finish c s)"
    and "c = CallComplete k cm e \<Longrightarrow> released (0, 0, 1, 0) {k} s (finish c s)"
    and "c = CallCompleteBatch ks cs e \<Longrightarrow> released (0, 0, 1, 0) (set ks) s (finish c s)"
proof -
  note same = cell_finish(2-4)[OF assms(1)] and sound = sound_finish[OF assms(2), of c]
  have load: "mentions f (wo_calls s) j = count_list (f c) j + mentions f (remove1 c (wo_calls s)) j" for f j
    by (rule mentions_remove1[OF assms(1)])
  have finish: "load (finish c s) j = (mentions start_keys (remove1 c (wo_calls s)) j, mentions exec_keys (remove1 c (wo_calls s)) j,
    mentions complete_keys (remove1 c (wo_calls s)) j, count_list (wo_pending s) j)" for c j by (simp add: load_def finish_def)
  have now: "load s j = (mentions start_keys (wo_calls s) j, mentions exec_keys (wo_calls s) j, mentions complete_keys (wo_calls s) j,
    count_list (wo_pending s) j)" for j by (rule load_def)
  show "c = CallStart k ref e \<Longrightarrow> released (1, 0, 0, 0) {k} s (finish c s)"
    "c = CallExecute k request \<Longrightarrow> released (0, 1, 0, 0) {k} s (finish c s)"
    "c = CallComplete k cm e \<Longrightarrow> released (0, 0, 1, 0) {k} s (finish c s)"
    using load same sound by (auto simp: released_def finish now)
  have "distinct ks" if "c = CallCompleteBatch ks cs e" using assms that by (auto simp: sound_def list_all_iff)
  then show "c = CallCompleteBatch ks cs e \<Longrightarrow> released (0, 0, 1, 0) (set ks) s (finish c s)"
    using load same sound by (auto simp: released_def finish now count_list_distinct)
  let ?s = "continue_as c (CallStartReport rs e) s"
  have "attempt ?s = attempt s" "was_started ?s = was_started s" "executions ?s = executions s" "sound ?s"
    using sound by (auto simp: continue_as_def finish_def attempt_def was_started_def executions_def sound_def fun_eq_iff)
  then show "c = CallStartReport ((k, err) # rs) e \<Longrightarrow> released (1, 0, 0, 0) {k} s ?s"
    using load by (auto simp: released_def now) (auto simp: load_def continue_as_def)
qed

lemma length_batch_errors: "length (attemptStartBatchErrors response refs) = length refs" "length (completionBatchErrors response' cs) = length cs"
  by (auto simp: attemptStartBatchErrors_def completionBatchErrors_def split: sum.splits)

lemma fine_finish:
  assumes "fine n {} s" "c \<in> set (wo_calls s)" "start_keys c = []" "exec_keys c = []" "complete_keys c = []"
  shows "fine n {} (finish c s)"
proof -
  have "cell (finish c s) = cell s"
    using cell_finish[OF assms(2)] assms(3-) by (simp add: cell_def fun_eq_iff load_def finish_def)
  then show ?thesis using assms(1) sound_finish[of s c] live_cong[of "finish c s" s] by (simp add: fine_def)
qed

lemma fine_starts_answered:
  assumes "fine n {} s" "CallStartBatch ks refs e \<in> set (wo_calls s)"
  shows "fine n {} (continue_as (CallStartBatch ks refs e) (CallStartReport (zip ks (attemptStartBatchErrors response refs)) e) s)"
    (is "fine n {} ?s")
proof -
  have "aligned (CallStartBatch ks refs e)" "sound s" using assms by (auto simp: fine_def sound_def list_all_iff simp del: aligned.simps)
  then have len: "length ks = length refs" by simp
  have "cell ?s = cell s"
    using cell_finish[OF assms(2)] by (simp add: cell_def fun_eq_iff load_def finish_def continue_as_def attempt_def was_started_def executions_def length_batch_errors len)
  moreover have "sound ?s" using sound_finish[OF \<open>sound s\<close>, of "CallStartBatch ks refs e"] by (simp add: continue_as_def finish_def sound_def)
  ultimately show ?thesis using assms(1) live_cong[of ?s s] by (simp add: fine_def)
qed

lemma orderly_settles: "fine (cf_max_completion_attempts cfg) {} s' \<Longrightarrow> orderly cfg s \<Longrightarrow> settles {} s s' \<Longrightarrow> orderly cfg s'"
  by (auto simp: orderly_def intro: rests_settles)

lemma orderly_begun: "orderly cfg s \<Longrightarrow> attempt s k \<noteq> None \<Longrightarrow> k \<in> begun s"
  using live_tracked[of "cf_max_completion_attempts cfg" "{}" s k] by (auto simp: orderly_def fine_def begun_def)

lemma orderly_started:
  assumes "orderly cfg s0" "released (1, 0, 0, 0) {k} s0 s" "settles {} s0 s" "valid_env cfg"
  shows "orderly cfg (on_started cfg k err e s)"
proof -
  have "rests s" using assms(1,3) rests_settles by (auto simp: orderly_def)
  moreover have "k \<in> begun s" if "attempt s k \<noteq> None"
    using orderly_begun[OF assms(1), of k] that assms(2,3) by (auto simp: released_def settles_def)
  ultimately show ?thesis
    using fine_on_started[OF _ assms(2) valid_envD(3)[OF assms(4)]] rests_on_started assms(1) by (auto simp: orderly_def)
qed

lemma orderly_completed:
  assumes "orderly cfg s0" "released (0, 0, 1, 0) (set ks) s0 s" "settles {} s0 s" "distinct ks" "length errs = length ks"
  shows "orderly cfg (on_completed cfg ks errs e s)"
proof -
  have fine: "fine (cf_max_completion_attempts cfg) {} s0" using assms(1) by (simp add: orderly_def)
  have "fine (cf_max_completion_attempts cfg) {} (complete_each cfg e ks errs s)"
    by (rule fine_complete_each) (use released_work[OF fine assms(2)] assms(4,5) in auto)
  moreover have "rests (complete_each cfg e ks errs s)"
    using assms(1,3) rests_settles by (auto simp: orderly_def intro: rests_complete_each)
  ultimately have "orderly cfg (complete_each cfg e ks errs s)" by (simp add: orderly_def)
  then show ?thesis unfolding on_completed_def by (intro orderly_settles[OF _ _ settles_admins(1)]) (simp_all add: orderly_def)
qed

lemma orderly_heartbeat:
  assumes "orderly cfg s"
  shows "orderly cfg (on_heartbeat cfg it refs response e s)"
proof -
  have remove: "orderly cfg (removeAttempt k s)" if "orderly cfg s" for s k
    by (rule orderly_settles[OF _ that settles_remove]) (use that fine_remove_tracked in \<open>auto simp: orderly_def\<close>)
  then have reject: "orderly cfg (reject_lease r ref s)" if "orderly cfg s" for s r ref
    using that by (simp add: reject_lease_def split: option.split)
  have rejects: "orderly cfg (fold (reject_lease r) refs s)" if "orderly cfg s" for s r
    using that by (induction refs arbitrary: s) (simp_all add: reject)
  have all: "orderly cfg (fold (\<lambda>result. if hb_accepted result then id else fold (reject_lease result) refs) rs s)" if "orderly cfg s" for s rs
    using that by (induction rs arbitrary: s) (simp_all add: rejects)
  have s1: "orderly cfg (s\<lparr>wo_heartbeat_in_flight := False\<rparr>)" (is "orderly cfg ?s")
    by (rule orderly_settles[OF _ assms settles_flags(3)]) (use assms in \<open>simp add: orderly_def\<close>)
  have "orderly cfg (startHeartbeat order ?s)" "orderly cfg (startAcquire cfg s)" if "orderly cfg s" for order s
    using that s1 by (auto intro!: orderly_settles settles_admins simp: orderly_def intro: rests_settles[OF _ settles_admins(2)] rests_settles[OF _ settles_admins(1)])
  moreover have "orderly cfg (startRegistration ?s)"
    using s1 rests_registration[of ?s] by (auto simp: orderly_def rests_def)
  ultimately show ?thesis using s1 all[OF s1] by (simp add: on_heartbeat_def Let_def split: sum.split)
qed

lemma orderly_registered:
  assumes "orderly cfg s" "distinct (map fst (wo_active s))" "shuffles it" "valid_env cfg"
  shows "orderly cfg (on_registered cfg it err s)"
proof -
  let ?s = "s\<lparr>wo_registration_in_flight := False\<rparr>"
  let ?t = "?s\<lparr>wo_registration_needed := False, wo_acquire_paused := False, wo_epoch := wo_epoch ?s + 1\<rparr>"
  have "orderly cfg ?s" by (rule orderly_settles[OF _ assms(1) settles_flags(4)]) (use assms(1) in \<open>simp add: orderly_def\<close>)
  moreover have "distinct (map fst (wo_active ?t))" using assms(2) by simp
  moreover have "begun ?t = begun s" by (simp add: begun_def was_started_def)
  then have "fresh_deferred ?t" using assms(1) by (simp add: orderly_def rests_def fresh_deferred_def)
  ultimately show ?thesis
    using orderly_resume[of "cf_max_completion_attempts cfg" ?t it cfg] assms(1,3) valid_envD(3)[OF assms(4)]
    by (simp add: on_registered_def Let_def orderly_def)
qed

lemma orderly_acquired:
  assumes "orderly cfg s" "calm cfg s" "valid_env cfg" "fresh_leases s response" "c \<in> set (wo_calls s)" "c = CallAcquire i m e"
  shows "orderly cfg (on_acquired cfg \<lparr>aq_response = response, aq_epoch = e\<rparr> (finish c s))"
proof -
  let ?s = "(finish c s)\<lparr>wo_acquiring := False\<rparr>"
  have s: "settles {} s ?s" by (rule settles_trans[OF settles_flags(6) settles_flags(1)])
  have fine: "fine (cf_max_completion_attempts cfg) {} ?s" using fine_finish[of _ s c] assms(1,5,6) by (simp add: orderly_def)
  have rests: "rests ?s" using rests_settles[OF _ s] assms(1) by (simp add: orderly_def)
  have begun: "begun ?s = begun s" using s by (auto simp: settles_def)
  have none: "wo_deferred ?s = None" if "\<not> wo_registration_needed ?s"
    using assms(2) that s by (auto simp: calm_def deferred_ok_def settles_def)
  show ?thesis
  proof (cases "wo_registration_needed ?s \<and> (\<exists>ls. response = Inr ls)")
    case True
    then obtain leases where r: "response = Inr leases" by auto
    let ?r = "\<lparr>aq_response = response, aq_epoch = e\<rparr>"
    have "begun (?s\<lparr>wo_deferred := Some ?r\<rparr>) = begun s" using begun by (simp add: begun_def was_started_def)
    then have "rests (?s\<lparr>wo_deferred := Some ?r\<rparr>)"
      using True assms(4) by (simp add: rests_def fresh_deferred_def r fresh_leases_begun)
    then show ?thesis using True r fine by (simp add: on_acquired_def Let_def orderly_def)
  next
    case False
    then have "on_acquired cfg \<lparr>aq_response = response, aq_epoch = e\<rparr> (finish c s) = processAcquired cfg \<lparr>aq_response = response, aq_epoch = e\<rparr> ?s"
      by (auto simp: on_acquired_def Let_def split: sum.split)
    moreover have "fine (cf_max_completion_attempts cfg) {} (processAcquired cfg \<lparr>aq_response = response, aq_epoch = e\<rparr> ?s) \<and>
        rests (processAcquired cfg \<lparr>aq_response = response, aq_epoch = e\<rparr> ?s)"
      by (rule orderly_processAcquired[OF fine rests valid_envD(3)[OF assms(3)]])
        (use False none assms(4) begun fresh_leases_begun[of s] in auto)
    ultimately show ?thesis by (simp add: orderly_def)
  qed
qed

lemma orderly_wstep:
  assumes "wstep cfg True s s'" "calm cfg s" "valid_env cfg" "orderly cfg s"
  shows "orderly cfg s'"
proof -
  let ?n = "cf_max_completion_attempts cfg"
  have fine: "fine ?n {} s" and sound: "sound s" using assms(4) by (simp_all add: orderly_def fine_def)
  show ?thesis
    using assms(1)
  proof cases
    case (acquired i m e response)
    then show ?thesis using orderly_acquired[OF assms(4,2,3)] by simp
  next
    case (start_done k ref e err)
    then show ?thesis using orderly_started[OF assms(4) released_call(1)[OF _ sound refl] settles_flags(6) assms(3)] by simp
  next
    case (starts_answered ks refs e response)
    then show ?thesis using orderly_settles[OF fine_starts_answered[OF fine] assms(4) settles_flags(7)] by simp
  next
    case (start_reported k err rs e)
    then show ?thesis using orderly_started[OF assms(4) released_call(2)[OF _ sound refl] settles_flags(7) assms(3)] by simp
  next
    case (starts_done e)
    then show ?thesis using orderly_settles[OF fine_finish[OF fine] assms(4) settles_flags(6)] by simp
  next
    case (executed k request result)
    then show ?thesis
      using fine_on_executed[OF fine released_call(3)[OF _ sound refl] valid_envD(2)[OF assms(3)]]
        rests_on_executed[OF rests_settles[OF _ settles_flags(6)]] assms(4) by (simp add: orderly_def)
  next
    case (completed k c e err)
    then show ?thesis using orderly_completed[OF assms(4) _ settles_flags(6), of "[k]"] released_call(4)[OF _ sound refl] by simp
  next
    case (completions_done ks cs e response2)
    then have "aligned (CallCompleteBatch ks cs e)" using sound by (auto simp: sound_def list_all_iff simp del: aligned.simps)
    then show ?thesis
      using completions_done orderly_completed[OF assms(4) released_call(5)[OF _ sound refl] settles_flags(6)] by (simp add: length_batch_errors)
  next
    case (heartbeat_done refs e it response3)
    have "orderly cfg (finish (CallHeartbeat refs e) s)" by (rule orderly_settles[OF fine_finish[OF fine] assms(4) settles_flags(6)]) (use heartbeat_done in simp_all)
    then show ?thesis using heartbeat_done(1) orderly_heartbeat by simp
  next
    case (registered it response4)
    have "orderly cfg (finish CallRegister s)" by (rule orderly_settles[OF fine_finish[OF fine] assms(4) settles_flags(6)]) (use registered in simp_all)
    moreover have "distinct (map fst (wo_active (finish CallRegister s)))"
      using held_keys_distinct[of cfg s] assms(2) by (simp add: calm_def steady_def map_fst_held[symmetric] finish_def)
    ultimately show ?thesis using registered(1,3) orderly_registered[OF _ _ _ assms(3)] by simp
  next
    case timer
    let ?s = "s\<lparr>wo_timer := False\<rparr>"
    have "live ?n {} ?s" "prepared ?s" using fine by (simp_all add: fine_def live_def sound_def prepared_def)
    then have "fine ?n {} (flushCompletions ?s)" using flush_fine by blast
    then show ?thesis
      using orderly_settles[OF _ assms(4) settles_trans[OF settles_fields(3) settles_flush]] timer(1) by (simp add: on_timer_def)
  next
    case (tick it)
    let ?s = "startHeartbeat (it 0) (s\<lparr>wo_acquire_paused := False\<rparr>)"
    have "settles {} s (startAcquire cfg ?s)"
      by (rule settles_trans[OF settles_trans[OF settles_flags(2) settles_admins(2)] settles_admins(1)])
    then have "orderly cfg (startAcquire cfg ?s)" by (intro orderly_settles[OF _ assms(4)]) (simp_all add: fine)
    moreover have "orderly cfg (startRegistration s)" using assms(4) rests_registration[of s] by (simp add: orderly_def rests_def)
    ultimately show ?thesis using tick(1) by (simp add: on_tick_def)
  qed
qed

lemma orderly_runs:
  assumes "runs cfg True s" "valid_env cfg"
  shows "orderly cfg s \<and> calm cfg s"
proof -
  obtain w where steps: "(wstep cfg True)\<^sup>*\<^sup>* (run_start cfg w) s" using assms(1) by (auto simp: runs_def)
  have "fine (cf_max_completion_attempts cfg) {} (initial_worker i)" "rests (initial_worker i)" for i
    by (simp_all add: fine_def live_def sound_def rests_def waiting_def fresh_deferred_def initial_worker_def cell_def attempt_def load_def executions_def)
  then have "orderly cfg (run_start cfg w)"
    unfolding run_start_def orderly_def using rests_settles[OF _ settles_admins(1)] by simp
  from steps this show ?thesis
  proof induction
    case base
    then show ?case using calm_runs[of cfg True "run_start cfg w"] assms(2) by (auto simp: runs_def)
  next
    case (step s1 s2)
    then show ?case using orderly_wstep[OF step(2)] calm_runs[of cfg True s2] assms(2) by (auto simp: runs_def intro: rtranclp.rtrancl_into_rtrancl)
  qed
qed

section \<open>Properties\<close>



end
