(* ===== verification/Digest_Vectors.thy ===== *)
theory Digest_Vectors
  imports Go_Sha256
begin

text \<open>
  The digest of a published test vector of the hash standard, computed by the definitions of \<^verbatim>\<open>Go_Sha256\<close>.
\<close>

lemma sha256_abc: "sha256_hex ''abc'' = ''ba7816bf8f01cfea414140de5dae2223b00361a396177a9cb410ff61f20015ad''"
  by code_simp

end
