(* ===== verification/Write_Gate.thy ===== *)
theory Write_Gate
  imports Yard_Prelude
begin

text \<open>
  The write gate of \<^verbatim>\<open>internal/store/sqlite/sqlite.go\<close>: writers enter one at a time, those of a higher priority first.
  Every operation of the store holds the gate from its first statement to its last, which is why the store is modelled
  as one operation after the other.

  A thread is at one of the points between which it holds the mutex: outside, asleep on the condition variable, woken up and
  about to check the loop condition again, or writing. The sections under the mutex are atomic steps. The condition variable of Go
  has no spurious wake-ups; a thread that waits is woken by a broadcast only.
\<close>

section \<open>Definitions\<close>

datatype point = Outside | Asleep nat | Woken nat | Writing

record gate =
  gt_active :: bool
  gt_waiters :: "int list"
  gt_threads :: "point list"

definition writeNormal :: nat where
  "writeNormal = 0"

definition writeDispatch :: nat where
  "writeDispatch = 1"

definition writeMaintenance :: nat where
  "writeMaintenance = 2"

definition newWriteGate :: "nat \<Rightarrow> gate" where
  "newWriteGate n = \<lparr>gt_active = False, gt_waiters = [0, 0, 0], gt_threads = replicate n Outside\<rparr>"

definition hasHigherWaiter :: "gate \<Rightarrow> nat \<Rightarrow> bool" where
  "hasHigherWaiter g priority \<longleftrightarrow> list_ex (\<lambda>candidate. gt_waiters g ! candidate > 0) [priority + 1 ..< length (gt_waiters g)]"

text \<open>One pass of the loop of \<^verbatim>\<open>lock\<close>: wait again, or leave the loop and enter.\<close>

definition lock_loop :: "nat \<Rightarrow> nat \<Rightarrow> gate \<Rightarrow> gate" where
  "lock_loop t priority g =
     (if gt_active g \<or> hasHigherWaiter g priority then g\<lparr>gt_threads := (gt_threads g)[t := Asleep priority]\<rparr>
      else g\<lparr>gt_waiters := (gt_waiters g)[priority := gt_waiters g ! priority - 1], gt_active := True,
             gt_threads := (gt_threads g)[t := Writing]\<rparr>)"

definition gate_lock :: "nat \<Rightarrow> nat \<Rightarrow> gate \<Rightarrow> gate" where
  "gate_lock t priority g = lock_loop t priority (g\<lparr>gt_waiters := (gt_waiters g)[priority := gt_waiters g ! priority + 1]\<rparr>)"

fun wake :: "point \<Rightarrow> point" where
  "wake (Asleep p) = Woken p"
| "wake x = x"

definition gate_unlock :: "nat \<Rightarrow> gate \<Rightarrow> gate" where
  "gate_unlock t g = g\<lparr>gt_active := False, gt_threads := map wake ((gt_threads g)[t := Outside])\<rparr>"

text \<open>A step of a thread that is not outside: another pass of the loop, or the end of its write.\<close>

inductive drain :: "gate \<Rightarrow> gate \<Rightarrow> bool" where
  again: "t < length (gt_threads g) \<Longrightarrow> gt_threads g ! t = Woken p \<Longrightarrow> drain g (lock_loop t p g)"
| unlock: "t < length (gt_threads g) \<Longrightarrow> gt_threads g ! t = Writing \<Longrightarrow> drain g (gate_unlock t g)"

inductive gate_step :: "gate \<Rightarrow> gate \<Rightarrow> bool" where
  lock: "t < length (gt_threads g) \<Longrightarrow> gt_threads g ! t = Outside \<Longrightarrow> p \<le> writeMaintenance \<Longrightarrow> gate_step g (gate_lock t p g)"
| drain: "drain g g' \<Longrightarrow> gate_step g g'"

definition gate_reachable :: "gate \<Rightarrow> bool" where
  "gate_reachable g \<longleftrightarrow> (\<exists>n. gate_step\<^sup>*\<^sup>* (newWriteGate n) g)"

section \<open>Invariant\<close>

fun priority_of :: "point \<Rightarrow> nat option" where
  "priority_of (Asleep p) = Some p"
| "priority_of (Woken p) = Some p"
| "priority_of _ = None"

definition waiting_at :: "nat \<Rightarrow> point list \<Rightarrow> nat" where
  "waiting_at p ts = length (filter (\<lambda>x. priority_of x = Some p) ts)"

definition writers :: "point list \<Rightarrow> nat" where
  "writers ts = length (filter (\<lambda>x. x = Writing) ts)"

definition gate_inv :: "gate \<Rightarrow> bool" where
  "gate_inv g \<longleftrightarrow> length (gt_waiters g) = 3 \<and> (\<forall>p < 3. gt_waiters g ! p = int (waiting_at p (gt_threads g))) \<and>
     (\<forall>x \<in> set (gt_threads g). \<forall>p. priority_of x = Some p \<longrightarrow> p < 3) \<and>
     writers (gt_threads g) = (if gt_active g then 1 else 0) \<and>
     (\<forall>p. Asleep p \<in> set (gt_threads g) \<longrightarrow> gt_active g \<or> hasHigherWaiter g p)"

section \<open>Lemmas\<close>

lemma filter_update:
  assumes "i < length xs"
  shows "int (length (filter P (xs[i := x]))) = int (length (filter P xs)) - (if P (xs ! i) then 1 else 0) + (if P x then 1 else 0)"
  using assms
proof (induction xs arbitrary: i)
  case (Cons y ys)
  show ?case
  proof (cases i)
    case (Suc n)
    then have "n < length ys" using Cons.prems by simp
    then show ?thesis using Cons.IH[of n] Suc by (auto split: if_split_asm)
  qed simp
qed simp

lemma waiting_update:
  "i < length ts \<Longrightarrow> int (waiting_at p (ts[i := x])) =
     int (waiting_at p ts) - (if priority_of (ts ! i) = Some p then 1 else 0) + (if priority_of x = Some p then 1 else 0)"
  unfolding waiting_at_def by (rule filter_update)

lemma writers_update:
  "i < length ts \<Longrightarrow> int (writers (ts[i := x])) = int (writers ts) - (if ts ! i = Writing then 1 else 0) + (if x = Writing then 1 else 0)"
  unfolding writers_def by (rule filter_update)

lemma priority_wake [simp]: "priority_of (wake x) = priority_of x"
  by (cases x) auto

lemma wake_Writing [simp]: "wake x = Writing \<longleftrightarrow> x = Writing"
  by (cases x) auto

lemma wake_Asleep [simp]: "wake x \<noteq> Asleep p"
  by (cases x) auto

lemma waiting_wake [simp]: "waiting_at p (map wake ts) = waiting_at p ts" "writers (map wake ts) = writers ts"
  by (simp_all add: waiting_at_def writers_def filter_map o_def)

lemma higher_iff: "gate_inv g \<Longrightarrow> hasHigherWaiter g p \<longleftrightarrow> (\<exists>q. p < q \<and> q < 3 \<and> 0 < gt_waiters g ! q)"
  by (auto simp: gate_inv_def hasHigherWaiter_def list_ex_iff Suc_le_eq)

lemma waits_iff: "0 < waiting_at p ts \<longleftrightarrow> (\<exists>x \<in> set ts. priority_of x = Some p)"
  by (auto simp: waiting_at_def filter_empty_conv)

lemma higher_cong: "gt_waiters g' = gt_waiters g \<Longrightarrow> hasHigherWaiter g' p = hasHigherWaiter g p"
  by (simp add: hasHigherWaiter_def)

lemma inv_lock_loop:
  assumes inv: "gate_inv g" and t: "t < length (gt_threads g)" "gt_threads g ! t = Woken p"
  shows "gate_inv (lock_loop t p g)"
proof -
  let ?ts = "gt_threads g"
  have mem: "Woken p \<in> set ?ts" using t by (metis nth_mem)
  then have p: "p < 3" using inv by (auto simp: gate_inv_def)
  have bound: "\<forall>x \<in> set (?ts[t := y]). \<forall>q. priority_of x = Some q \<longrightarrow> q < 3" if "priority_of y \<in> {None, Some p}" for y
    using inv p that set_update_subset_insert[of ?ts t y] by (auto simp: gate_inv_def)
  show ?thesis
  proof (cases "gt_active g \<or> hasHigherWaiter g p")
    case True
    then have eq: "lock_loop t p g = g\<lparr>gt_threads := ?ts[t := Asleep p]\<rparr>" by (simp add: lock_loop_def)
    have "waiting_at q (?ts[t := Asleep p]) = waiting_at q ?ts" "writers (?ts[t := Asleep p]) = writers ?ts" for q
      using waiting_update[OF t(1), of q "Asleep p"] writers_update[OF t(1), of "Asleep p"] t(2) by simp_all
    moreover have "gt_active g \<or> hasHigherWaiter g q" if "Asleep q \<in> set (?ts[t := Asleep p])" for q
      using that True inv set_update_subset_insert[of ?ts t "Asleep p"] by (auto simp: gate_inv_def)
    ultimately show ?thesis
      using inv bound[of "Asleep p"] higher_cong[of "g\<lparr>gt_threads := ?ts[t := Asleep p]\<rparr>" g] by (simp add: eq gate_inv_def)
  next
    case False
    then have eq: "lock_loop t p g = g\<lparr>gt_waiters := (gt_waiters g)[p := gt_waiters g ! p - 1], gt_active := True, gt_threads := ?ts[t := Writing]\<rparr>"
      by (simp add: lock_loop_def)
    have "(gt_waiters g)[p := gt_waiters g ! p - 1] ! q = int (waiting_at q (?ts[t := Writing]))" if "q < 3" for q
      using waiting_update[OF t(1), of q Writing] t(2) inv p that by (auto simp: gate_inv_def nth_list_update)
    moreover have "writers (?ts[t := Writing]) = 1"
      using writers_update[OF t(1), of Writing] t(2) inv False by (simp add: gate_inv_def)
    ultimately show ?thesis using inv bound[of Writing] by (simp add: eq gate_inv_def)
  qed
qed

lemma inv_gate_lock:
  assumes inv: "gate_inv g" and t: "t < length (gt_threads g)" "gt_threads g ! t = Outside" and p: "p < 3"
  shows "gate_inv (gate_lock t p g)"
proof -
  let ?ts = "gt_threads g" and ?ws = "(gt_waiters g)[p := gt_waiters g ! p + 1]"
  let ?g = "g\<lparr>gt_waiters := ?ws, gt_threads := ?ts[t := Woken p]\<rparr>"
  have "?ws ! q = int (waiting_at q (?ts[t := Woken p]))" if "q < 3" for q
    using waiting_update[OF t(1), of q "Woken p"] t(2) inv p that by (auto simp: gate_inv_def nth_list_update)
  moreover have "writers (?ts[t := Woken p]) = writers ?ts" using writers_update[OF t(1), of "Woken p"] t(2) by simp
  moreover have "hasHigherWaiter ?g q" if "hasHigherWaiter g q" for q
    using that inv p unfolding hasHigherWaiter_def list_ex_iff by (elim bexE) (rule bexI, auto simp: nth_list_update gate_inv_def)
  then have "gt_active g \<or> hasHigherWaiter ?g q" if "Asleep q \<in> set (?ts[t := Woken p])" for q
    using that inv set_update_subset_insert[of ?ts t "Woken p"] by (auto simp: gate_inv_def)
  moreover have "\<forall>x \<in> set (?ts[t := Woken p]). \<forall>q. priority_of x = Some q \<longrightarrow> q < 3"
    using inv p set_update_subset_insert[of ?ts t "Woken p"] by (auto simp: gate_inv_def)
  ultimately have "gate_inv ?g" using inv by (simp add: gate_inv_def)
  then have "gate_inv (lock_loop t p ?g)" by (rule inv_lock_loop) (use t(1) in simp_all)
  moreover have "gate_lock t p g = lock_loop t p ?g"
    by (simp add: gate_lock_def lock_loop_def higher_cong[of ?g "g\<lparr>gt_waiters := ?ws\<rparr>"])
  ultimately show ?thesis by simp
qed

lemma inv_gate_unlock:
  assumes inv: "gate_inv g" and t: "t < length (gt_threads g)" "gt_threads g ! t = Writing"
  shows "gate_inv (gate_unlock t g)"
proof -
  let ?ts = "gt_threads g"
  have "waiting_at q (?ts[t := Outside]) = waiting_at q ?ts" for q using waiting_update[OF t(1), of q Outside] t(2) by simp
  moreover have "writers (?ts[t := Outside]) = 0"
    using writers_update[OF t(1), of Outside] t(2) inv by (simp add: gate_inv_def split: if_split_asm)
  moreover have "\<forall>x \<in> set (?ts[t := Outside]). \<forall>q. priority_of x = Some q \<longrightarrow> q < 3"
    using inv set_update_subset_insert[of ?ts t Outside] by (auto simp: gate_inv_def)
  moreover have "Asleep q \<notin> wake ` set (?ts[t := Outside])" for q by (auto dest: sym)
  ultimately show ?thesis using inv by (simp add: gate_unlock_def gate_inv_def)
qed

lemma inv_reachable: "gate_reachable g \<Longrightarrow> gate_inv g"
proof -
  assume "gate_reachable g"
  then obtain n where "gate_step\<^sup>*\<^sup>* (newWriteGate n) g" by (auto simp: gate_reachable_def)
  then show ?thesis
  proof induction
    case base
    show ?case by (auto simp: newWriteGate_def gate_inv_def waiting_at_def writers_def less_Suc_eq numeral_3_eq_3)
  next
    case (step g1 g2)
    from step(2) show ?case
    proof cases
      case (lock t p)
      then show ?thesis using inv_gate_lock[OF step(3)] by (simp add: writeMaintenance_def)
    next
      case drain
      then show ?thesis by cases (use inv_lock_loop inv_gate_unlock step(3) in auto)
    qed
  qed
qed

subsection \<open>Progress\<close>

lemma top_waiter:
  assumes inv: "gate_inv g" and "\<not> gt_active g" and x: "x \<in> set (gt_threads g)" "priority_of x \<noteq> None"
  obtains t p where "t < length (gt_threads g)" "gt_threads g ! t = Woken p" "\<not> hasHigherWaiter g p"
proof -
  define P where "P = {p. p < 3 \<and> 0 < waiting_at p (gt_threads g)}"
  have "finite P" by (rule finite_subset[of _ "{..<3}"]) (auto simp: P_def)
  moreover obtain q where "priority_of x = Some q" using x(2) by auto
  then have "q \<in> P" using inv x(1) by (auto simp: P_def waits_iff gate_inv_def)
  ultimately have max: "Max P \<in> P" "\<And>q. q \<in> P \<Longrightarrow> q \<le> Max P" using Max_in[of P] Max_ge[of P] by blast+
  have no: "\<not> hasHigherWaiter g (Max P)"
  proof
    assume "hasHigherWaiter g (Max P)"
    then obtain q where q: "Max P < q" "q < 3" "0 < gt_waiters g ! q" unfolding higher_iff[OF inv] by blast
    moreover have "gt_waiters g ! q = int (waiting_at q (gt_threads g))" using inv q(2) by (simp add: gate_inv_def)
    ultimately have "q \<in> P" by (simp add: P_def)
    then show False using max(2) q(1) by (simp add: leD)
  qed
  obtain y where y: "y \<in> set (gt_threads g)" "priority_of y = Some (Max P)" using max(1) by (auto simp: P_def waits_iff)
  then have "y = Woken (Max P)" using inv assms(2) no by (cases y rule: point.exhaust) (auto simp: gate_inv_def)
  then show ?thesis using that no y(1) by (metis in_set_conv_nth)
qed

definition gate_measure :: "gate \<Rightarrow> nat \<times> nat" where
  "gate_measure g = (2 * length (filter (\<lambda>x. priority_of x \<noteq> None) (gt_threads g)) + writers (gt_threads g),
     length (filter (\<lambda>x. \<exists>p. x = Woken p) (gt_threads g)))"

lemma drain_decreases: "drain g g' \<Longrightarrow> (gate_measure g', gate_measure g) \<in> less_than <*lex*> less_than"
proof (induction rule: drain.induct)
  case (again t g p)
  note upd = filter_update[OF again(1)] and wr = writers_update[OF again(1)]
  show ?case
    using upd[of "\<lambda>x. priority_of x \<noteq> None" Writing] upd[of "\<lambda>x. \<exists>p. x = Woken p" Writing] wr[of Writing]
      upd[of "\<lambda>x. priority_of x \<noteq> None" "Asleep p"] upd[of "\<lambda>x. \<exists>p. x = Woken p" "Asleep p"] wr[of "Asleep p"] again(2)
    by (auto simp: lock_loop_def gate_measure_def)
next
  case (unlock t g)
  have "filter (\<lambda>x. priority_of x \<noteq> None) (map wake ts) = map wake (filter (\<lambda>x. priority_of x \<noteq> None) ts)" for ts
    by (simp add: filter_map o_def)
  then show ?case
    using filter_update[OF unlock(1), of "\<lambda>x. priority_of x \<noteq> None" Outside] writers_update[OF unlock(1), of Outside] unlock(2)
    by (auto simp: gate_unlock_def gate_measure_def)
qed

section \<open>Properties\<close>

text \<open>C29: Writers exclude each other and respect priorities: the gate is active exactly while one thread writes, never are there two, the
  counters are the numbers of waiting threads of each priority, and a thread that starts to write leaves no waiting thread
  of a higher priority behind.\<close>

theorem write_gate_exclusive:
  assumes "gate_reachable g"
  shows "length (filter (\<lambda>x. x = Writing) (gt_threads g)) = (if gt_active g then 1 else 0) \<and>
    gt_waiters g = map (\<lambda>p. int (length (filter (\<lambda>x. x = Asleep p \<or> x = Woken p) (gt_threads g)))) [writeNormal, writeDispatch, writeMaintenance] \<and>
    (\<forall>t p q. t < length (gt_threads g) \<longrightarrow> gt_threads g ! t \<in> {Outside, Woken p} \<longrightarrow>
      gt_threads (if gt_threads g ! t = Outside then gate_lock t p g else lock_loop t p g) ! t = Writing \<longrightarrow>
      Asleep q \<in> set (gt_threads g) \<or> Woken q \<in> set (gt_threads g) \<longrightarrow> q \<le> p)"
proof -
  have inv: "gate_inv g" using inv_reachable[OF assms] .
  have "priority_of x = Some p \<longleftrightarrow> x = Asleep p \<or> x = Woken p" for x p by (cases x) auto
  then have at: "waiting_at p ts = length (filter (\<lambda>x. x = Asleep p \<or> x = Woken p) ts)" for p ts by (simp add: waiting_at_def)
  have "gt_waiters g = map (\<lambda>p. int (waiting_at p (gt_threads g))) [writeNormal, writeDispatch, writeMaintenance]"
    using inv by (intro nth_equalityI) (auto simp: gate_inv_def writeNormal_def writeDispatch_def writeMaintenance_def less_Suc_eq numeral_3_eq_3 numeral_2_eq_2)
  moreover have "q \<le> p" if "gt_threads (if gt_threads g ! t = Outside then gate_lock t p g else lock_loop t p g) ! t = Writing"
    "t < length (gt_threads g)" "Asleep q \<in> set (gt_threads g) \<or> Woken q \<in> set (gt_threads g)" for t p q
  proof (rule ccontr)
    assume "\<not> q \<le> p"
    moreover have q: "0 < waiting_at q (gt_threads g)" "q < 3" using that(3) inv by (force simp: waits_iff gate_inv_def)+
    ultimately have "hasHigherWaiter g p" using inv unfolding higher_iff[OF inv] by (intro exI[of _ q]) (auto simp: gate_inv_def)
    moreover have "hasHigherWaiter (g\<lparr>gt_waiters := (gt_waiters g)[p := gt_waiters g ! p + 1]\<rparr>) p"
      using \<open>\<not> q \<le> p\<close> q inv by (auto simp: hasHigherWaiter_def list_ex_iff gate_inv_def intro!: bexI[of _ q])
    ultimately show False using that(1,2) by (auto simp: lock_loop_def gate_lock_def split: if_split_asm)
  qed
  ultimately show ?thesis using inv by (auto simp: at gate_inv_def writers_def)
qed

definition demo_gate :: gate where
  "demo_gate = gate_unlock 0 (gate_lock 2 writeMaintenance (gate_lock 1 writeNormal (gate_lock 0 writeNormal (newWriteGate 3))))"

lemma demo_gate_reachable: "gate_reachable demo_gate"
proof -
  let ?g1 = "gate_lock 0 writeNormal (newWriteGate 3)"
  let ?g2 = "gate_lock 1 writeNormal ?g1"
  let ?g3 = "gate_lock 2 writeMaintenance ?g2"
  have "gate_step (newWriteGate 3) ?g1" "gate_step ?g1 ?g2" "gate_step ?g2 ?g3" by (rule gate_step.lock; code_simp)+
  moreover have "gate_step ?g3 demo_gate" unfolding demo_gate_def by (rule gate_step.drain, rule drain.unlock; code_simp)
  ultimately have "gate_step\<^sup>*\<^sup>* (newWriteGate 3) demo_gate" by (meson converse_rtranclp_into_rtranclp rtranclp.rtrancl_refl)
  then show ?thesis by (auto simp: gate_reachable_def)
qed

theorem write_gate_exclusive_witness:
  "gt_threads demo_gate = [Outside, Woken writeNormal, Woken writeMaintenance] \<and>
    gt_threads (lock_loop 1 writeNormal demo_gate) ! 1 \<noteq> Writing \<and> gt_threads (lock_loop 2 writeMaintenance demo_gate) ! 2 = Writing"
proof -
  have threads: "gt_threads demo_gate = [Outside, Woken writeNormal, Woken writeMaintenance]"
    "gt_threads (lock_loop 2 writeMaintenance demo_gate) ! 2 = Writing" "\<not> writeMaintenance \<le> writeNormal" by code_simp+
  then have "gt_threads (lock_loop 1 writeNormal demo_gate) ! 1 \<noteq> Writing"
    using write_gate_exclusive[OF demo_gate_reachable, THEN conjunct2, THEN conjunct2, rule_format, of 1 writeNormal writeMaintenance] by auto
  then show ?thesis using threads by simp
qed

text \<open>C30: The gate never loses a wake-up. While nobody writes, one of the waiting threads can go on and start to write; without new arrivals
  the threads take finitely many steps, in whatever order they are scheduled, and when no step is left all have written and left.\<close>

theorem write_gate_progress:
  assumes "gate_reachable g"
  shows "(\<not> gt_active g \<longrightarrow> x \<in> set (gt_threads g) \<longrightarrow> x \<noteq> Outside \<longrightarrow> (\<exists>g'. drain g g' \<and> gt_active g')) \<and>
    wf {(g2, g1). drain g1 g2} \<and> ((\<nexists>g'. drain g g') \<longrightarrow> set (gt_threads g) \<subseteq> {Outside})"
proof -
  have inv: "gate_inv g" using inv_reachable[OF assms] .
  have waits: "priority_of x \<noteq> None" if "\<not> gt_active g" "x \<in> set (gt_threads g)" "x \<noteq> Outside" for x
    using that inv by (cases x rule: point.exhaust) (auto simp: gate_inv_def writers_def filter_empty_conv)
  have enter: "\<exists>g'. drain g g' \<and> gt_active g'" if "\<not> gt_active g" "x \<in> set (gt_threads g)" "x \<noteq> Outside" for x
  proof -
    note idle = that and prio = waits[OF that]
    obtain t p where t: "t < length (gt_threads g)" "gt_threads g ! t = Woken p" "\<not> hasHigherWaiter g p"
      using top_waiter[OF inv idle(1,2) prio] by blast
    then show ?thesis using drain.again[OF t(1,2)] idle(1) by (intro exI[of _ "lock_loop t p g"]) (simp add: lock_loop_def)
  qed
  have "wf {(g2, g1). drain g1 g2}"
    by (rule wf_subset[OF wf_inv_image[of "less_than <*lex*> less_than" gate_measure]]) (auto simp: inv_image_def intro: drain_decreases)
  moreover have "set (gt_threads g) \<subseteq> {Outside}" if "\<nexists>g'. drain g g'"
  proof -
    have "Writing \<notin> set (gt_threads g)" using that drain.unlock by (metis in_set_conv_nth)
    then have "writers (gt_threads g) = 0" by (auto simp: writers_def filter_empty_conv)
    then have "\<not> gt_active g" using inv by (simp add: gate_inv_def split: if_split_asm)
    then show ?thesis using enter that by auto
  qed
  ultimately show ?thesis using enter by blast
qed

theorem write_gate_progress_witness: "\<exists>g'. drain demo_gate g' \<and> gt_active g'"
proof -
  have "Woken writeNormal \<in> set (gt_threads demo_gate)" "\<not> gt_active demo_gate" by code_simp+
  then show ?thesis using write_gate_progress[OF demo_gate_reachable, of "Woken writeNormal"] by blast
qed

end
