(* ===== verification/Migrations.thy ===== *)
theory Migrations
  imports Domain "HOL-Library.Sublist"
begin

text \<open>
  The schema migrations of \<^verbatim>\<open>internal/store/sqlite/sqlite.go\<close>: \<^verbatim>\<open>applyMigrations\<close> runs the embedded scripts that the database has not
  seen, in one transaction, and refuses a script that changed since it was applied. \<open>exec\<close> is the execution of one SQL
  statement on the rest of the database, a parameter; \<open>clock\<close> is the wall clock at the script of an index.
\<close>

section \<open>Definitions\<close>

record migration_file =
  mf_name :: string
  mf_is_dir :: bool
  mf_body :: string

record migration_row =
  mg_version :: int
  mg_name :: string
  mg_checksum :: string
  mg_applied_at :: int

definition has_suffix :: "string \<Rightarrow> string \<Rightarrow> bool" where
  "has_suffix s ending \<longleftrightarrow> length ending \<le> length s \<and> drop (length s - length ending) s = ending"

text \<open>\<^verbatim>\<open>strings.Cut\<close> and \<^verbatim>\<open>strings.Split\<close> at a character.\<close>

definition cut_at :: "char \<Rightarrow> string \<Rightarrow> (string \<times> string) option" where
  "cut_at c s = (if c \<in> set s then Some (takeWhile (\<lambda>x. x \<noteq> c) s, drop 1 (dropWhile (\<lambda>x. x \<noteq> c) s)) else None)"

fun split_at :: "char \<Rightarrow> string \<Rightarrow> string list" where
  "split_at c [] = [[]]"
| "split_at c (x # xs) = (if x = c then [] # split_at c xs else case split_at c xs of [] \<Rightarrow> [[x]] | p # ps \<Rightarrow> (x # p) # ps)"

text \<open>\<^verbatim>\<open>strconv.Atoi\<close>: an optional sign and decimal digits within 64 bits.\<close>

definition digit_value :: "char \<Rightarrow> int option" where
  "digit_value c = (let n = of_char c :: int in if 48 \<le> n \<and> n \<le> 57 then Some (n - 48) else None)"

fun digits_value :: "string \<Rightarrow> int \<Rightarrow> int option" where
  "digits_value [] acc = Some acc"
| "digits_value (c # cs) acc = (case digit_value c of None \<Rightarrow> None | Some d \<Rightarrow> digits_value cs (10 * acc + d))"

definition in_int64 :: "int \<Rightarrow> bool" where
  "in_int64 n \<longleftrightarrow> - (2 ^ 63) \<le> n \<and> n < 2 ^ 63"

definition Atoi :: "string \<Rightarrow> int option" where
  "Atoi s =
     (let (negative, ds) = (case s of [] \<Rightarrow> (False, []) | c # cs \<Rightarrow> if c = CHR ''-'' then (True, cs) else if c = CHR ''+'' then (False, cs) else (False, s))
      in if ds = [] then None
         else case digits_value ds 0 of
           None \<Rightarrow> None
         | Some n \<Rightarrow> let v = (if negative then - n else n) in if in_int64 v then Some v else None)"

definition executeMigration :: "(string \<Rightarrow> 'd \<Rightarrow> 'd result) \<Rightarrow> string \<Rightarrow> 'd \<Rightarrow> 'd result" where
  "executeMigration exec body d = foldE exec (filter (\<lambda>statement. trim_space statement \<noteq> '''') (split_at CHR '';'' body)) d"

definition apply_migration :: "(string \<Rightarrow> 'd \<Rightarrow> 'd result) \<Rightarrow> (nat \<Rightarrow> int) \<Rightarrow> nat \<times> migration_file \<Rightarrow> migration_row list \<times> 'd \<Rightarrow>
    (migration_row list \<times> 'd) result" where
  "apply_migration exec clock = (\<lambda>(index, entry) (rows, d).
     if mf_is_dir entry \<or> \<not> has_suffix (mf_name entry) ''.sql'' then Inr (rows, d)
     else case cut_at CHR ''_'' (mf_name entry) of
       None \<Rightarrow> Inl (ErrNew ''migration %q has no numeric prefix'')
     | Some (versionText, _) \<Rightarrow>
         (case Atoi versionText of
            None \<Rightarrow> Inl (ErrNew ''migration %q has invalid version'')
          | Some version \<Rightarrow>
              if version < 1 then Inl (ErrNew ''migration %q has invalid version'')
              else
                let checksum = sha256_hex (mf_body entry) in
                case lookup mg_version version rows of
                  Some r \<Rightarrow> if mg_checksum r \<noteq> checksum then Inl (ErrNew ''migration %d checksum mismatch'') else Inr (rows, d)
                | None \<Rightarrow>
                    (case executeMigration exec (mf_body entry) d of
                       Inl e \<Rightarrow> Inl (ErrWrap ''apply migration %d: %w'' e)
                     | Inr d' \<Rightarrow> Inr (rows @ [\<lparr>mg_version = version, mg_name = mf_name entry, mg_checksum = checksum,
                                              mg_applied_at = clock index\<rparr>], d'))))"

text \<open>The embedded directory lists its files in the order of their names.\<close>

definition applyMigrations :: "(string \<Rightarrow> 'd \<Rightarrow> 'd result) \<Rightarrow> (nat \<Rightarrow> int) \<Rightarrow> migration_file list \<Rightarrow> migration_row list \<times> 'd \<Rightarrow>
    unit result \<times> migration_row list \<times> 'd" where
  "applyMigrations exec clock files s =
     (case foldE (apply_migration exec clock) (enumerate 0 (sort_key mf_name files)) s of
        Inl e \<Rightarrow> (Inl e, s)
      | Inr s' \<Rightarrow> (Inr (), s'))"

section \<open>Lemmas\<close>

text \<open>The scripts the database knows, and the version a file name gives.\<close>

definition file_version :: "migration_file \<Rightarrow> int option" where
  "file_version f = (if mf_is_dir f \<or> \<not> has_suffix (mf_name f) ''.sql'' then None
     else case cut_at CHR ''_'' (mf_name f) of None \<Rightarrow> None | Some (v, _) \<Rightarrow> Atoi v)"

definition recorded :: "migration_row list \<Rightarrow> migration_file \<Rightarrow> bool" where
  "recorded rows f \<longleftrightarrow> (\<forall>v. file_version f = Some v \<longrightarrow> (\<exists>r. lookup mg_version v rows = Some r \<and> mg_checksum r = sha256_hex (mf_body f)))"

lemma apply_migration_cases:
  assumes "apply_migration exec clock (i, f) (rows, d) = Inr (rows', d')"
  obtains (old) "rows' = rows" "d' = d" "recorded rows f" "\<forall>v. file_version f = Some v \<longrightarrow> 1 \<le> v"
  | (new) v where "file_version f = Some v" "1 \<le> v" "lookup mg_version v rows = None" "executeMigration exec (mf_body f) d = Inr d'"
      "rows' = rows @ [\<lparr>mg_version = v, mg_name = mf_name f, mg_checksum = sha256_hex (mf_body f), mg_applied_at = clock i\<rparr>]"
proof (cases "mf_is_dir f \<or> \<not> has_suffix (mf_name f) ''.sql''")
  case True
  then have "file_version f = None" by (simp add: file_version_def)
  then show ?thesis using True assms by (intro old) (auto simp: apply_migration_def recorded_def)
next
  case False
  then obtain vt rest v where v: "cut_at CHR ''_'' (mf_name f) = Some (vt, rest)" "Atoi vt = Some v" "1 \<le> v"
    using assms by (auto simp: apply_migration_def split: option.split_asm if_split_asm)
  then have version: "file_version f = Some v" using False by (simp add: file_version_def)
  show ?thesis
  proof (cases "lookup mg_version v rows")
    case None
    then show ?thesis using assms False v version by (intro new) (auto simp: apply_migration_def Let_def split: sum.split_asm)
  next
    case (Some r)
    then show ?thesis using assms False v version by (intro old) (auto simp: apply_migration_def Let_def recorded_def split: if_split_asm)
  qed
qed

lemma apply_migration_recorded:
  assumes "recorded rows f" "\<forall>v. file_version f = Some v \<longrightarrow> 1 \<le> v" "apply_migration exec0 clock0 (i0, f) s0 = Inr s1"
  shows "apply_migration exec clock (i, f) (rows, d) = Inr (rows, d)"
  using assms by (auto simp: apply_migration_def recorded_def file_version_def Let_def split: option.split_asm if_split_asm prod.split_asm)

lemma recorded_append: "recorded rows f \<Longrightarrow> recorded (rows @ new) f"
  by (force simp: recorded_def lookup_append)

lemma migrations_fold:
  assumes "foldE (apply_migration exec clock) (enumerate i fs) (rows, d) = Inr (rows', d')"
  shows "\<exists>applied new. subseq applied fs \<and> rows' = rows @ new \<and> foldE (\<lambda>f. executeMigration exec (mf_body f)) applied d = Inr d' \<and>
    map (\<lambda>r. (Some (mg_version r), mg_name r, mg_checksum r)) new = map (\<lambda>f. (file_version f, mf_name f, sha256_hex (mf_body f))) applied \<and>
    distinct (map mg_version new) \<and> set (map mg_version new) \<inter> set (map mg_version rows) = {} \<and>
    (\<forall>f \<in> set fs. recorded rows' f \<and> (\<forall>v. file_version f = Some v \<longrightarrow> 1 \<le> v) \<and> (\<exists>j s0 s1. apply_migration exec clock (j, f) s0 = Inr s1))"
  using assms
proof (induction fs arbitrary: i rows d)
  case (Cons f fs)
  obtain rows1 d1 where one: "apply_migration exec clock (i, f) (rows, d) = Inr (rows1, d1)"
    and rest: "foldE (apply_migration exec clock) (enumerate (Suc i) fs) (rows1, d1) = Inr (rows', d')"
    using Cons.prems by (auto simp: bindE_Inr_iff)
  obtain applied new where IH: "subseq applied fs" "rows' = rows1 @ new" "foldE (\<lambda>f. executeMigration exec (mf_body f)) applied d1 = Inr d'"
    "map (\<lambda>r. (Some (mg_version r), mg_name r, mg_checksum r)) new = map (\<lambda>f. (file_version f, mf_name f, sha256_hex (mf_body f))) applied"
    "distinct (map mg_version new)" "set (map mg_version new) \<inter> set (map mg_version rows1) = {}"
    "\<forall>f \<in> set fs. recorded rows' f \<and> (\<forall>v. file_version f = Some v \<longrightarrow> 1 \<le> v) \<and> (\<exists>j s0 s1. apply_migration exec clock (j, f) s0 = Inr s1)"
    using Cons.IH[OF rest] by blast
  from one show ?case
  proof (cases rule: apply_migration_cases)
    case old
    then show ?thesis using IH one recorded_append[of rows f new] by (intro exI[of _ applied] exI[of _ new]) auto
  next
    case (new v)
    let ?r = "\<lparr>mg_version = v, mg_name = mf_name f, mg_checksum = sha256_hex (mf_body f), mg_applied_at = clock i\<rparr>"
    have "v \<notin> set (map mg_version rows)" using new(3) by (auto simp: lookup_def find_None_iff)
    moreover have "recorded (rows @ [?r]) f" using new(1,3) by (simp add: recorded_def lookup_append lookup_Cons)
    then have "recorded rows' f" using recorded_append[of "rows @ [?r]" f] IH(2) new(5) by simp
    moreover have "set (map mg_version new) \<inter> set (map mg_version rows) = {}" "v \<notin> set (map mg_version new)" using IH(6) new(5) by auto
    moreover have "\<exists>j s0 s1. apply_migration exec clock (j, f) s0 = Inr s1" using one by blast
    ultimately show ?thesis
      using IH(1-5,7) new(1,2,4,5) by (intro exI[of _ "f # applied"] exI[of _ "?r # new"]) simp
  qed
qed (rule exI[of _ "[]"], rule exI[of _ "[]"], simp)

lemma migrations_recorded:
  assumes "\<forall>f \<in> set fs. recorded rows f \<and> (\<forall>v. file_version f = Some v \<longrightarrow> 1 \<le> v) \<and> (\<exists>j s0 s1. apply_migration exec0 clock0 (j, f) s0 = Inr s1)"
  shows "foldE (apply_migration exec clock) (enumerate i fs) (rows, d) = Inr (rows, d)"
  using assms
proof (induction fs arbitrary: i)
  case (Cons f fs)
  then obtain j s0 s1 where f: "recorded rows f" "\<forall>v. file_version f = Some v \<longrightarrow> 1 \<le> v" "apply_migration exec0 clock0 (j, f) s0 = Inr s1"
    by auto
  have "apply_migration exec clock (i, f) (rows, d) = Inr (rows, d)" by (rule apply_migration_recorded[OF f])
  then show ?case using Cons by simp
qed simp

section \<open>Properties\<close>

text \<open>C31: Opening a database runs every embedded script that it has not seen exactly once, in the order of the file names, and records its
  version, name and checksum. Opening it again with the same files runs nothing and changes nothing. All recorded versions are
  positive, each is recorded once, and the recorded checksum is that of the file.\<close>

theorem migrations_applied_once:
  assumes "applyMigrations exec clock files (rows, d) = (Inr (), rows', d')"
  shows "applyMigrations exec' clock' files (rows', d') = (Inr (), rows', d') \<and>
    (\<exists>applied new. subseq applied (sort_key mf_name files) \<and> rows' = rows @ new \<and>
      foldE (\<lambda>f. executeMigration exec (mf_body f)) applied d = Inr d' \<and>
      map (\<lambda>r. (Some (mg_version r), mg_name r, mg_checksum r)) new = map (\<lambda>f. (file_version f, mf_name f, sha256_hex (mf_body f))) applied \<and>
      distinct (map mg_version new) \<and> set (map mg_version new) \<inter> set (map mg_version rows) = {}) \<and>
    (\<forall>f \<in> set files. \<forall>v. file_version f = Some v \<longrightarrow> 1 \<le> v \<and>
      (\<exists>r. lookup mg_version v rows' = Some r \<and> mg_checksum r = sha256_hex (mf_body f)))"
proof -
  have fold: "foldE (apply_migration exec clock) (enumerate 0 (sort_key mf_name files)) (rows, d) = Inr (rows', d')"
    using assms by (auto simp: applyMigrations_def split: sum.split_asm)
  note facts = migrations_fold[OF fold]
  then have all: "\<forall>f \<in> set (sort_key mf_name files). recorded rows' f \<and> (\<forall>v. file_version f = Some v \<longrightarrow> 1 \<le> v) \<and>
      (\<exists>j s0 s1. apply_migration exec clock (j, f) s0 = Inr s1)" by blast
  have "applyMigrations exec' clock' files (rows', d') = (Inr (), rows', d')" using migrations_recorded[OF all, of exec' clock' 0 d'] by (simp add: applyMigrations_def)
  moreover have "\<forall>f \<in> set files. recorded rows' f \<and> (\<forall>v. file_version f = Some v \<longrightarrow> 1 \<le> v)" using all by simp
  then have "\<forall>f \<in> set files. \<forall>v. file_version f = Some v \<longrightarrow> 1 \<le> v \<and>
      (\<exists>r. lookup mg_version v rows' = Some r \<and> mg_checksum r = sha256_hex (mf_body f))" by (simp add: recorded_def)
  ultimately show ?thesis using facts by blast
qed

definition demo_migration :: migration_file where
  "demo_migration = \<lparr>mf_name = ''001_initial.sql'', mf_is_dir = False, mf_body = ''CREATE TABLE a; CREATE TABLE b;''\<rparr>"

theorem migrations_applied_once_witness:
  "\<exists>rows. applyMigrations (\<lambda>s d. Inr (d @ [s])) (\<lambda>_. 7) [demo_migration] ([], []) = (Inr (), rows, [''CREATE TABLE a'', '' CREATE TABLE b'']) \<and>
     applyMigrations (\<lambda>s d. Inl (ErrNew ''disk is full'')) (\<lambda>_. 8) [demo_migration] (rows, [''CREATE TABLE a'', '' CREATE TABLE b'']) =
       (Inr (), rows, [''CREATE TABLE a'', '' CREATE TABLE b''])"
proof -
  have "Atoi ''001'' = Some 1" "cut_at CHR ''_'' ''001_initial.sql'' = Some (''001'', ''initial.sql'')" "has_suffix ''001_initial.sql'' ''.sql''"
    "executeMigration (\<lambda>s d. Inr (d @ [s])) ''CREATE TABLE a; CREATE TABLE b;'' [] = Inr [''CREATE TABLE a'', '' CREATE TABLE b'']"
    by code_simp+
  then have "applyMigrations (\<lambda>s d. Inr (d @ [s])) (\<lambda>_. 7) [demo_migration] ([], []) =
      (Inr (), [\<lparr>mg_version = 1, mg_name = ''001_initial.sql'', mg_checksum = sha256_hex ''CREATE TABLE a; CREATE TABLE b;'', mg_applied_at = 7\<rparr>],
       [''CREATE TABLE a'', '' CREATE TABLE b''])"
    by (simp add: applyMigrations_def demo_migration_def apply_migration_def lookup_def Let_def)
  note run = this
  show ?thesis
    by (rule exI, rule conjI, rule run, rule migrations_applied_once[OF run, of "\<lambda>s d. Inl (ErrNew ''disk is full'')" "\<lambda>_. 8", THEN conjunct1])
qed

end
