(* ===== verification/Spec2Isabelle.thy ===== *)
theory Spec2Isabelle
  imports Store_Example Worker_Attempts Digest_Vectors Write_Gate Migrations
begin

text \<open>
  \<^bold>\<open>Rail Yard: a durable job scheduler.\<close>

  The program accepts jobs and workflows of dependent jobs over HTTP, keeps them in an SQLite database, leases them to
  workers and records the outcome of every attempt. A \<^emph>\<open>job\<close> moves from \<^verbatim>\<open>PENDING\<close> over \<^verbatim>\<open>SCHEDULED\<close> and \<^verbatim>\<open>RUNNING\<close> to one of the
  terminal states, perhaps with retries in between. A \<^emph>\<open>lease\<close> gives a worker the right to run one \<^emph>\<open>attempt\<close> of a job until it expires;
  the number of the lease, its \<^emph>\<open>generation\<close>, and a secret token fence off workers whose lease is not the current one.
  A scheduling decision is a deficit round robin over weighted queues; the snapshot it was made on and its result are kept in a
  hash-chained log that can be replayed.

  \<^bold>\<open>Values and errors.\<close> Pure code is HOL functions. A Go function that may fail returns a sum, \<open>Inl\<close> the error, with
  \<open>bindE\<close> and \<open>foldE\<close> as sequencing; an error is an error value of \<^verbatim>\<open>internal/domain/errors.go\<close> or a message with the format
  string of the source, possibly around another error. Go's \<^verbatim>\<open>int\<close> and \<^verbatim>\<open>int64\<close> are \<^typ>\<open>int\<close>; where a value can leave the 64 bits, the wrap is
  written out (\<open>timeToDB\<close>) or its absence is proved (back-off delays, pauses of the client, durations of no-op jobs). Jitter, hash
  and digest code works on machine words. Times are nanoseconds since 1970.

  \<^bold>\<open>The store\<close> (\<^verbatim>\<open>internal/store/sqlite\<close>). A table is a list of row records, \<open>db\<close> is the record of all tables, and the constraints
  of the schema (\<^verbatim>\<open>migrations/\<close>) are checked by the inserts. \<open>store\<close> adds the options and the in-memory clock. \<open>transact\<close> runs the
  body of an operation at the time the logical clock gives it and drops every change if the body fails.
    \<^item> \<open>Store_Schema\<close>: tables, options, clock, \<open>transact\<close>, events (\<^verbatim>\<open>sqlite.go\<close>, \<^verbatim>\<open>migrations\<close>).
    \<^item> \<open>Store_Submissions\<close>, \<open>Store_Scheduling\<close>, \<open>Store_Maintenance\<close>, \<open>Store_Leases\<close>, \<open>Store_Operations\<close>, \<open>Store_Triggers\<close>: the operations of
      the files of the same names, one definition per function, with every early return and every failing statement.
    \<^item> \<open>Lifecycle\<close>: the specification, an abstract \<open>yard\<close> of jobs, attempts, outcomes and slot accounts with its steps and its invariant.
    \<^item> \<open>Store_View\<close>, \<open>Refine_*\<close>: the abstraction of the tables and, per operation, that it is a sequence of steps of the specification.
    \<^item> \<open>Store_Contract\<close>: the contract of an operation as a locale (\<open>store_op\<close>, \<open>atomic_op\<close>), interpreted for every operation.
    \<^item> \<open>Store_Machine\<close>: requests, restarts and the reachable stores, and what holds in all of them: one outcome per terminal
      job, one current lease per active job, slots accounted for, final history, dependencies respected and acyclic.
    \<^item> \<open>Store_Durability\<close>: what is never forgotten: acknowledged completions, answered submissions, the decision log.
    \<^item> \<open>Store_Example\<close>: a run of the store at which these theorems are applied.

  \<^bold>\<open>Components around the store.\<close>
    \<^item> \<open>Domain\<close> (\<^verbatim>\<open>internal/domain\<close>), \<open>Retry\<close> (\<^verbatim>\<open>internal/retry\<close>: delays within 80 and 100 percent of their cap), \<open>Dag\<close> (\<^verbatim>\<open>internal/dag\<close>:
      Kahn's algorithm, sound and complete), \<open>Workflow_Validation\<close> (\<^verbatim>\<open>validateWorkflow\<close> decides well-formedness and acyclicity).
    \<^item> \<open>Scheduler\<close> (\<^verbatim>\<open>internal/scheduler\<close>: within capacity, in queue order, independent of the order of collection, making progress),
      \<open>Decision_Log\<close> (\<^verbatim>\<open>internal/decisionlog\<close>, \<^verbatim>\<open>internal/replay\<close>: accepted logs are the hash-chained ones, and they replay).
    \<^item> \<open>Executor\<close> (\<^verbatim>\<open>internal/executor\<close>), \<open>Worker_Client\<close> (\<^verbatim>\<open>internal/worker/client.go\<close>: retries and the fallback from batches).
    \<^item> \<open>Worker_Loop\<close>, \<open>Worker_Invariants\<close>, \<open>Worker_Attempts\<close> (\<^verbatim>\<open>internal/worker/run.go\<close>): the event loop as a step relation. Its state is
      the local variables of \<^verbatim>\<open>Run\<close>, the calls under way and the history of calls; a step is the answer to one of them, whatever
      it is, or a timer. The invariants hold for all interleavings of answers.
    \<^item> \<open>Yard_Prelude\<close>, \<open>Go_Sha256\<close>, \<open>Go_Json\<close>, \<open>Digest_Vectors\<close>: tables, sorting, strings and what the program uses of Go's libraries.

  \<^bold>\<open>Parameters.\<close> The cron expression parser, the HTTP transport with its decoders, the operating system of the shell executor and
  the source of randomness are arguments of the definitions that use them. Go's random map iteration is a parameter of the worker's
  handlers, any permutation. No hypothesis is made about the hash function; it is computed.

  \<^bold>\<open>Loops.\<close> All loops are structural recursions or have a termination proof; no fuel is used except where the code itself
  counts its attempts (\<open>attempts_loop\<close>), and where the scheduler's rounds end because the remaining slots decrease.

  \<^bold>\<open>Not modelled.\<close> SQL itself, SQLite's files and the journal; contexts and cancellation inside a transaction; HTTP
  routing and JSON decoding of requests; telemetry export; the evidence and qualification programs.
\<close>

end
